(* ===== verification/Shard_Prelude.thy ===== *)
theory Shard_Prelude
  imports Main "HOL-Library.Word" "HOL-Library.Char_ord" "HOL-Library.List_Lexorder"
begin

text \<open>
  Shared vocabulary of the development: the outcome of a fallible C++ function, three-way
  comparators, and \<open>std::map\<close> ordered by a comparator.

  \<^item> A function that returns \<open>Status\<close> or \<open>StatusWith\<close>, or that throws through
    \<open>uassert\<close>, has type \<open>'a result\<close>; \<open>Inl (Error c)\<close> is a failure with the
    error code \<open>c\<close> (the reason string, used for logs only, is left out) and
    \<open>Inl Fatal\<close> is a failed \<open>invariant\<close>, which aborts the process. \<open>Inl OutOfRange\<close> is a
    \<open>std::out_of_range\<close> exception of the string library, which the handlers of \<open>DBException\<close> do not
    catch, and \<open>Inl UndefinedBehaviour\<close> is an operation the language leaves undefined.
  \<^item> The locale \<open>cmp_order\<close> states what a comparator has to promise (the laws of a
    total preorder); the ordered maps are developed once over it.
\<close>

subsection \<open>Outcomes\<close>

datatype error_code =
    BadValue | NoSuchKey | FailedToParse | TypeMismatch | IllegalOperation
  | ShardKeyNotFound | InvalidOptions | IncompatibleShardingMetadata
  | ConflictingOperationInProgress | StaleEpoch | RangeOverlapConflict | ShardKeyTooBig
  | DollarPrefixedFieldName | CannotSplit | ShardNotFound | NamespaceNotFound | NamespaceNotSharded
  | StaleShardVersion | OperationFailed | NoMatchingDocument | LockBusy | NoProgressMade | CommandFailed
  | InvalidNamespace | InvalidUUID | ErrorNo nat

datatype fault = Error error_code | Fatal | OutOfRange | UndefinedBehaviour

type_synonym 'a result = "fault + 'a"

definition rbind :: "'a result \<Rightarrow> ('a \<Rightarrow> 'b result) \<Rightarrow> 'b result" where
  "rbind r f = (case r of Inl e \<Rightarrow> Inl e | Inr x \<Rightarrow> f x)"

definition uassert :: "error_code \<Rightarrow> bool \<Rightarrow> unit result" where
  "uassert c b = (if b then Inr () else Inl (Error c))"

definition invariant :: "bool \<Rightarrow> unit result" where
  "invariant b = (if b then Inr () else Inl Fatal)"

named_theorems result_simps \<open>evaluation of the outcome combinators\<close>

lemma rbind_simps [simp, result_simps]:
  "rbind (Inl e) f = Inl e" "rbind (Inr x) f = f x"
  by (simp_all add: rbind_def)

lemma rbind_cong [fundef_cong]:
  "r = r' \<Longrightarrow> (\<And>x. r' = Inr x \<Longrightarrow> f x = f' x) \<Longrightarrow> rbind r f = rbind r' f'"
  by (auto simp: rbind_def split: sum.splits)

lemma rbind_Inr_iff [result_simps]: "rbind r f = Inr y \<longleftrightarrow> (\<exists>x. r = Inr x \<and> f x = Inr y)"
  by (auto simp: rbind_def split: sum.splits)

lemma rbind_Inl_iff [result_simps]:
  "rbind r f = Inl e \<longleftrightarrow> r = Inl e \<or> (\<exists>x. r = Inr x \<and> f x = Inl e)"
  by (auto simp: rbind_def split: sum.splits)

lemma uassert_Inr [simp, result_simps]: "uassert c b = Inr u \<longleftrightarrow> b"
  by (simp add: uassert_def)

lemma uassert_Inl [simp, result_simps]: "uassert c b = Inl e \<longleftrightarrow> \<not> b \<and> e = Error c"
  by (auto simp: uassert_def)

lemma invariant_Inr [simp, result_simps]: "invariant b = Inr u \<longleftrightarrow> b"
  by (simp add: invariant_def)

lemma invariant_Inl [simp, result_simps]: "invariant b = Inl e \<longleftrightarrow> \<not> b \<and> e = Fatal"
  by (auto simp: invariant_def)

lemma uassert_True [simp]: "uassert c True = Inr ()"
  by (simp add: uassert_def)

lemma uassert_False [simp]: "uassert c False = Inl (Error c)"
  by (simp add: uassert_def)

lemma invariant_True [simp]: "invariant True = Inr ()"
  by (simp add: invariant_def)

lemma invariant_False [simp]: "invariant False = Inl Fatal"
  by (simp add: invariant_def)

subsection \<open>Three-way comparison\<close>

text \<open>
  The C++ comparison functions return a negative, zero or positive \<open>int\<close>; callers only look
  at the sign. \<open>cmp3\<close> is the comparison of a linear order in that form.
\<close>

definition cmp3 :: "'a::linorder \<Rightarrow> 'a \<Rightarrow> int" where
  "cmp3 x y = (if x < y then -1 else if x = y then 0 else 1)"

lemma cmp3_refl [simp]: "cmp3 x x = 0"
  by (simp add: cmp3_def)

lemma cmp3_sign [simp]:
  "cmp3 x y = 0 \<longleftrightarrow> x = y" "cmp3 x y < 0 \<longleftrightarrow> x < y" "0 < cmp3 x y \<longleftrightarrow> y < x"
  "cmp3 x y \<le> 0 \<longleftrightarrow> x \<le> y" "0 \<le> cmp3 x y \<longleftrightarrow> y \<le> x"
  by (auto simp: cmp3_def)

lemma sgn_cmp3 [simp]: "sgn (cmp3 x y) = cmp3 x y"
  by (simp add: cmp3_def)

lemma cmp3_swap: "cmp3 y x = - cmp3 x y"
  by (auto simp: cmp3_def)

lemma sgn_int_cases [consumes 0, case_names neg zero pos]:
  fixes i :: int
  obtains "i < 0" | "i = 0" | "0 < i"
  by linarith

lemma sgn_eq_iffs:
  fixes i j :: int
  assumes "sgn i = sgn j"
  shows "(i < 0) = (j < 0)" "(i = 0) = (j = 0)" "(0 < i) = (0 < j)" "(i \<le> 0) = (j \<le> 0)"
    "(0 \<le> i) = (0 \<le> j)"
  using assms by (auto simp: sgn_if split: if_splits)

text \<open>What a comparator promises: antisymmetry up to sign and transitivity.\<close>

locale cmp_order =
  fixes cmp :: "'a \<Rightarrow> 'a \<Rightarrow> int"
  assumes cmp_antisym: "sgn (cmp y x) = - sgn (cmp x y)"
    and cmp_trans: "cmp x y \<le> 0 \<Longrightarrow> cmp y z \<le> 0 \<Longrightarrow> cmp x z \<le> 0"
begin

lemma cmp_refl [simp]: "cmp x x = 0"
  using cmp_antisym [of x x] by (simp add: sgn_if split: if_splits)

lemma cmp_flip: "cmp x y < 0 \<longleftrightarrow> 0 < cmp y x" "cmp x y = 0 \<longleftrightarrow> cmp y x = 0"
  "cmp x y \<le> 0 \<longleftrightarrow> 0 \<le> cmp y x"
  using cmp_antisym [of x y] by (auto simp: sgn_if split: if_splits)

lemma cmp_le_less_trans: "cmp x y \<le> 0 \<Longrightarrow> cmp y z < 0 \<Longrightarrow> cmp x z < 0"
proof (rule ccontr)
  assume 1: "cmp x y \<le> 0" and 2: "cmp y z < 0" and 3: "\<not> cmp x z < 0"
  from 3 have "cmp z x \<le> 0" using cmp_flip [of z x] by linarith
  then have "cmp z y \<le> 0" using 1 cmp_trans by blast
  with 2 show False using cmp_flip [of y z] by linarith
qed

lemma cmp_less_le_trans: "cmp x y < 0 \<Longrightarrow> cmp y z \<le> 0 \<Longrightarrow> cmp x z < 0"
proof (rule ccontr)
  assume 1: "cmp x y < 0" and 2: "cmp y z \<le> 0" and 3: "\<not> cmp x z < 0"
  from 3 have "cmp z x \<le> 0" using cmp_flip [of z x] by linarith
  then have "cmp y x \<le> 0" using 2 cmp_trans by blast
  with 1 show False using cmp_flip [of x y] by linarith
qed

lemma cmp_less_trans: "cmp x y < 0 \<Longrightarrow> cmp y z < 0 \<Longrightarrow> cmp x z < 0"
  using cmp_less_le_trans [of x y z] by simp

lemma cmp_total: "cmp x y \<le> 0 \<or> cmp y x \<le> 0"
  using cmp_flip(3) [of y x] by linarith

lemma cmp_not_less: "\<not> cmp x y < 0 \<longleftrightarrow> cmp y x \<le> 0"
  using cmp_flip(3) [of y x] by linarith

lemma cmp_not_le: "\<not> cmp x y \<le> 0 \<longleftrightarrow> cmp y x < 0"
  using cmp_flip(1) [of y x] by linarith

lemma cmp_eq_left: "cmp x y = 0 \<Longrightarrow> sgn (cmp x z) = sgn (cmp y z)"
proof -
  assume eq: "cmp x y = 0"
  then have le: "cmp x y \<le> 0" "cmp y x \<le> 0" using cmp_flip(2) [of x y] by auto
  have "(cmp x z < 0) = (cmp y z < 0)" "(cmp x z \<le> 0) = (cmp y z \<le> 0)"
    using le cmp_le_less_trans cmp_trans by blast+
  then show ?thesis by (auto simp: sgn_if)
qed

lemma cmp_eq_right: "cmp x y = 0 \<Longrightarrow> sgn (cmp z x) = sgn (cmp z y)"
  using cmp_eq_left [of x y z] cmp_antisym [of z x] cmp_antisym [of z y] by simp

end

subsection \<open>Ordered maps\<close>

text \<open>
  \<open>std::map\<close> with a comparator, as the list of its entries in iteration order. An iterator
  is the position it points to; \<open>end()\<close> is the length. \<open>om_insert\<close> keeps an existing
  entry with an equal key, as \<open>std::map::insert\<close> and \<open>emplace\<close> do.
\<close>

type_synonym ('k, 'v) omap = "('k \<times> 'v) list"

definition om_upper_bound :: "('k \<Rightarrow> 'k \<Rightarrow> int) \<Rightarrow> 'k \<Rightarrow> ('k, 'v) omap \<Rightarrow> nat" where
  "om_upper_bound cmp k m = length (takeWhile (\<lambda>e. \<not> cmp k (fst e) < 0) m)"

definition om_lower_bound :: "('k \<Rightarrow> 'k \<Rightarrow> int) \<Rightarrow> 'k \<Rightarrow> ('k, 'v) omap \<Rightarrow> nat" where
  "om_lower_bound cmp k m = length (takeWhile (\<lambda>e. cmp (fst e) k < 0) m)"

definition om_erase :: "nat \<Rightarrow> nat \<Rightarrow> ('k, 'v) omap \<Rightarrow> ('k, 'v) omap" where
  "om_erase lo hi m = take lo m @ drop hi m"

definition om_insert :: "('k \<Rightarrow> 'k \<Rightarrow> int) \<Rightarrow> 'k \<Rightarrow> 'v \<Rightarrow> ('k, 'v) omap \<Rightarrow> ('k, 'v) omap" where
  "om_insert cmp k v m =
     (let i = om_lower_bound cmp k m
      in if i < length m \<and> \<not> cmp k (fst (m ! i)) < 0 then m
         else take i m @ (k, v) # drop i m)"

definition om_find :: "('k \<Rightarrow> 'k \<Rightarrow> int) \<Rightarrow> 'k \<Rightarrow> ('k, 'v) omap \<Rightarrow> 'v option" where
  "om_find cmp k m =
     (let i = om_lower_bound cmp k m
      in if i < length m \<and> \<not> cmp k (fst (m ! i)) < 0 then Some (snd (m ! i)) else None)"

definition om_sorted :: "('k \<Rightarrow> 'k \<Rightarrow> int) \<Rightarrow> ('k, 'v) omap \<Rightarrow> bool" where
  "om_sorted cmp m = sorted_wrt (\<lambda>a b. cmp (fst a) (fst b) < 0) m"

lemma takeWhile_eq_filter_sorted:
  assumes "sorted_wrt R xs" "\<And>x y. R x y \<Longrightarrow> P y \<Longrightarrow> P x"
  shows "takeWhile P xs = filter P xs"
  using assms(1)
proof (induction xs)
  case (Cons x xs)
  show ?case
  proof (cases "P x")
    case False
    then have "\<forall>y\<in>set xs. \<not> P y" using Cons.prems assms(2) by auto
    then have "filter P xs = []" by (simp add: filter_empty_conv)
    with False show ?thesis by simp
  qed (use Cons in simp)
qed simp

lemma dropWhile_eq_filter_sorted:
  assumes "sorted_wrt R xs" "\<And>x y. R x y \<Longrightarrow> P y \<Longrightarrow> P x"
  shows "dropWhile P xs = filter (\<lambda>x. \<not> P x) xs"
  using assms(1)
proof (induction xs)
  case (Cons x xs)
  show ?case
  proof (cases "P x")
    case False
    then have "\<forall>y\<in>set xs. \<not> P y" using Cons.prems assms(2) by auto
    then have "filter (\<lambda>x. \<not> P x) xs = xs" by (simp add: filter_id_conv)
    with False show ?thesis by simp
  qed (use Cons in simp)
qed simp

lemma take_length_takeWhile: "take (length (takeWhile P xs)) xs = takeWhile P xs"
  by (metis append_eq_conv_conj takeWhile_dropWhile_id)

lemma drop_length_takeWhile: "drop (length (takeWhile P xs)) xs = dropWhile P xs"
  by (metis append_eq_conv_conj takeWhile_dropWhile_id)

lemma om_upper_bound_le_length: "om_upper_bound cmp k m \<le> length m"
  by (simp add: om_upper_bound_def length_takeWhile_le)

lemma om_lower_bound_le_length: "om_lower_bound cmp k m \<le> length m"
  by (simp add: om_lower_bound_def length_takeWhile_le)

lemma om_sorted_simps [simp]:
  "om_sorted cmp []"
  "om_sorted cmp (e # m) \<longleftrightarrow> (\<forall>e'\<in>set m. cmp (fst e) (fst e') < 0) \<and> om_sorted cmp m"
  by (auto simp: om_sorted_def)

lemma om_sorted_append:
  "om_sorted cmp (m @ m') \<longleftrightarrow> om_sorted cmp m \<and> om_sorted cmp m' \<and>
     (\<forall>e\<in>set m. \<forall>e'\<in>set m'. cmp (fst e) (fst e') < 0)"
  by (simp add: om_sorted_def sorted_wrt_append)

lemma om_sorted_filter [simp]: "om_sorted cmp m \<Longrightarrow> om_sorted cmp (filter P m)"
  by (simp add: om_sorted_def sorted_wrt_filter)

lemma om_sorted_take [simp]: "om_sorted cmp m \<Longrightarrow> om_sorted cmp (take n m)"
  by (simp add: om_sorted_def sorted_wrt_take)

lemma om_sorted_drop [simp]: "om_sorted cmp m \<Longrightarrow> om_sorted cmp (drop n m)"
  by (simp add: om_sorted_def sorted_wrt_drop)

context cmp_order
begin

lemma take_om_upper_bound:
  assumes "om_sorted cmp m"
  shows "take (om_upper_bound cmp k m) m = filter (\<lambda>e. cmp (fst e) k \<le> 0) m"
proof -
  have "takeWhile (\<lambda>e. \<not> cmp k (fst e) < 0) m = filter (\<lambda>e. \<not> cmp k (fst e) < 0) m"
    using assms cmp_less_trans unfolding om_sorted_def
    by (intro takeWhile_eq_filter_sorted) blast+
  then show ?thesis unfolding om_upper_bound_def take_length_takeWhile by (simp add: cmp_not_less)
qed

lemma drop_om_upper_bound:
  assumes "om_sorted cmp m"
  shows "drop (om_upper_bound cmp k m) m = filter (\<lambda>e. cmp k (fst e) < 0) m"
proof -
  have "dropWhile (\<lambda>e. \<not> cmp k (fst e) < 0) m = filter (\<lambda>e. \<not> \<not> cmp k (fst e) < 0) m"
    using assms cmp_less_trans unfolding om_sorted_def
    by (intro dropWhile_eq_filter_sorted) blast+
  then show ?thesis by (simp add: om_upper_bound_def drop_length_takeWhile)
qed

lemma take_om_lower_bound:
  assumes "om_sorted cmp m"
  shows "take (om_lower_bound cmp k m) m = filter (\<lambda>e. cmp (fst e) k < 0) m"
proof -
  have "takeWhile (\<lambda>e. cmp (fst e) k < 0) m = filter (\<lambda>e. cmp (fst e) k < 0) m"
    using assms cmp_less_trans unfolding om_sorted_def
    by (intro takeWhile_eq_filter_sorted) blast+
  then show ?thesis unfolding om_lower_bound_def take_length_takeWhile .
qed

lemma drop_om_lower_bound:
  assumes "om_sorted cmp m"
  shows "drop (om_lower_bound cmp k m) m = filter (\<lambda>e. cmp k (fst e) \<le> 0) m"
proof -
  have "dropWhile (\<lambda>e. cmp (fst e) k < 0) m = filter (\<lambda>e. \<not> cmp (fst e) k < 0) m"
    using assms cmp_less_trans unfolding om_sorted_def
    by (intro dropWhile_eq_filter_sorted) blast+
  then show ?thesis by (simp add: om_lower_bound_def drop_length_takeWhile cmp_not_less)
qed

lemma om_erase_bounds:
  assumes "om_sorted cmp m" "cmp a b \<le> 0"
  shows "om_erase (om_upper_bound cmp a m) (om_upper_bound cmp b m) m =
    filter (\<lambda>e. cmp (fst e) a \<le> 0 \<or> cmp b (fst e) < 0) m"
proof -
  have "filter (\<lambda>e. cmp (fst e) a \<le> 0) m @ filter (\<lambda>e. cmp b (fst e) < 0) m =
    filter (\<lambda>e. cmp (fst e) a \<le> 0 \<or> cmp b (fst e) < 0) m"
    using assms(1)
  proof (induction m)
    case (Cons e m)
    show ?case
    proof (cases "cmp (fst e) a \<le> 0")
      case True
      then have "\<not> cmp b (fst e) < 0"
        using assms(2) cmp_trans cmp_not_less by blast
      with True Cons show ?thesis by simp
    next
      case False
      then have "\<forall>e'\<in>set m. \<not> cmp (fst e') a \<le> 0"
        using Cons.prems cmp_not_le cmp_less_trans by (metis om_sorted_simps(2))
      with False Cons show ?thesis by (auto simp: filter_empty_conv intro: filter_cong)
    qed
  qed simp
  with assms(1) show ?thesis
    by (simp add: om_erase_def take_om_upper_bound drop_om_upper_bound)
qed

lemma om_insert_fresh:
  assumes "om_sorted cmp m" "\<forall>e\<in>set m. cmp (fst e) k \<noteq> 0"
  shows "om_insert cmp k v m =
    filter (\<lambda>e. cmp (fst e) k < 0) m @ (k, v) # filter (\<lambda>e. cmp k (fst e) < 0) m"
proof -
  let ?i = "om_lower_bound cmp k m"
  have ge: "filter (\<lambda>e. cmp k (fst e) \<le> 0) m = filter (\<lambda>e. cmp k (fst e) < 0) m"
    using assms(2) cmp_flip(2) by (intro filter_cong) (auto simp: order_le_less)
  have "\<not> (?i < length m \<and> \<not> cmp k (fst (m ! ?i)) < 0)"
  proof
    assume i: "?i < length m \<and> \<not> cmp k (fst (m ! ?i)) < 0"
    then have "m ! ?i \<in> set (drop ?i m)" by (metis Cons_nth_drop_Suc list.set_intros(1))
    then have "cmp k (fst (m ! ?i)) < 0"
      using drop_om_lower_bound [OF assms(1)] ge by simp
    with i show False by simp
  qed
  then show ?thesis
    unfolding om_insert_def Let_def take_om_lower_bound [OF assms(1)]
      drop_om_lower_bound [OF assms(1)] ge by presburger
qed

lemma om_sorted_insert:
  assumes "om_sorted cmp m" "\<forall>e\<in>set m. cmp (fst e) k \<noteq> 0"
  shows "om_sorted cmp (om_insert cmp k v m)"
  using assms cmp_less_trans
  by (auto simp: om_insert_fresh om_sorted_append)

lemma set_om_insert:
  assumes "om_sorted cmp m" "\<forall>e\<in>set m. cmp (fst e) k \<noteq> 0"
  shows "set (om_insert cmp k v m) = insert (k, v) (set m)"
proof -
  have "\<forall>e\<in>set m. cmp (fst e) k < 0 \<or> cmp k (fst e) < 0"
    using assms(2) cmp_flip(1) by (metis linorder_neqE_linordered_idom)
  then show ?thesis by (auto simp: om_insert_fresh [OF assms])
qed

lemma nth_om_upper_bound:
  assumes "om_sorted cmp m" "om_upper_bound cmp k m < length m"
  shows "cmp k (fst (m ! om_upper_bound cmp k m)) < 0"
proof -
  have "m ! om_upper_bound cmp k m \<in> set (drop (om_upper_bound cmp k m) m)"
    using assms(2) by (metis Cons_nth_drop_Suc list.set_intros(1))
  then show ?thesis by (simp add: drop_om_upper_bound [OF assms(1)])
qed

lemma om_upper_bound_eq:
  assumes "om_sorted cmp m" "i < length m" "cmp k (fst (m ! i)) < 0"
    "0 < i \<Longrightarrow> cmp (fst (m ! (i - 1))) k \<le> 0"
  shows "om_upper_bound cmp k m = i"
proof -
  have pre: "cmp (fst (m ! j)) k \<le> 0" if "j < i" for j
  proof (cases "j = i - 1")
    case False
    then have "cmp (fst (m ! j)) (fst (m ! (i - 1))) < 0"
      using that assms(1,2) unfolding om_sorted_def
      by (intro sorted_wrt_nth_less [where P = "\<lambda>a b. cmp (fst a) (fst b) < 0"]) auto
    moreover have "cmp (fst (m ! (i - 1))) k \<le> 0" using assms(4) that by simp
    ultimately show ?thesis using cmp_less_le_trans by fastforce
  qed (use that assms(4) in auto)
  have "takeWhile (\<lambda>e. \<not> cmp k (fst e) < 0) m = take i m"
    using assms(2,3) pre
    by (intro takeWhile_eq_take_P_nth) (auto simp: cmp_not_less)
  then show ?thesis using assms(2) by (simp add: om_upper_bound_def)
qed

end

end
