(* ===== verification/Bson.thy ===== *)
theory Bson
  imports Shard_Prelude Complex_Main "HOL-Library.Product_Lexorder"
begin

unbundle bit_operations_syntax

text \<open>
  BSON values and their order (\<open>src/mongo/bson\<close>, \<open>src/mongo/base/compare_numbers.h\<close>).

  A document is the list of its (field name, value) pairs. Integers keep their width; a double
  is its 64-bit IEEE-754 pattern and is compared through its exact value; an ObjectId is the
  96-bit big-endian number its twelve bytes spell, so that \<open>memcmp\<close> is the comparison of
  numbers; arrays carry their field names, as on disk. The 128-bit decimal type is not part of
  the model. Results of \<open>memcmp\<close> and \<open>strcmp\<close> are -1, 0 or 1.
\<close>

subsection \<open>Doubles\<close>

datatype num_val = NumNaN | NumNegInf | NumFin rat | NumPosInf

fun num_rank :: "num_val \<Rightarrow> nat \<times> rat" where
  "num_rank NumNaN = (0, 0)"
| "num_rank NumNegInf = (1, 0)"
| "num_rank (NumFin q) = (2, q)"
| "num_rank NumPosInf = (3, 0)"

lemma num_rank_inject: "num_rank x = num_rank y \<Longrightarrow> x = y"
  by (cases x; cases y) auto

instantiation num_val :: linorder
begin

definition less_eq_num_val :: "num_val \<Rightarrow> num_val \<Rightarrow> bool" where
  "less_eq_num_val x y = (num_rank x \<le> num_rank y)"

definition less_num_val :: "num_val \<Rightarrow> num_val \<Rightarrow> bool" where
  "less_num_val x y = (num_rank x < num_rank y)"

instance
  by intro_classes (auto simp: less_eq_num_val_def less_num_val_def num_rank_inject
      dest: order_antisym)

end

lemma num_val_less_simps [simp]:
  "NumFin p < NumFin q \<longleftrightarrow> p < q" "NumFin p \<le> NumFin q \<longleftrightarrow> p \<le> q"
  "NumNaN < NumFin q" "NumNegInf < NumFin q" "NumFin q < NumPosInf"
  "\<not> NumFin q < NumNaN" "\<not> NumFin q < NumNegInf" "\<not> NumPosInf < NumFin q"
  by (auto simp: less_num_val_def less_eq_num_val_def)

definition double_exp :: "64 word \<Rightarrow> nat" where
  "double_exp w = unat (drop_bit 52 w AND 0x7FF)"

definition double_frac :: "64 word \<Rightarrow> nat" where
  "double_frac w = unat (w AND 0xFFFFFFFFFFFFF)"

text \<open>The value of an IEEE-754 binary64 pattern; both zeros have the value 0.\<close>

definition double_val :: "64 word \<Rightarrow> num_val" where
  "double_val w =
     (let s = (if bit w 63 then -1 else 1 :: rat) in
      if double_exp w = 2047 then
        (if double_frac w \<noteq> 0 then NumNaN else if bit w 63 then NumNegInf else NumPosInf)
      else if double_exp w = 0 then NumFin (s * (of_nat (double_frac w) * 2 / 2 ^ 1075))
      else NumFin (s * (of_nat (2 ^ 52 + double_frac w) * 2 ^ double_exp w / 2 ^ 1075)))"

definition ieee_eq :: "num_val \<Rightarrow> num_val \<Rightarrow> bool" where
  "ieee_eq x y = (x \<noteq> NumNaN \<and> y \<noteq> NumNaN \<and> x = y)"

definition ieee_less :: "num_val \<Rightarrow> num_val \<Rightarrow> bool" where
  "ieee_less x y = (x \<noteq> NumNaN \<and> y \<noteq> NumNaN \<and> x < y)"

definition rat_trunc :: "rat \<Rightarrow> int" where
  "rat_trunc q = (if 0 \<le> q then \<lfloor>q\<rfloor> else \<lceil>q\<rceil>)"

subsection \<open>Number comparison\<close>

definition compareInts :: "32 word \<Rightarrow> 32 word \<Rightarrow> int" where
  "compareInts lhs rhs = (if lhs = rhs then 0 else if sint lhs < sint rhs then -1 else 1)"

definition compareLongs :: "64 word \<Rightarrow> 64 word \<Rightarrow> int" where
  "compareLongs lhs rhs = (if lhs = rhs then 0 else if sint lhs < sint rhs then -1 else 1)"

definition compareDoubles :: "num_val \<Rightarrow> num_val \<Rightarrow> int" where
  "compareDoubles lhs rhs =
     (if ieee_eq lhs rhs then 0
      else if ieee_less lhs rhs then -1
      else if ieee_less rhs lhs then 1
      else if lhs = NumNaN then (if rhs = NumNaN then 0 else -1)
      else 1)"

definition compareLongToDouble :: "64 word \<Rightarrow> 64 word \<Rightarrow> int" where
  "compareLongToDouble lhs rhs =
     (if double_val rhs = NumNaN then 1
      else if sint lhs \<le> 2 ^ 53 \<and> - (2 ^ 53) \<le> sint lhs
        then compareDoubles (NumFin (of_int (sint lhs))) (double_val rhs)
      else if NumFin (2 ^ 63) \<le> double_val rhs then -1
      else if double_val rhs < NumFin (- (2 ^ 63)) then 1
      else (case double_val rhs of
              NumFin q \<Rightarrow> compareLongs lhs (word_of_int (rat_trunc q))
            | _ \<Rightarrow> 0))"

definition compareDoubleToLong :: "64 word \<Rightarrow> 64 word \<Rightarrow> int" where
  "compareDoubleToLong lhs rhs = - compareLongToDouble rhs lhs"

lemma compareDoubles_cmp3: "compareDoubles x y = cmp3 x y"
  by (cases x; cases y) (auto simp: compareDoubles_def ieee_eq_def ieee_less_def cmp3_def
      less_num_val_def)

lemma compareInts_cmp3: "compareInts x y = cmp3 (sint x) (sint y)"
  by (auto simp: compareInts_def cmp3_def signed_word_eqI)

lemma compareLongs_cmp3: "compareLongs x y = cmp3 (sint x) (sint y)"
  by (auto simp: compareLongs_def cmp3_def signed_word_eqI)

text \<open>A double of magnitude at least \<open>2 ^ 53\<close> has no fractional part.\<close>

lemma double_frac_bound: "double_frac w < 2 ^ 52"
proof -
  have "w AND 0xFFFFFFFFFFFFF = take_bit 52 w"
    by (simp add: take_bit_eq_mask mask_eq_exp_minus_1)
  then have "double_frac w = take_bit 52 (unat w)"
    by (simp add: double_frac_def unsigned_take_bit_eq)
  then show ?thesis by (simp only: take_bit_nat_less_exp)
qed

lemma scaled_int_or_small:
  fixes m :: nat
  assumes "m < 2 ^ 53"
  shows "(\<exists>i. (of_nat m :: rat) * 2 ^ e / 2 ^ 1075 = of_int i) \<or>
    (of_nat m :: rat) * 2 ^ e / 2 ^ 1075 < 2 ^ 53"
proof (cases "1075 \<le> e")
  case True
  then obtain d where "e = 1075 + d" using le_Suc_ex by blast
  then have "(of_nat m :: rat) * 2 ^ e / 2 ^ 1075 = of_int (int m * 2 ^ d)"
    by (simp add: power_add)
  then show ?thesis by blast
next
  case False
  then have "(2::rat) ^ e \<le> 2 ^ 1075" by (intro power_increasing) auto
  moreover have "(of_nat m :: rat) < 2 ^ 53"
    using assms by (metis of_nat_less_iff of_nat_numeral of_nat_power)
  ultimately have "(of_nat m :: rat) * 2 ^ e < 2 ^ 53 * 2 ^ 1075"
    by (intro mult_less_le_imp_less) auto
  then show ?thesis by (simp add: divide_less_eq)
qed

lemma double_val_large_int:
  assumes "double_val w = NumFin q" "2 ^ 53 \<le> \<bar>q\<bar>"
  shows "\<exists>i. q = of_int i"
proof -
  obtain m e :: nat and s :: rat where q: "q = s * (of_nat m * 2 ^ e / 2 ^ 1075)"
    and m: "m < 2 ^ 53" and s: "s = 1 \<or> s = -1"
  proof (cases "double_exp w = 0")
    case True
    with assms(1) have "q = (if bit w 63 then -1 else 1) *
        (of_nat (double_frac w) * 2 ^ 1 / 2 ^ 1075)"
      by (simp add: double_val_def Let_def split: if_splits)
    then show thesis by (rule that) (use double_frac_bound [of w] in auto)
  next
    case False
    with assms(1) have "q = (if bit w 63 then -1 else 1) *
        (of_nat (2 ^ 52 + double_frac w) * 2 ^ double_exp w / 2 ^ 1075)"
      by (auto simp: double_val_def Let_def split: if_splits)
    then show thesis by (rule that) (use double_frac_bound [of w] in auto)
  qed
  define x :: rat where "x = of_nat m * 2 ^ e / 2 ^ 1075"
  have "0 \<le> x" unfolding x_def by (intro divide_nonneg_nonneg mult_nonneg_nonneg) auto
  then have "\<bar>q\<bar> = of_nat m * 2 ^ e / 2 ^ 1075"
    using q s unfolding x_def [symmetric] by auto
  with assms(2) scaled_int_or_small [OF m, of e] obtain i :: int
    where "\<bar>q\<bar> = of_int i" by fastforce
  then have "q = of_int (if 0 \<le> q then i else - i)" by (auto split: if_splits)
  then show ?thesis by blast
qed

lemma cmp3_NumFin [simp]: "cmp3 (NumFin p) (NumFin q) = cmp3 p q"
  by (simp add: cmp3_def)

lemma cmp3_of_int: "cmp3 (of_int i :: rat) (of_int j) = cmp3 i j"
  by (simp add: cmp3_def)

lemma sint_word_of_int_eq_self_64:
  "- (2 ^ 63) \<le> i \<Longrightarrow> i < 2 ^ 63 \<Longrightarrow> sint (word_of_int i :: 64 word) = i"
  by (simp add: signed_of_int signed_take_bit_int_eq_self_iff)

lemma compareLongToDouble_cmp3:
  "compareLongToDouble l d = cmp3 (NumFin (of_int (sint l))) (double_val d)"
proof (cases "double_val d")
  case (NumFin q)
  consider (small) "sint l \<le> 2 ^ 53 \<and> - (2 ^ 53) \<le> sint l"
    | (big) "\<not> (sint l \<le> 2 ^ 53 \<and> - (2 ^ 53) \<le> sint l)" by blast
  then show ?thesis
  proof cases
    case small
    then show ?thesis using NumFin by (simp add: compareLongToDouble_def compareDoubles_cmp3)
  next
    case big
    have r: "- (2 ^ 63) \<le> sint l" "sint l < 2 ^ 63"
      using sint_greater_eq [of l] sint_less [of l] by auto
    then have rr: "- (2 ^ 63) \<le> (of_int (sint l) :: rat)" "(of_int (sint l) :: rat) < 2 ^ 63"
      by (metis of_int_le_iff of_int_minus of_int_numeral of_int_power,
          metis of_int_less_iff of_int_numeral of_int_power)
    show ?thesis
    proof (cases "- (2 ^ 63) \<le> q \<and> q < 2 ^ 63")
      case False
      then show ?thesis using NumFin big rr
        by (auto simp: compareLongToDouble_def cmp3_def)
    next
      case True
      have fit: "sint (word_of_int (rat_trunc q) :: 64 word) = rat_trunc q"
      proof -
        have "- (2 ^ 63) \<le> rat_trunc q" "rat_trunc q < 2 ^ 63"
          using True by (auto simp: rat_trunc_def le_floor_iff floor_less_iff le_ceiling_iff
              ceiling_less_iff)
        then show ?thesis by (simp add: sint_word_of_int_eq_self_64)
      qed
      have "cmp3 (sint l) (rat_trunc q) = cmp3 (of_int (sint l)) q"
      proof (cases "2 ^ 53 \<le> \<bar>q\<bar>")
        case True
        then obtain i where "q = of_int i" using double_val_large_int NumFin by blast
        then show ?thesis
          by (simp add: rat_trunc_def cmp3_of_int del: of_int_sint)
      next
        case False
        then have qb: "q < 2 ^ 53" "- (2 ^ 53) < q" by auto
        then have "rat_trunc q \<le> 2 ^ 53" "- (2 ^ 53) \<le> rat_trunc q"
          by (auto simp: rat_trunc_def le_floor_iff floor_le_iff le_ceiling_iff ceiling_le_iff)
        moreover have "2 ^ 53 < sint l \<and> (2 ^ 53 :: rat) < of_int (sint l) \<or>
          sint l < - (2 ^ 53) \<and> of_int (sint l) < - (2 ^ 53 :: rat)"
          using big by (metis not_le of_int_less_iff of_int_minus of_int_numeral of_int_power)
        ultimately show ?thesis using qb by (auto simp: cmp3_def simp del: of_int_sint)
      qed
      then show ?thesis using NumFin big True fit
        by (auto simp: compareLongToDouble_def compareLongs_cmp3 compareDoubles_cmp3
            simp del: of_int_sint)
    qed
  qed
qed (auto simp: compareLongToDouble_def compareDoubles_cmp3 cmp3_def less_num_val_def
    less_eq_num_val_def)

subsection \<open>Values and documents\<close>

type_synonym oid = "96 word"

datatype bson_value =
    MinKey
  | NumberDouble "64 word"
  | String string
  | Object "(string \<times> bson_value) list"
  | Array "(string \<times> bson_value) list"
  | BinData char string
  | Undefined
  | JstOID oid
  | Bool bool
  | Date "64 word"
  | JstNULL
  | RegEx string string
  | DBRef string oid
  | Code string
  | Symbol string
  | CodeWScope string "(string \<times> bson_value) list"
  | NumberInt "32 word"
  | Timestamp "64 word"
  | NumberLong "64 word"
  | MaxKey

type_synonym bson_element = "string \<times> bson_value"
type_synonym bson_obj = "bson_element list"

datatype bson_type =
    TMinKey | TNumberDouble | TString | TObject | TArray | TBinData | TUndefined | TjstOID
  | TBool | TDate | TjstNULL | TRegEx | TDBRef | TCode | TSymbol | TCodeWScope | TNumberInt
  | TbsonTimestamp | TNumberLong | TMaxKey

primrec bson_type_of :: "bson_value \<Rightarrow> bson_type" where
  "bson_type_of MinKey = TMinKey"
| "bson_type_of (NumberDouble d) = TNumberDouble"
| "bson_type_of (String s) = TString"
| "bson_type_of (Object o1) = TObject"
| "bson_type_of (Array o1) = TArray"
| "bson_type_of (BinData t s) = TBinData"
| "bson_type_of Undefined = TUndefined"
| "bson_type_of (JstOID i) = TjstOID"
| "bson_type_of (Bool b) = TBool"
| "bson_type_of (Date d) = TDate"
| "bson_type_of JstNULL = TjstNULL"
| "bson_type_of (RegEx r f) = TRegEx"
| "bson_type_of (DBRef s i) = TDBRef"
| "bson_type_of (Code s) = TCode"
| "bson_type_of (Symbol s) = TSymbol"
| "bson_type_of (CodeWScope s o1) = TCodeWScope"
| "bson_type_of (NumberInt i) = TNumberInt"
| "bson_type_of (Timestamp t) = TbsonTimestamp"
| "bson_type_of (NumberLong i) = TNumberLong"
| "bson_type_of MaxKey = TMaxKey"

primrec canonicalizeBSONType :: "bson_type \<Rightarrow> int" where
  "canonicalizeBSONType TMinKey = -1"
| "canonicalizeBSONType TMaxKey = 127"
| "canonicalizeBSONType TUndefined = 0"
| "canonicalizeBSONType TjstNULL = 5"
| "canonicalizeBSONType TNumberDouble = 10"
| "canonicalizeBSONType TNumberInt = 10"
| "canonicalizeBSONType TNumberLong = 10"
| "canonicalizeBSONType TString = 15"
| "canonicalizeBSONType TSymbol = 15"
| "canonicalizeBSONType TObject = 20"
| "canonicalizeBSONType TArray = 25"
| "canonicalizeBSONType TBinData = 30"
| "canonicalizeBSONType TjstOID = 35"
| "canonicalizeBSONType TBool = 40"
| "canonicalizeBSONType TDate = 45"
| "canonicalizeBSONType TbsonTimestamp = 47"
| "canonicalizeBSONType TRegEx = 50"
| "canonicalizeBSONType TDBRef = 55"
| "canonicalizeBSONType TCode = 60"
| "canonicalizeBSONType TCodeWScope = 65"

abbreviation canonicalType :: "bson_value \<Rightarrow> int" where
  "canonicalType v \<equiv> canonicalizeBSONType (bson_type_of v)"

subsection \<open>String comparison\<close>

text \<open>\<open>memcmp\<close> on the first \<open>n\<close> bytes, \<open>strcmp\<close> on strings without a zero byte.\<close>

fun memcmp :: "nat \<Rightarrow> string \<Rightarrow> string \<Rightarrow> int" where
  "memcmp (Suc n) (x # xs) (y # ys) = (if x = y then memcmp n xs ys else cmp3 x y)"
| "memcmp _ _ _ = 0"

definition strcmp :: "string \<Rightarrow> string \<Rightarrow> int" where
  "strcmp s t = cmp3 s t"

definition stringdata_compare :: "string \<Rightarrow> string \<Rightarrow> int" where
  "stringdata_compare s t =
     (let res = memcmp (min (length s) (length t)) s t
      in if res \<noteq> 0 then (if res > 0 then 1 else -1)
         else if length s = length t then 0
         else if length s > length t then 1 else -1)"

text \<open>The stored bytes of a string value end in a zero byte, which \<open>valuestrsize\<close> counts.\<close>

abbreviation valuestr :: "string \<Rightarrow> string" where
  "valuestr s \<equiv> s @ [CHR 0x00]"

definition compareElementStringValues :: "string \<Rightarrow> string \<Rightarrow> int" where
  "compareElementStringValues leftStr rightStr =
     (let lsz = length (valuestr leftStr); rsz = length (valuestr rightStr);
          res = memcmp (min lsz rsz) (valuestr leftStr) (valuestr rightStr)
      in if res \<noteq> 0 then res else int lsz - int rsz)"

lemma memcmp_min_cmp3:
  "sgn (if memcmp (min (length s) (length t)) s t \<noteq> 0
        then memcmp (min (length s) (length t)) s t
        else int (length s) - int (length t)) = cmp3 s t"
proof (induction s arbitrary: t)
  case Nil
  then show ?case by (cases t) (auto simp: cmp3_def)
next
  case (Cons x s)
  show ?case
  proof (cases t)
    case (Cons y t')
    then show ?thesis using Cons.IH [of t'] by (auto simp: cmp3_def)
  qed (simp add: cmp3_def)
qed

lemma stringdata_compare_cmp3: "stringdata_compare s t = cmp3 s t"
  using memcmp_min_cmp3 [of s t]
  by (auto simp: stringdata_compare_def Let_def sgn_if split: if_splits)

lemma append_zero_less: "s @ [CHR 0x00] < t @ [CHR 0x00] \<longleftrightarrow> s < t"
proof (induction s arbitrary: t)
  case Nil
  show ?case
  proof (cases t)
    case (Cons y t')
    have "CHR 0x00 < y \<or> CHR 0x00 = y"
      using le_neq_trans [of "CHR 0x00" y] by (auto simp: less_eq_char_def)
    with Cons show ?thesis by (cases t') auto
  qed simp
next
  case (Cons x s)
  then show ?case by (cases t) (auto simp: less_char_def)
qed

lemma compareElementStringValues_cmp3:
  "sgn (compareElementStringValues s t) = cmp3 s t"
proof -
  have "cmp3 (valuestr s) (valuestr t) = cmp3 s t"
    by (simp add: cmp3_def append_zero_less)
  then show ?thesis
    using memcmp_min_cmp3 [of "valuestr s" "valuestr t"]
    by (simp only: compareElementStringValues_def Let_def)
qed

subsection \<open>Comparison of elements and documents\<close>

text \<open>
  \<open>compareElements\<close> is called on elements of the same canonical type only
  (\<open>BSONElement::woCompare\<close> returns before it otherwise); on the combinations where the C++
  code asserts, the model returns 0. The comparison of nested documents always considers field
  names and has no ordering pattern, so the two recursive functions do not carry the rules.
\<close>

function compareElements :: "bson_value \<Rightarrow> bson_value \<Rightarrow> int"
  and compareNested :: "bson_obj \<Rightarrow> bson_obj \<Rightarrow> int"
where
  "compareElements l r =
     (case l of
        Undefined \<Rightarrow> cmp3 (canonicalType l) (canonicalType r)
      | JstNULL \<Rightarrow> cmp3 (canonicalType l) (canonicalType r)
      | MaxKey \<Rightarrow> cmp3 (canonicalType l) (canonicalType r)
      | MinKey \<Rightarrow> cmp3 (canonicalType l) (canonicalType r)
      | Bool a \<Rightarrow> (case r of Bool b \<Rightarrow> of_bool a - of_bool b | _ \<Rightarrow> 0)
      | Timestamp a \<Rightarrow> (case r of
            Timestamp b \<Rightarrow> (if a < b then -1 else if a = b then 0 else 1) | _ \<Rightarrow> 0)
      | Date a \<Rightarrow> (case r of
            Date b \<Rightarrow> (if sint a < sint b then -1 else if a = b then 0 else 1) | _ \<Rightarrow> 0)
      | NumberInt a \<Rightarrow> (case r of
            NumberInt b \<Rightarrow> compareInts a b
          | NumberLong b \<Rightarrow> compareLongs (scast a) b
          | NumberDouble b \<Rightarrow> compareDoubles (NumFin (of_int (sint a))) (double_val b)
          | _ \<Rightarrow> 0)
      | NumberLong a \<Rightarrow> (case r of
            NumberLong b \<Rightarrow> compareLongs a b
          | NumberInt b \<Rightarrow> compareLongs a (scast b)
          | NumberDouble b \<Rightarrow> compareLongToDouble a b
          | _ \<Rightarrow> 0)
      | NumberDouble a \<Rightarrow> (case r of
            NumberDouble b \<Rightarrow> compareDoubles (double_val a) (double_val b)
          | NumberInt b \<Rightarrow> compareDoubles (double_val a) (NumFin (of_int (sint b)))
          | NumberLong b \<Rightarrow> compareDoubleToLong a b
          | _ \<Rightarrow> 0)
      | JstOID a \<Rightarrow> (case r of JstOID b \<Rightarrow> cmp3 a b | _ \<Rightarrow> 0)
      | Code a \<Rightarrow> (case r of Code b \<Rightarrow> compareElementStringValues a b | _ \<Rightarrow> 0)
      | Symbol a \<Rightarrow> (case r of
            Symbol b \<Rightarrow> compareElementStringValues a b
          | String b \<Rightarrow> compareElementStringValues a b
          | _ \<Rightarrow> 0)
      | String a \<Rightarrow> (case r of
            Symbol b \<Rightarrow> compareElementStringValues a b
          | String b \<Rightarrow> compareElementStringValues a b
          | _ \<Rightarrow> 0)
      | Object a \<Rightarrow> (case r of Object b \<Rightarrow> compareNested a b | _ \<Rightarrow> 0)
      | Array a \<Rightarrow> (case r of Array b \<Rightarrow> compareNested a b | _ \<Rightarrow> 0)
      | DBRef a i \<Rightarrow> (case r of
            DBRef b j \<Rightarrow>
              (if length a \<noteq> length b then int (length a) - int (length b)
               else let res = memcmp (Suc (length a)) (valuestr a) (valuestr b)
                    in if res \<noteq> 0 then res else cmp3 i j)
          | _ \<Rightarrow> 0)
      | BinData t a \<Rightarrow> (case r of
            BinData u b \<Rightarrow>
              (if length a \<noteq> length b then int (length a) - int (length b)
               else memcmp (length a + 1) (t # a) (u # b))
          | _ \<Rightarrow> 0)
      | RegEx a f \<Rightarrow> (case r of
            RegEx b g \<Rightarrow> (let c = strcmp a b in if c \<noteq> 0 then c else strcmp f g)
          | _ \<Rightarrow> 0)
      | CodeWScope a x \<Rightarrow> (case r of
            CodeWScope b y \<Rightarrow>
              (let c = stringdata_compare a b in if c \<noteq> 0 then c else compareNested x y)
          | _ \<Rightarrow> 0))"
| "compareNested firstObj secondObj =
     (case firstObj of
        [] \<Rightarrow> (case secondObj of [] \<Rightarrow> 0 | _ # _ \<Rightarrow> -1)
      | (n, l) # ls \<Rightarrow> (case secondObj of
            [] \<Rightarrow> 1
          | (m, r) # rs \<Rightarrow>
              (let diff = canonicalType l - canonicalType r;
                   name = stringdata_compare n m;
                   x = (if diff \<noteq> 0 then diff else if name \<noteq> 0 then name
                        else compareElements l r)
               in if x \<noteq> 0 then x else compareNested ls rs)))"
  by pat_completeness auto
termination
  by (relation "measure (\<lambda>x. case x of Inl (l, r) \<Rightarrow> size l
        | Inr (a, b) \<Rightarrow> size_list (size_prod (\<lambda>_. 0) size) a)")
     (auto)

declare compareElements.simps [simp del] compareNested.simps [simp del]

text \<open>\<open>number() < 0\<close> of an element; 0 when it is not a number.\<close>

definition number_is_negative :: "bson_value \<Rightarrow> bool" where
  "number_is_negative v =
     (case v of
        NumberDouble d \<Rightarrow> ieee_less (double_val d) (NumFin 0)
      | NumberInt i \<Rightarrow> sint i < 0
      | NumberLong i \<Rightarrow> sint i < 0
      | _ \<Rightarrow> False)"

definition woCompareElement :: "bool \<Rightarrow> bson_element \<Rightarrow> bson_element \<Rightarrow> int" where
  "woCompareElement considerFieldName l r =
     (let diff = canonicalType (snd l) - canonicalType (snd r)
      in if bson_type_of (snd l) \<noteq> bson_type_of (snd r) \<and> diff \<noteq> 0 then diff
         else let name = stringdata_compare (fst l) (fst r)
              in if considerFieldName \<and> name \<noteq> 0 then name
                 else compareElements (snd l) (snd r))"

fun compareObjects :: "bool \<Rightarrow> bson_obj \<Rightarrow> bson_obj \<Rightarrow> bson_obj \<Rightarrow> int" where
  "compareObjects considerFieldName idxKey [] [] = 0"
| "compareObjects considerFieldName idxKey [] (_ # _) = -1"
| "compareObjects considerFieldName idxKey (_ # _) [] = 1"
| "compareObjects considerFieldName idxKey (l # ls) (r # rs) =
     (let x = woCompareElement considerFieldName l r;
          y = (case idxKey of [] \<Rightarrow> x
               | k # _ \<Rightarrow> if number_is_negative (snd k) then - x else x)
      in if y \<noteq> 0 then y else compareObjects considerFieldName (tl idxKey) ls rs)"

definition woCompare :: "bson_obj \<Rightarrow> bson_obj \<Rightarrow> int" where
  "woCompare l r = compareObjects True [] l r"

subsection \<open>The order is a total preorder\<close>

lemma compareNested_simps [simp]:
  "compareNested [] [] = 0"
  "compareNested [] (q # qs) = -1"
  "compareNested (p # ps) [] = 1"
  "compareNested (p # ps) (q # qs) =
     (if woCompareElement True p q \<noteq> 0 then woCompareElement True p q
      else compareNested ps qs)"
  apply (subst compareNested.simps, simp)
  apply (subst compareNested.simps, simp)
  apply (subst compareNested.simps, simp split: prod.splits)
  apply (subst compareNested.simps)
  apply (auto simp add: woCompareElement_def Let_def split: prod.splits)
  done
lemma compareObjects_no_ordering: "compareObjects True [] l r = compareNested l r"
  by (induction "True" "[] :: bson_obj" l r rule: compareObjects.induct) auto

lemma woCompare_nested: "woCompare l r = compareNested l r"
  by (simp add: woCompare_def compareObjects_no_ordering)

lemma canonicalType_cases:
  "canonicalType v = -1 \<longleftrightarrow> v = MinKey"
  "canonicalType v = 127 \<longleftrightarrow> v = MaxKey"
  "canonicalType v = 0 \<longleftrightarrow> v = Undefined"
  "canonicalType v = 5 \<longleftrightarrow> v = JstNULL"
  "canonicalType v = 10 \<longleftrightarrow>
     (\<exists>i. v = NumberInt i) \<or> (\<exists>i. v = NumberLong i) \<or> (\<exists>d. v = NumberDouble d)"
  "canonicalType v = 15 \<longleftrightarrow> (\<exists>s. v = String s) \<or> (\<exists>s. v = Symbol s)"
  "canonicalType v = 20 \<longleftrightarrow> (\<exists>a. v = Object a)"
  "canonicalType v = 25 \<longleftrightarrow> (\<exists>a. v = Array a)"
  "canonicalType v = 30 \<longleftrightarrow> (\<exists>t a. v = BinData t a)"
  "canonicalType v = 35 \<longleftrightarrow> (\<exists>i. v = JstOID i)"
  "canonicalType v = 40 \<longleftrightarrow> (\<exists>b. v = Bool b)"
  "canonicalType v = 45 \<longleftrightarrow> (\<exists>d. v = Date d)"
  "canonicalType v = 47 \<longleftrightarrow> (\<exists>t. v = Timestamp t)"
  "canonicalType v = 50 \<longleftrightarrow> (\<exists>r f. v = RegEx r f)"
  "canonicalType v = 55 \<longleftrightarrow> (\<exists>r i. v = DBRef r i)"
  "canonicalType v = 60 \<longleftrightarrow> (\<exists>c. v = Code c)"
  "canonicalType v = 65 \<longleftrightarrow> (\<exists>c x. v = CodeWScope c x)"
  by (cases v; auto)+

text \<open>
  The induction over values carries a strong form of transitivity: below-or-equal twice gives
  below-or-equal, and equality at the ends forces equality in between.
\<close>

definition cmp_good :: "('a \<Rightarrow> 'a \<Rightarrow> int) \<Rightarrow> ('a \<Rightarrow> 'a \<Rightarrow> bool) \<Rightarrow> 'a \<Rightarrow> bool" where
  "cmp_good cmp rel l \<longleftrightarrow>
     (\<forall>r. rel l r \<longrightarrow> sgn (cmp r l) = - sgn (cmp l r)) \<and>
     (\<forall>m r. rel l m \<longrightarrow> rel m r \<longrightarrow> cmp l m \<le> 0 \<longrightarrow> cmp m r \<le> 0 \<longrightarrow>
        cmp l r \<le> 0 \<and> (cmp l r = 0 \<longrightarrow> cmp l m = 0 \<and> cmp m r = 0))"

lemma cmp_goodI:
  assumes "\<And>r. rel l r \<Longrightarrow> sgn (cmp r l) = - sgn (cmp l r)"
    and "\<And>m r. rel l m \<Longrightarrow> rel m r \<Longrightarrow> cmp l m \<le> 0 \<Longrightarrow> cmp m r \<le> 0 \<Longrightarrow>
        cmp l r \<le> 0 \<and> (cmp l r = 0 \<longrightarrow> cmp l m = 0 \<and> cmp m r = 0)"
  shows "cmp_good cmp rel l"
  using assms by (simp add: cmp_good_def)

lemma cmp_good_flip: "cmp_good cmp rel l \<Longrightarrow> rel l r \<Longrightarrow> sgn (cmp r l) = - sgn (cmp l r)"
  by (simp add: cmp_good_def)

lemma cmp_good_trans:
  "cmp_good cmp rel l \<Longrightarrow> rel l m \<Longrightarrow> rel m r \<Longrightarrow> cmp l m \<le> 0 \<Longrightarrow> cmp m r \<le> 0 \<Longrightarrow>
     cmp l r \<le> 0 \<and> (cmp l r = 0 \<longrightarrow> cmp l m = 0 \<and> cmp m r = 0)"
  unfolding cmp_good_def by blast

abbreviation same_type :: "bson_value \<Rightarrow> bson_value \<Rightarrow> bool" where
  "same_type l r \<equiv> canonicalType l = canonicalType r"

lemma cmp_good_by_key:
  fixes f :: "'a \<Rightarrow> 'k::linorder"
  assumes key: "\<And>x y. rel l x \<Longrightarrow> rel l y \<Longrightarrow> sgn (cmp x y) = cmp3 (f x) (f y)"
    and refl: "rel l l" and tr: "\<And>m r. rel l m \<Longrightarrow> rel m r \<Longrightarrow> rel l r"
  shows "cmp_good cmp rel l"
proof -
  have sg: "(cmp x y \<le> 0) = (f x \<le> f y)" "(cmp x y = 0) = (f x = f y)"
    if "rel l x" "rel l y" for x y
    using key [OF that] by (auto simp: sgn_if cmp3_def split: if_splits)
  have "sgn (cmp r l) = - sgn (cmp l r)" if "rel l r" for r
    using key [OF refl that] key [OF that refl] cmp3_swap [of "f r" "f l"] by simp
  moreover have "cmp l r \<le> 0 \<and> (cmp l r = 0 \<longrightarrow> cmp l m = 0 \<and> cmp m r = 0)"
    if "rel l m" "rel m r" "cmp l m \<le> 0" "cmp m r \<le> 0" for m r
    using that sg refl tr [OF that(1,2)] by fastforce
  ultimately show ?thesis by (intro cmp_goodI)
qed

definition num_key :: "bson_value \<Rightarrow> num_val" where
  "num_key v =
     (case v of
        NumberInt i \<Rightarrow> NumFin (of_int (sint i))
      | NumberLong i \<Rightarrow> NumFin (of_int (sint i))
      | NumberDouble d \<Rightarrow> double_val d
      | _ \<Rightarrow> NumNaN)"

lemma sint_scast_32_64: "sint (scast (i :: 32 word) :: 64 word) = sint i"
  by (simp add: sint_up_scast is_up)

lemma compareElements_number:
  assumes "canonicalType x = 10" "canonicalType y = 10"
  shows "compareElements x y = cmp3 (num_key x) (num_key y)"
proof -
  have [simp]: "cmp3 (double_val d) (NumFin (of_int (sint i))) =
      - cmp3 (NumFin (of_int (sint i))) (double_val d)" for d and i :: "64 word"
    by (rule cmp3_swap)
  consider (i) i where "x = NumberInt i" | (l) i where "x = NumberLong i" 
    | (d) d where "x = NumberDouble d" using assms(1) by (auto simp: canonicalType_cases)
  note x = this
  consider (i) i where "y = NumberInt i" | (l) i where "y = NumberLong i" 
    | (d) d where "y = NumberDouble d" using assms(2) by (auto simp: canonicalType_cases)
  note y = this
  show ?thesis
    by (cases rule: x; cases rule: y)
      (simp_all add: compareElements.simps num_key_def compareInts_cmp3
      compareLongs_cmp3 compareDoubles_cmp3 compareLongToDouble_cmp3 compareDoubleToLong_def
      sint_scast_32_64 cmp3_of_int del: of_int_sint)
qed
lemma memcmp_same_length: "length s = length t \<Longrightarrow> memcmp (length s) s t = cmp3 s t"
  by (induction s t rule: list_induct2) (auto simp: cmp3_def)

lemma good_class:
  fixes f :: "bson_value \<Rightarrow> 'k::linorder"
  assumes "\<And>x y. canonicalType x = c \<Longrightarrow> canonicalType y = c \<Longrightarrow>
      sgn (compareElements x y) = cmp3 (f x) (f y)" "canonicalType l = c"
  shows "cmp_good compareElements same_type l"
  using assms by (intro cmp_good_by_key [where f = f]) auto

lemma good_number: "canonicalType l = 10 \<Longrightarrow> cmp_good compareElements same_type l"
  by (rule good_class [where f = num_key]) (simp_all add: compareElements_number)

lemma good_singleton:
  "canonicalType l = c \<Longrightarrow> c \<in> {-1, 0, 5, 127} \<Longrightarrow> cmp_good compareElements same_type l"
  by (rule good_class [where f = canonicalType and c = c])
    (auto simp: compareElements.simps canonicalType_cases)

definition string_repr :: "bson_value \<Rightarrow> string" where
  "string_repr v = (case v of String s \<Rightarrow> s | Symbol s \<Rightarrow> s | Code s \<Rightarrow> s | _ \<Rightarrow> [])"

lemma good_string:
  "canonicalType l = c \<Longrightarrow> c = 15 \<or> c = 60 \<Longrightarrow> cmp_good compareElements same_type l"
  by (rule good_class [where f = string_repr and c = c])
    (auto simp: compareElements.simps canonicalType_cases string_repr_def
      compareElementStringValues_cmp3)

lemma good_oid: "cmp_good compareElements same_type (JstOID i)"
  by (rule good_class [where c = 35 and f = "\<lambda>v. case v of JstOID i \<Rightarrow> i | _ \<Rightarrow> 0"])
    (auto simp: compareElements.simps canonicalType_cases)

lemma good_bool: "cmp_good compareElements same_type (Bool b)"
  by (rule good_class [where c = 40 and f = "\<lambda>v. case v of Bool b \<Rightarrow> b | _ \<Rightarrow> False"])
    (auto simp: compareElements.simps canonicalType_cases cmp3_def)

lemma good_date: "cmp_good compareElements same_type (Date d)"
  by (rule good_class [where c = 45 and f = "\<lambda>v. case v of Date b \<Rightarrow> sint b | _ \<Rightarrow> 0"])
    (auto simp: compareElements.simps canonicalType_cases cmp3_def signed_word_eqI)

lemma good_timestamp: "cmp_good compareElements same_type (Timestamp d)"
  by (rule good_class [where c = 47 and f = "\<lambda>v. case v of Timestamp b \<Rightarrow> b | _ \<Rightarrow> 0"])
    (auto simp: compareElements.simps canonicalType_cases cmp3_def)

lemma good_regex: "cmp_good compareElements same_type (RegEx r g)"
  by (rule good_class [where c = 50 and f = "\<lambda>v. case v of RegEx r f \<Rightarrow> (r, f) | _ \<Rightarrow> ([], [])"])
    (auto simp: compareElements.simps canonicalType_cases cmp3_def strcmp_def Let_def)

lemma good_bindata: "cmp_good compareElements same_type (BinData t a)"
proof (rule good_class [where c = 30 and
      f = "\<lambda>v. case v of BinData t a \<Rightarrow> (length a, t # a) | _ \<Rightarrow> (0, [])"])
  fix x y assume "canonicalType x = 30" "canonicalType y = 30"
  then obtain t a u b where "x = BinData t a" "y = BinData u b"
    by (auto simp: canonicalType_cases)
  then show "sgn (compareElements x y) =
      cmp3 (case x of BinData t a \<Rightarrow> (length a, t # a) | _ \<Rightarrow> (0, []))
        (case y of BinData t a \<Rightarrow> (length a, t # a) | _ \<Rightarrow> (0, []))"
    using memcmp_same_length [of "t # a" "u # b"]
    by (auto simp: compareElements.simps cmp3_def simp del: memcmp.simps)
qed simp

lemma good_dbref: "cmp_good compareElements same_type (DBRef t i)"
proof (rule good_class [where c = 55 and
      f = "\<lambda>v. case v of DBRef s i \<Rightarrow> (length s, s, i) | _ \<Rightarrow> (0, [], 0)"])
  fix x y assume "canonicalType x = 55" "canonicalType y = 55"
  then obtain s i t j where "x = DBRef s i" "y = DBRef t j"
    by (auto simp: canonicalType_cases)
  then show "sgn (compareElements x y) =
      cmp3 (case x of DBRef s i \<Rightarrow> (length s, s, i) | _ \<Rightarrow> (0, [], 0))
        (case y of DBRef s i \<Rightarrow> (length s, s, i) | _ \<Rightarrow> (0, [], 0))"
    using memcmp_same_length [of "valuestr s" "valuestr t"]
    by (auto simp: compareElements.simps cmp3_def append_zero_less Let_def simp del: memcmp.simps)
qed simp


lemma woCompareElement_lex:
  "woCompareElement True p q =
     (if canonicalType (snd p) \<noteq> canonicalType (snd q)
      then canonicalType (snd p) - canonicalType (snd q)
      else if fst p \<noteq> fst q then cmp3 (fst p) (fst q)
      else compareElements (snd p) (snd q))"
  by (auto simp: woCompareElement_def stringdata_compare_cmp3 Let_def)

lemma good_element:
  assumes "cmp_good compareElements same_type (snd p)"
  shows "cmp_good (woCompareElement True) (\<lambda>_ _. True) p"
proof -
  have anti: "sgn (woCompareElement True q p) = - sgn (woCompareElement True p q)" for q
  proof (cases "same_type (snd p) (snd q) \<and> fst p = fst q")
    case True
    then show ?thesis using cmp_good_flip [OF assms, of "snd q"]
      by (simp add: woCompareElement_lex)
  next
    case False
    then show ?thesis using cmp3_swap [of "fst q" "fst p"]
      by (auto simp: woCompareElement_lex sgn_if)
  qed
  have "woCompareElement True p r \<le> 0 \<and> (woCompareElement True p r = 0 \<longrightarrow>
      woCompareElement True p q = 0 \<and> woCompareElement True q r = 0)"
    if pq: "woCompareElement True p q \<le> 0" and qr: "woCompareElement True q r \<le> 0" for q r
  proof -
    have ct: "canonicalType (snd p) \<le> canonicalType (snd q)"
      "canonicalType (snd q) \<le> canonicalType (snd r)"
      using pq qr by (auto simp: woCompareElement_lex split: if_splits)
    show ?thesis
    proof (cases "same_type (snd p) (snd r)")
      case False
      then show ?thesis using ct by (auto simp: woCompareElement_lex)
    next
      case True
      with ct have eq: "same_type (snd p) (snd q)" "same_type (snd q) (snd r)" by auto
      then have nm: "fst p \<le> fst q" "fst q \<le> fst r"
        using pq qr by (auto simp: woCompareElement_lex split: if_splits)
      show ?thesis
      proof (cases "fst p = fst r")
        case False
        then show ?thesis using nm True by (auto simp: woCompareElement_lex)
      next
        case True
        with nm have "fst p = fst q" "fst q = fst r" by auto
        then show ?thesis using cmp_good_trans [OF assms eq] eq pq qr
          by (simp add: woCompareElement_lex)
      qed
    qed
  qed
  note tr = this
  show ?thesis by (rule cmp_goodI) (rule anti, rule tr)
qed

lemma good_nested:
  assumes "\<And>p. p \<in> set ps \<Longrightarrow> cmp_good (woCompareElement True) (\<lambda>_ _. True) p"
  shows "cmp_good compareNested (\<lambda>_ _. True) ps"
  using assms
proof (induction ps)
  case Nil
  have "sgn (compareNested r []) = - sgn (compareNested [] r)" for r
    by (cases r) auto
  moreover have "compareNested [] r \<le> 0 \<and> (compareNested [] r = 0 \<longrightarrow>
    compareNested [] m = 0 \<and> compareNested m r = 0)"
    if "compareNested [] m \<le> 0" "compareNested m r \<le> 0" for m r
    using that by (cases m; cases r) auto
  ultimately show ?case by (intro cmp_goodI)
next
  case (Cons p ps)
  have gp: "cmp_good (woCompareElement True) (\<lambda>_ _. True) p"
    and gps: "cmp_good compareNested (\<lambda>_ _. True) ps"
    using Cons by auto
  have pflip: "sgn (woCompareElement True q p) = - sgn (woCompareElement True p q)"
    and psflip: "sgn (compareNested qs ps) = - sgn (compareNested ps qs)" for q qs
    using cmp_good_flip [OF gp] cmp_good_flip [OF gps] by simp_all
  have anti: "sgn (compareNested r (p # ps)) = - sgn (compareNested (p # ps) r)" for r
  proof (cases r)
    case (Cons q qs)
    then show ?thesis using pflip [of q] psflip [of qs] by (auto simp: sgn_if split: if_splits)
  qed simp
  have "compareNested (p # ps) r \<le> 0 \<and> (compareNested (p # ps) r = 0 \<longrightarrow>
      compareNested (p # ps) m = 0 \<and> compareNested m r = 0)"
    if mr: "compareNested (p # ps) m \<le> 0" "compareNested m r \<le> 0" for m r
  proof -
    obtain q qs where m: "m = q # qs" using mr(1) by (cases m) auto
    obtain u us where r: "r = u # us" using mr(2) m by (cases r) auto
    have heads: "woCompareElement True p q \<le> 0" "woCompareElement True q u \<le> 0"
      using mr m r by (auto split: if_splits)
    then have pu: "woCompareElement True p u \<le> 0"
      "woCompareElement True p u = 0 \<Longrightarrow>
        woCompareElement True p q = 0 \<and> woCompareElement True q u = 0"
      using cmp_good_trans [OF gp, of q u] by simp_all
    show ?thesis
    proof (cases "woCompareElement True p u = 0")
      case True
      with pu(2) have "woCompareElement True p q = 0" "woCompareElement True q u = 0" by auto
      then show ?thesis using True cmp_good_trans [OF gps, of qs us] mr m r by simp
    next
      case False
      then show ?thesis using pu(1) r by auto
    qed
  qed
  note tr = this
  show ?case by (rule cmp_goodI) (rule anti, rule tr)
qed

lemma good_object:
  assumes "cmp_good compareNested (\<lambda>_ _. True) a"
  shows "cmp_good compareElements same_type (Object a)"
proof (rule cmp_goodI)
  fix r assume "same_type (Object a) r"
  then obtain b where "r = Object b" using canonicalType_cases(7) [of r] by auto
  then show "sgn (compareElements r (Object a)) = - sgn (compareElements (Object a) r)"
    using cmp_good_flip [OF assms, of b] by (simp add: compareElements.simps)
next
  fix m r assume "same_type (Object a) m" "same_type m r" and
    le: "compareElements (Object a) m \<le> 0" "compareElements m r \<le> 0"
  then obtain b c where "m = Object b" "r = Object c"
    using canonicalType_cases(7) [of m] canonicalType_cases(7) [of r] by auto
  with le show "compareElements (Object a) r \<le> 0 \<and> (compareElements (Object a) r = 0 \<longrightarrow>
      compareElements (Object a) m = 0 \<and> compareElements m r = 0)"
    using cmp_good_trans [OF assms, of b c] by (simp add: compareElements.simps)
qed

lemma good_array:
  assumes "cmp_good compareNested (\<lambda>_ _. True) a"
  shows "cmp_good compareElements same_type (Array a)"
proof (rule cmp_goodI)
  fix r assume "same_type (Array a) r"
  then obtain b where "r = Array b" using canonicalType_cases(8) [of r] by auto
  then show "sgn (compareElements r (Array a)) = - sgn (compareElements (Array a) r)"
    using cmp_good_flip [OF assms, of b] by (simp add: compareElements.simps)
next
  fix m r assume "same_type (Array a) m" "same_type m r" and
    le: "compareElements (Array a) m \<le> 0" "compareElements m r \<le> 0"
  then obtain b c where "m = Array b" "r = Array c"
    using canonicalType_cases(8) [of m] canonicalType_cases(8) [of r] by auto
  with le show "compareElements (Array a) r \<le> 0 \<and> (compareElements (Array a) r = 0 \<longrightarrow>
      compareElements (Array a) m = 0 \<and> compareElements m r = 0)"
    using cmp_good_trans [OF assms, of b c] by (simp add: compareElements.simps)
qed

lemma compareElements_CodeWScope:
  "compareElements (CodeWScope s a) (CodeWScope t b) =
     (if s \<noteq> t then cmp3 s t else compareNested a b)"
  by (simp add: compareElements.simps stringdata_compare_cmp3 Let_def)

lemma good_code_w_scope:
  assumes "cmp_good compareNested (\<lambda>_ _. True) a"
  shows "cmp_good compareElements same_type (CodeWScope s a)"
proof (rule cmp_goodI)
  fix r assume "same_type (CodeWScope s a) r"
  then obtain t b where "r = CodeWScope t b" using canonicalType_cases(17) [of r] by auto
  then show "sgn (compareElements r (CodeWScope s a)) =
      - sgn (compareElements (CodeWScope s a) r)"
    using cmp_good_flip [OF assms, of b] cmp3_swap [of t s]
    by (simp add: compareElements_CodeWScope)
next
  fix m r assume "same_type (CodeWScope s a) m" "same_type m r" and
    le: "compareElements (CodeWScope s a) m \<le> 0" "compareElements m r \<le> 0"
  then obtain t b u c where "m = CodeWScope t b" "r = CodeWScope u c"
    using canonicalType_cases(17) [of m] canonicalType_cases(17) [of r] by auto
  with le show "compareElements (CodeWScope s a) r \<le> 0 \<and>
      (compareElements (CodeWScope s a) r = 0 \<longrightarrow>
        compareElements (CodeWScope s a) m = 0 \<and> compareElements m r = 0)"
    using cmp_good_trans [OF assms, of b c]
    by (auto simp: compareElements_CodeWScope split: if_splits)
qed

lemma good_fields:
  assumes "\<And>p v. p \<in> set a \<Longrightarrow> v \<in> Basic_BNFs.snds p \<Longrightarrow>
    cmp_good compareElements same_type v"
  shows "cmp_good compareNested (\<lambda>_ _. True) a"
  by (rule good_nested, rule good_element, rule assms, assumption) (simp add: snds.simps)

lemma good_value: "cmp_good compareElements same_type v"
proof (induction v)
  case (Object a)
  show ?case by (rule good_object, rule good_fields, rule Object)
next
  case (Array a)
  show ?case by (rule good_array, rule good_fields, rule Array)
next
  case (CodeWScope c a)
  show ?case by (rule good_code_w_scope, rule good_fields, rule CodeWScope)
next
  case MinKey
  show ?case by (rule good_singleton [where c = "-1"]) simp_all
next
  case MaxKey
  show ?case by (rule good_singleton [where c = 127]) simp_all
next
  case Undefined
  show ?case by (rule good_singleton [where c = 0]) simp_all
next
  case JstNULL
  show ?case by (rule good_singleton [where c = 5]) simp_all
next
  case (String s)
  show ?case by (rule good_string [where c = 15]) simp_all
next
  case (Symbol s)
  show ?case by (rule good_string [where c = 15]) simp_all
next
  case (Code s)
  show ?case by (rule good_string [where c = 60]) simp_all
qed (rule good_number good_oid good_bool good_date good_timestamp good_regex good_bindata
    good_dbref; simp)+

lemma good_compareNested: "cmp_good compareNested (\<lambda>_ _. True) a"
  by (rule good_nested, rule good_element, rule good_value)

interpretation bson: cmp_order woCompare
proof
  show "sgn (woCompare y x) = - sgn (woCompare x y)" for x y
    using cmp_good_flip [OF good_compareNested, of x y] by (simp add: woCompare_nested)
  show "woCompare x y \<le> 0 \<Longrightarrow> woCompare y z \<le> 0 \<Longrightarrow> woCompare x z \<le> 0" for x y z
    using cmp_good_trans [OF good_compareNested, of x y z] by (simp add: woCompare_nested)
qed

lemma woCompare_empty [simp]: "woCompare [] (p # ps) < 0" "0 < woCompare (p # ps) []"
  by (simp_all add: woCompare_nested)

lemma woCompare_fields [simp]:
  "woCompare (p # ps) (q # qs) =
     (if woCompareElement True p q \<noteq> 0 then woCompareElement True p q else woCompare ps qs)"
  by (simp add: woCompare_nested)

subsection \<open>Reading fields\<close>

fun getField :: "bson_obj \<Rightarrow> string \<Rightarrow> bson_value option" where
  "getField [] name = None"
| "getField ((n, v) # es) name = (if name = n then Some v else getField es name)"

abbreviation hasField :: "bson_obj \<Rightarrow> string \<Rightarrow> bool" where
  "hasField obj name \<equiv> getField obj name \<noteq> None"

definition nFields :: "bson_obj \<Rightarrow> nat" where
  "nFields obj = length obj"

definition isNumber :: "bson_value \<Rightarrow> bool" where
  "isNumber v = (case v of NumberLong _ \<Rightarrow> True | NumberDouble _ \<Rightarrow> True | NumberInt _ \<Rightarrow> True
     | _ \<Rightarrow> False)"

definition trueValue :: "bson_value \<Rightarrow> bool" where
  "trueValue v =
     (case v of
        NumberLong i \<Rightarrow> i \<noteq> 0
      | NumberDouble d \<Rightarrow> \<not> ieee_eq (double_val d) (NumFin 0)
      | NumberInt i \<Rightarrow> i \<noteq> 0
      | Bool b \<Rightarrow> b
      | JstNULL \<Rightarrow> False
      | Undefined \<Rightarrow> False
      | _ \<Rightarrow> True)"

definition bsonExtractField :: "bson_obj \<Rightarrow> string \<Rightarrow> bson_value result" where
  "bsonExtractField obj fieldName =
     (case getField obj fieldName of Some e \<Rightarrow> Inr e | None \<Rightarrow> Inl (Error NoSuchKey))"

definition bsonExtractTypedField :: "bson_obj \<Rightarrow> string \<Rightarrow> bson_type \<Rightarrow> bson_value result" where
  "bsonExtractTypedField obj fieldName t =
     rbind (bsonExtractField obj fieldName) (\<lambda>e.
       if t \<noteq> bson_type_of e then Inl (Error TypeMismatch) else Inr e)"

definition bsonExtractBooleanField :: "bson_obj \<Rightarrow> string \<Rightarrow> bool result" where
  "bsonExtractBooleanField obj fieldName =
     rbind (bsonExtractTypedField obj fieldName TBool) (\<lambda>e.
       case e of Bool b \<Rightarrow> Inr b | _ \<Rightarrow> Inl Fatal)"

definition bsonExtractStringField :: "bson_obj \<Rightarrow> string \<Rightarrow> string result" where
  "bsonExtractStringField obj fieldName =
     rbind (bsonExtractTypedField obj fieldName TString) (\<lambda>e.
       case e of String s \<Rightarrow> Inr s | _ \<Rightarrow> Inl Fatal)"

definition bsonExtractTimestampField :: "bson_obj \<Rightarrow> string \<Rightarrow> 64 word result" where
  "bsonExtractTimestampField obj fieldName =
     rbind (bsonExtractTypedField obj fieldName TbsonTimestamp) (\<lambda>e.
       case e of Timestamp t \<Rightarrow> Inr t | _ \<Rightarrow> Inl Fatal)"

definition bsonExtractOIDField :: "bson_obj \<Rightarrow> string \<Rightarrow> oid result" where
  "bsonExtractOIDField obj fieldName =
     rbind (bsonExtractTypedField obj fieldName TjstOID) (\<lambda>e.
       case e of JstOID i \<Rightarrow> Inr i | _ \<Rightarrow> Inl Fatal)"

definition bsonExtractOIDFieldWithDefault :: "bson_obj \<Rightarrow> string \<Rightarrow> oid \<Rightarrow> oid result" where
  "bsonExtractOIDFieldWithDefault obj fieldName defaultValue =
     (case bsonExtractOIDField obj fieldName of
        Inl (Error NoSuchKey) \<Rightarrow> Inr defaultValue
      | r \<Rightarrow> r)"

definition bsonExtractBooleanFieldWithDefault :: "bson_obj \<Rightarrow> string \<Rightarrow> bool \<Rightarrow> bool result" where
  "bsonExtractBooleanFieldWithDefault obj fieldName defaultValue =
     (case bsonExtractField obj fieldName of
        Inl (Error NoSuchKey) \<Rightarrow> Inr defaultValue
      | Inl e \<Rightarrow> Inl e
      | Inr v \<Rightarrow> (case v of
            Bool b \<Rightarrow> Inr (trueValue v)
          | _ \<Rightarrow> if isNumber v then Inr (trueValue v) else Inl (Error TypeMismatch)))"

definition bsonExtractStringFieldWithDefault :: "bson_obj \<Rightarrow> string \<Rightarrow> string \<Rightarrow> string result" where
  "bsonExtractStringFieldWithDefault obj fieldName defaultValue =
     (case bsonExtractStringField obj fieldName of
        Inl (Error NoSuchKey) \<Rightarrow> Inr defaultValue
      | r \<Rightarrow> r)"

lemma getField_append:
  "getField (a @ b) n = (case getField a n of Some v \<Rightarrow> Some v | None \<Rightarrow> getField b n)"
  by (induction a) auto

lemma bson_type_of_iffs:
  "bson_type_of v = TBool \<longleftrightarrow> (\<exists>b. v = Bool b)"
  "bson_type_of v = TString \<longleftrightarrow> (\<exists>s. v = String s)"
  "bson_type_of v = TObject \<longleftrightarrow> (\<exists>a. v = Object a)"
  "bson_type_of v = TArray \<longleftrightarrow> (\<exists>a. v = Array a)"
  "bson_type_of v = TjstOID \<longleftrightarrow> (\<exists>i. v = JstOID i)"
  "bson_type_of v = TbsonTimestamp \<longleftrightarrow> (\<exists>t. v = Timestamp t)"
  "bson_type_of v = TMinKey \<longleftrightarrow> v = MinKey"
  "bson_type_of v = TMaxKey \<longleftrightarrow> v = MaxKey"
  by (cases v; simp)+

lemma bsonExtract_total:
  "bsonExtractStringField obj n \<noteq> Inl Fatal"
  "bsonExtractBooleanField obj n \<noteq> Inl Fatal"
  "bsonExtractTimestampField obj n \<noteq> Inl Fatal"
  "bsonExtractOIDField obj n \<noteq> Inl Fatal"
  by (auto simp: bsonExtractStringField_def bsonExtractBooleanField_def
      bsonExtractTimestampField_def bsonExtractOIDField_def bsonExtractTypedField_def
      bsonExtractField_def rbind_def split: option.splits sum.splits if_splits bson_value.splits)


subsection \<open>Properties of the order\<close>



text \<open>
  Comparing a 64-bit integer with a double is exact: the result is the comparison of the two
  mathematical values, with NaN below every integer and the infinities outside, although not
  every 64-bit integer is a double; and the result of swapping the sides is the negation.
\<close>

theorem compareLongToDouble_exact:
  "compareLongToDouble lhs rhs =
     (case double_val rhs of
        NumNaN \<Rightarrow> 1 | NumNegInf \<Rightarrow> 1 | NumPosInf \<Rightarrow> -1
      | NumFin q \<Rightarrow> if rat_of_int (sint lhs) < q then -1 else if q < rat_of_int (sint lhs) then 1 else 0) \<and>
   compareDoubleToLong rhs lhs = - compareLongToDouble lhs rhs"
  by (simp add: compareLongToDouble_cmp3 compareDoubleToLong_def cmp3_def split: num_val.split)

end
