(* ===== verification/Chunk_Version.thy ===== *)
theory Chunk_Version
  imports Bson
begin

unbundle bit_operations_syntax

text \<open>
  Chunk versions (\<open>src/mongo/s/chunk_version.h\<close>, \<open>chunk_version.cpp\<close>): a 64-bit
  number whose upper half is the major and whose lower half is the minor version, scoped by the
  epoch of the collection; arithmetic, comparisons, and the BSON formats.
\<close>

subsection \<open>The version and its arithmetic\<close>

record chunk_version =
  combined :: "64 word"
  epoch :: oid

definition ChunkVersion :: "32 word \<Rightarrow> 32 word \<Rightarrow> oid \<Rightarrow> chunk_version" where
  "ChunkVersion major minor e =
     \<lparr>combined = ucast minor OR push_bit 32 (ucast major), epoch = e\<rparr>"

definition majorVersion :: "chunk_version \<Rightarrow> 32 word" where
  "majorVersion v = ucast (drop_bit 32 (combined v))"

definition minorVersion :: "chunk_version \<Rightarrow> 32 word" where
  "minorVersion v = ucast (combined v AND 0xFFFFFFFF)"

definition DROPPED :: chunk_version where
  "DROPPED = ChunkVersion 0 0 0"

definition UNSHARDED :: chunk_version where
  "UNSHARDED = ChunkVersion 0 0 0"

text \<open>The ignored epoch: zero time, every other byte 0xFF.\<close>

definition IGNORED :: chunk_version where
  "IGNORED = (ChunkVersion 0 0 0)\<lparr>epoch := 0xFFFFFFFFFFFFFFFF\<rparr>"

definition fromDeprecatedLong :: "64 word \<Rightarrow> oid \<Rightarrow> chunk_version" where
  "fromDeprecatedLong num e = (ChunkVersion 0 0 e)\<lparr>combined := num\<rparr>"

definition isIgnoredVersion :: "chunk_version \<Rightarrow> bool" where
  "isIgnoredVersion v = (majorVersion v = 0 \<and> minorVersion v = 0 \<and> epoch v = epoch IGNORED)"

definition incMajor :: "chunk_version \<Rightarrow> chunk_version result" where
  "incMajor v =
     rbind (uassert (ErrorNo 31180) (majorVersion v \<noteq> 0xFFFFFFFF)) (\<lambda>_.
       Inr (v\<lparr>combined := push_bit 32 (ucast (majorVersion v + 1))\<rparr>))"

definition incMinor :: "chunk_version \<Rightarrow> chunk_version result" where
  "incMinor v =
     rbind (uassert (ErrorNo 31181) (minorVersion v \<noteq> 0xFFFFFFFF)) (\<lambda>_.
       Inr (v\<lparr>combined := combined v + 1\<rparr>))"

definition isSet :: "chunk_version \<Rightarrow> bool" where
  "isSet v = (combined v > 0)"

subsection \<open>Comparisons\<close>

definition version_less :: "chunk_version \<Rightarrow> chunk_version \<Rightarrow> bool" where
  "version_less v w = (combined v < combined w)"

definition version_le :: "chunk_version \<Rightarrow> chunk_version \<Rightarrow> bool" where
  "version_le v w = (combined v \<le> combined w)"

definition hasEqualEpoch :: "chunk_version \<Rightarrow> chunk_version \<Rightarrow> bool" where
  "hasEqualEpoch v w = (epoch v = epoch w)"

definition isWriteCompatibleWith :: "chunk_version \<Rightarrow> chunk_version \<Rightarrow> bool" where
  "isWriteCompatibleWith v w =
     (if \<not> hasEqualEpoch v w then False else majorVersion w = majorVersion v)"

definition version_equals :: "chunk_version \<Rightarrow> chunk_version \<Rightarrow> bool" where
  "version_equals v w = (if \<not> hasEqualEpoch v w then False else combined w = combined v)"

definition isStrictlyEqualTo :: "chunk_version \<Rightarrow> chunk_version \<Rightarrow> bool" where
  "isStrictlyEqualTo v w = (if epoch w \<noteq> epoch v then False else combined w = combined v)"

definition isOlderThan :: "chunk_version \<Rightarrow> chunk_version \<Rightarrow> bool" where
  "isOlderThan v w =
     (if epoch w \<noteq> epoch v then False
      else if majorVersion v \<noteq> majorVersion w then majorVersion v < majorVersion w
      else minorVersion v < minorVersion w)"

subsection \<open>BSON formats\<close>

function (sequential) fromBSONElement :: "bson_value option \<Rightarrow> chunk_version \<times> bool"
  and fromBSONArray :: "bson_obj \<Rightarrow> chunk_version \<times> bool"
where
  "fromBSONElement (Some (Array a)) = fromBSONArray a"
| "fromBSONElement (Some (JstOID i)) = (ChunkVersion 0 0 i, True)"
| "fromBSONElement (Some (Timestamp t)) = (fromDeprecatedLong t 0, True)"
| "fromBSONElement (Some (Date d)) = (fromDeprecatedLong d 0, True)"
| "fromBSONElement _ = (ChunkVersion 0 0 0, False)"
| "fromBSONArray [] = (ChunkVersion 0 0 0, False)"
| "fromBSONArray ((n, v) # es) =
     (let (version, canParse) = fromBSONElement (Some v)
      in if \<not> canParse then (version, False)
         else case es of
             (m, JstOID i) # _ \<Rightarrow> (version\<lparr>epoch := i\<rparr>, True)
           | _ \<Rightarrow> (version, True))"
  by pat_completeness auto
termination
  by (relation "measure (\<lambda>x. case x of Inl (Some v) \<Rightarrow> size v | Inl None \<Rightarrow> 0
        | Inr a \<Rightarrow> size_list (size_prod (\<lambda>_. 0) size) a)") auto

definition fromBSON :: "bson_obj \<Rightarrow> string \<Rightarrow> chunk_version \<times> bool" where
  "fromBSON obj prefixIn =
     (let prefix = (if prefixIn = [] \<and> hasField obj ''version'' then ''version''
                    else if prefixIn = [] \<and> hasField obj ''lastmod'' then ''lastmod''
                    else prefixIn);
          (version, canParse) = fromBSONElement (getField obj prefix)
      in case getField obj (prefix @ ''Epoch'') of
           Some (JstOID i) \<Rightarrow> (version\<lparr>epoch := i\<rparr>, True)
         | _ \<Rightarrow> (version, canParse))"

definition toBSONWithPrefix :: "chunk_version \<Rightarrow> string \<Rightarrow> bson_obj result" where
  "toBSONWithPrefix v prefix =
     rbind (invariant (prefix \<noteq> [])) (\<lambda>_.
       Inr [(prefix, Timestamp (combined v)), (prefix @ ''Epoch'', JstOID (epoch v))])"

definition addToBSON :: "chunk_version \<Rightarrow> bson_obj \<Rightarrow> string \<Rightarrow> bson_obj result" where
  "addToBSON v b prefix = rbind (toBSONWithPrefix v prefix) (\<lambda>e. Inr (b @ e))"

definition versionToBSON :: "chunk_version \<Rightarrow> bson_obj" where
  "versionToBSON v = [(''0'', Timestamp (combined v)), (''1'', JstOID (epoch v))]"

definition appendWithFieldForCommands :: "chunk_version \<Rightarrow> bson_obj \<Rightarrow> string \<Rightarrow> bson_obj" where
  "appendWithFieldForCommands v b field = b @ [(field, Array (versionToBSON v))]"

definition appendForCommands :: "chunk_version \<Rightarrow> bson_obj \<Rightarrow> bson_obj" where
  "appendForCommands v b = appendWithFieldForCommands v b ''shardVersion''"

definition appendForSetShardVersion :: "chunk_version \<Rightarrow> bson_obj \<Rightarrow> bson_obj result" where
  "appendForSetShardVersion v b = addToBSON v b ''version''"

definition appendForChunk :: "chunk_version \<Rightarrow> bson_obj \<Rightarrow> bson_obj result" where
  "appendForChunk v b = addToBSON v b ''lastmod''"

definition parseFromBSONWithFieldForCommands :: "bson_obj \<Rightarrow> string \<Rightarrow> chunk_version result" where
  "parseFromBSONWithFieldForCommands obj field =
     rbind (bsonExtractField obj field) (\<lambda>versionElem.
       case versionElem of
         Array a \<Rightarrow> (case a of
             [] \<Rightarrow> Inl (Error BadValue)
           | (_, tsPart) # rest \<Rightarrow> (case tsPart of
                 Timestamp t \<Rightarrow> (case rest of
                     (_, JstOID e) # _ \<Rightarrow> Inr \<lparr>combined = t, epoch = e\<rparr>
                   | _ \<Rightarrow> Inl (Error TypeMismatch))
               | _ \<Rightarrow> Inl (Error TypeMismatch)))
       | _ \<Rightarrow> Inl (Error TypeMismatch))"

definition parseFromBSONForCommands :: "bson_obj \<Rightarrow> chunk_version result" where
  "parseFromBSONForCommands obj = parseFromBSONWithFieldForCommands obj ''shardVersion''"

definition parseFromBSONForSetShardVersion :: "bson_obj \<Rightarrow> chunk_version result" where
  "parseFromBSONForSetShardVersion obj =
     (let (version, canParse) = fromBSON obj ''version''
      in if \<not> canParse then Inl (Error BadValue) else Inr version)"

definition parseFromBSONForChunk :: "bson_obj \<Rightarrow> chunk_version result" where
  "parseFromBSONForChunk obj =
     (let (version, canParse) = fromBSON obj ''lastmod''
      in if \<not> canParse then Inl (Error BadValue) else Inr version)"

definition parseFromBSONWithFieldAndSetEpoch ::
    "bson_obj \<Rightarrow> string \<Rightarrow> oid \<Rightarrow> chunk_version result" where
  "parseFromBSONWithFieldAndSetEpoch obj field e =
     (let (version, canParse) = fromBSON obj field
      in if \<not> canParse then Inl (Error BadValue) else Inr (version\<lparr>epoch := e\<rparr>))"


subsection \<open>The two halves of a version\<close>

named_theorems version_defs

lemmas [version_defs] = version_less_def version_le_def hasEqualEpoch_def isWriteCompatibleWith_def
  version_equals_def isStrictlyEqualTo_def

lemma unat_less_exp: "unat (w :: 'a::len word) < 2 ^ LENGTH('a)"
  by (rule unsigned_less)

lemma unat_majorVersion: "unat (majorVersion v) = unat (combined v) div 2 ^ 32"
proof -
  have "unat (combined v) div 2 ^ 32 < 2 ^ 32"
    using unat_less_exp [of "combined v"] by (simp add: less_mult_imp_div_less)
  then show ?thesis
    by (simp add: majorVersion_def unsigned_ucast_eq drop_bit_eq_div unat_div_distrib
        take_bit_nat_eq_self)
qed

lemma unat_minorVersion: "unat (minorVersion v) = unat (combined v) mod 2 ^ 32"
proof -
  have "(0xFFFFFFFF :: 64 word) = mask 32"
    by (simp add: mask_eq_exp_minus_1)
  then have "combined v AND 0xFFFFFFFF = take_bit 32 (combined v)"
    by (simp only: take_bit_eq_mask)
  then show ?thesis
    by (simp only: minorVersion_def unsigned_ucast_eq unsigned_take_bit_eq take_bit_take_bit)
      (simp add: take_bit_eq_mod)
qed

lemma mult_add_less_iff:
  fixes a b c d m :: nat
  assumes "b < m" "d < m"
  shows "a * m + b < c * m + d \<longleftrightarrow> a < c \<or> a = c \<and> b < d"
proof -
  have lt: "x * m + y < z * m + u" if "x < z" "y < m" for x y z u
    using mult_le_mono1 [of "Suc x" z m] that by simp
  show ?thesis
    using lt [of a c b d] lt [of c a d b] assms by (cases a c rule: linorder_cases) auto
qed

lemma unat_combined:
  "unat (combined v) = unat (majorVersion v) * 2 ^ 32 + unat (minorVersion v)"
  by (simp only: unat_majorVersion unat_minorVersion div_mult_mod_eq)

lemma unat_ChunkVersion:
  "unat (combined (ChunkVersion major minor e)) = unat major * 2 ^ 32 + unat minor"
proof -
  have disj: "ucast minor AND push_bit 32 (ucast major :: 64 word) = 0"
    by (rule bit_word_eqI) (auto simp: bit_and_iff bit_push_bit_iff bit_ucast_iff dest: bit_imp_le_length)
  have a: "unat (push_bit 32 (ucast major :: 64 word)) = unat major * 2 ^ 32"
  proof -
    have "unat major * 2 ^ 32 < 2 ^ 64" "unat major < 2 ^ 64"
      using unat_less_exp [of major] by simp_all
    then show ?thesis
      by (simp add: push_bit_eq_mult unat_word_ariths unsigned_ucast_eq take_bit_nat_eq_self)
  qed
  have b: "unat (ucast minor :: 64 word) = unat minor"
    using unat_less_exp [of minor] by (simp add: unsigned_ucast_eq take_bit_nat_eq_self)
  have "ucast minor OR push_bit 32 (ucast major :: 64 word)
      = ucast minor + push_bit 32 (ucast major)"
    using disj by (simp add: disjunctive_add_eq_or)
  moreover have "unat (ucast minor :: 64 word) + unat (push_bit 32 (ucast major :: 64 word)) < 2 ^ 64"
    using unat_less_exp [of minor] unat_less_exp [of major] unfolding a b by simp
  ultimately show ?thesis
    by (simp add: ChunkVersion_def unat_add_lem [THEN iffD1] a b)
qed

lemma majorVersion_ChunkVersion [simp]: "majorVersion (ChunkVersion major minor e) = major"
  using unat_less_exp [of minor]
  by (simp add: word_unat_eq_iff unat_majorVersion unat_ChunkVersion)

lemma minorVersion_ChunkVersion [simp]: "minorVersion (ChunkVersion major minor e) = minor"
  using unat_less_exp [of minor]
  by (simp add: word_unat_eq_iff unat_minorVersion unat_ChunkVersion mod_mult_self3)

lemma epoch_ChunkVersion [simp]: "epoch (ChunkVersion major minor e) = e"
  by (simp add: ChunkVersion_def)

lemma version_eqI:
  fixes v w :: chunk_version
  assumes "majorVersion v = majorVersion w" "minorVersion v = minorVersion w" "epoch v = epoch w"
  shows "v = w"
proof -
  have "combined v = combined w"
    by (simp add: word_unat_eq_iff unat_combined [of v] unat_combined [of w] assms)
  then show ?thesis
    using assms(3) by (cases v; cases w) simp
qed

lemma ChunkVersion_halves [simp]: "ChunkVersion (majorVersion v) (minorVersion v) (epoch v) = v"
  by (rule version_eqI) simp_all

lemma combined_eq_iff:
  "combined v = combined w \<longleftrightarrow>
     majorVersion v = majorVersion w \<and> minorVersion v = minorVersion w"
proof
  show "combined v = combined w \<Longrightarrow> majorVersion v = majorVersion w \<and> minorVersion v = minorVersion w"
    by (simp add: majorVersion_def minorVersion_def)
qed (simp add: word_unat_eq_iff [of "combined v"] unat_combined [of v] unat_combined [of w])

lemma combined_less_iff:
  "combined v < combined w \<longleftrightarrow>
     majorVersion v < majorVersion w \<or> majorVersion v = majorVersion w \<and> minorVersion v < minorVersion w"
  (is "?l \<longleftrightarrow> ?r")
proof -
  define a b c d where "a = unat (majorVersion v)" and "b = unat (minorVersion v)"
    and "c = unat (majorVersion w)" and "d = unat (minorVersion w)"
  have bd: "b < 2 ^ 32" "d < 2 ^ 32"
    using unat_less_exp [of "minorVersion v"] unat_less_exp [of "minorVersion w"]
    by (simp_all add: b_def d_def)
  have "?l \<longleftrightarrow> a * 2 ^ 32 + b < c * 2 ^ 32 + d"
    by (simp add: word_less_nat_alt unat_combined [of v] unat_combined [of w] a_def b_def c_def d_def)
  also have "\<dots> \<longleftrightarrow> a < c \<or> a = c \<and> b < d"
    by (rule mult_add_less_iff [OF bd])
  also have "\<dots> \<longleftrightarrow> ?r"
    by (simp add: word_less_nat_alt word_unat_eq_iff a_def b_def c_def d_def)
  finally show ?thesis .
qed


subsection \<open>Increments\<close>

lemma unat_Suc_bounded: "w \<noteq> 0xFFFFFFFF \<Longrightarrow> unat (w + 1 :: 32 word) = Suc (unat w)"
  using unat_less_exp [of w] by (simp add: word_unat_eq_iff unat_word_ariths)

lemma incMajor_eq:
  "incMajor v =
     (if majorVersion v = 0xFFFFFFFF then Inl (Error (ErrorNo 31180))
      else Inr (ChunkVersion (majorVersion v + 1) 0 (epoch v)))"
  by (simp add: incMajor_def ChunkVersion_def result_simps)

lemma incMinor_eq:
  "incMinor v =
     (if minorVersion v = 0xFFFFFFFF then Inl (Error (ErrorNo 31181))
      else Inr (ChunkVersion (majorVersion v) (minorVersion v + 1) (epoch v)))"
proof (cases "minorVersion v = 0xFFFFFFFF")
  case False
  have "unat (combined v + 1) = unat (combined v) + 1"
  proof -
    have "unat (combined v) + 1 < 2 ^ 64"
      using unat_less_exp [of "majorVersion v"] unat_less_exp [of "minorVersion v"] False
      by (simp add: unat_combined [of v] word_unat_eq_iff)
    then show ?thesis
      by (simp add: unat_word_ariths)
  qed
  then have "combined v + 1 = combined (ChunkVersion (majorVersion v) (minorVersion v + 1) (epoch v))"
    using unat_Suc_bounded [OF False]
    by (simp add: word_unat_eq_iff unat_ChunkVersion unat_combined [of v])
  then show ?thesis
    using False by (cases v) (simp add: incMinor_def result_simps ChunkVersion_def)
qed (simp add: incMinor_def result_simps)


lemma ChunkVersion_less_iff:
  "version_less (ChunkVersion a b e) (ChunkVersion c d f) \<longleftrightarrow> a < c \<or> a = c \<and> b < d"
  by (simp add: version_less_def combined_less_iff)

text \<open>
  The comparison operators on the combined number order versions lexicographically by
  (major, minor), and \<open>isOlderThan\<close> is that order restricted to versions of one epoch: a strict
  order, total on the versions of an epoch, and \<open>False\<close> across epochs.
\<close>

theorem isOlderThan_iff:
  "(isOlderThan v w \<longleftrightarrow> hasEqualEpoch v w \<and> version_less v w) \<and>
   (version_less v w \<longleftrightarrow>
      majorVersion v < majorVersion w \<or>
      majorVersion v = majorVersion w \<and> minorVersion v < minorVersion w) \<and>
   (hasEqualEpoch v w \<longleftrightarrow> version_equals v w \<or> isOlderThan v w \<or> isOlderThan w v) \<and>
   \<not> (isOlderThan v w \<and> (isOlderThan w v \<or> version_equals v w))"
  by (auto simp: isOlderThan_def version_defs combined_less_iff combined_eq_iff)

text \<open>
  C27: \<open>incMajor\<close> fails with 31180 exactly on the largest major version; otherwise it yields
  (major + 1, 0) in the same epoch, which is newer than every version of the epoch whose major
  version is not above the old one.
\<close>

theorem incMajor_newest:
  "case incMajor v of
     Inl f \<Rightarrow> f = Error (ErrorNo 31180) \<and> majorVersion v = 0xFFFFFFFF
   | Inr w \<Rightarrow> unat (majorVersion w) = Suc (unat (majorVersion v)) \<and> minorVersion w = 0
       \<and> epoch w = epoch v
       \<and> {u. hasEqualEpoch u v \<and> majorVersion u \<le> majorVersion v} \<subseteq> {u. isOlderThan u w}"
  using unat_Suc_bounded [of "majorVersion v"]
  by (auto simp: incMajor_eq hasEqualEpoch_def isOlderThan_def word_le_nat_alt word_less_nat_alt)

text \<open>
  \<open>incMinor\<close> fails with 31181 exactly on the largest minor version; otherwise it keeps the
  major version and the epoch and yields the next version of the order: no version lies between
  the old and the new one.
\<close>

theorem incMinor_next:
  "case incMinor v of
     Inl f \<Rightarrow> f = Error (ErrorNo 31181) \<and> minorVersion v = 0xFFFFFFFF
   | Inr w \<Rightarrow> majorVersion w = majorVersion v \<and> unat (minorVersion w) = Suc (unat (minorVersion v))
       \<and> isWriteCompatibleWith w v \<and> isOlderThan v w
       \<and> \<not> (\<exists>u. isOlderThan v u \<and> isOlderThan u w)"
  using unat_Suc_bounded [of "minorVersion v"]
  by (auto simp: incMinor_eq version_defs isOlderThan_def word_less_nat_alt split: if_splits)

subsection \<open>Round trips\<close>

lemma fromBSON_toBSONWithPrefix:
  assumes "prefix \<noteq> []"
  shows "fromBSON [(prefix, Timestamp (combined v)), (prefix @ ''Epoch'', JstOID (epoch v))] prefix
      = (v, True)"
  using assms by (simp add: fromBSON_def fromDeprecatedLong_def)

lemma fromBSON_append:
  assumes "prefix \<noteq> []" "\<not> hasField b prefix" "\<not> hasField b (prefix @ ''Epoch'')"
  shows "fromBSON (b @ e) prefix = fromBSON e prefix"
  using assms by (simp add: fromBSON_def getField_append)

text \<open>
  C28: each of the three BSON formats of a version reads back as the version it was written from,
  whatever the builder held before, as long as it had no field of the names being written: the
  command format, the \<open>setShardVersion\<close> format and the persisted chunk format.
\<close>

theorem version_roundtrips:
  "(\<not> hasField b ''shardVersion'' \<longrightarrow> parseFromBSONForCommands (appendForCommands v b) = Inr v) \<and>
   (\<not> hasField b ''version'' \<and> \<not> hasField b ''versionEpoch'' \<longrightarrow>
      rbind (appendForSetShardVersion v b) parseFromBSONForSetShardVersion = Inr v) \<and>
   (\<not> hasField b ''lastmod'' \<and> \<not> hasField b ''lastmodEpoch'' \<longrightarrow>
      rbind (appendForChunk v b) parseFromBSONForChunk = Inr v)"
  using fromBSON_append [of "''version''" b] fromBSON_append [of "''lastmod''" b]
    fromBSON_toBSONWithPrefix [of "''version''" v] fromBSON_toBSONWithPrefix [of "''lastmod''" v]
  by (simp add: appendForCommands_def appendWithFieldForCommands_def parseFromBSONForCommands_def
      parseFromBSONWithFieldForCommands_def bsonExtractField_def getField_append versionToBSON_def
      appendForSetShardVersion_def appendForChunk_def addToBSON_def toBSONWithPrefix_def
      parseFromBSONForSetShardVersion_def parseFromBSONForChunk_def)

theorem version_roundtrips_witness:
  "parseFromBSONForCommands (appendForCommands (ChunkVersion 3 7 5) [(''find'', String ''c'')])
     = Inr (ChunkVersion 3 7 5) \<and>
   rbind (appendForChunk (ChunkVersion 3 7 5) [(''ns'', String ''d.c'')]) parseFromBSONForChunk
     = Inr (ChunkVersion 3 7 5)"
  using version_roundtrips [of "[(''find'', String ''c'')]" "ChunkVersion 3 7 5"]
    version_roundtrips [of "[(''ns'', String ''d.c'')]" "ChunkVersion 3 7 5"]
  by simp

end
