(* ===== verification/Bson_String.thy ===== *)
theory Bson_String
  imports Bson
begin

unbundle bit_operations_syntax

text \<open>
  Printing of BSON (\<open>src/mongo/bson/bsonelement.cpp\<close>, \<open>bsonobj.cpp\<close>,
  \<open>src/mongo/bson/util/builder.h\<close>, \<open>src/mongo/util/itoa.cpp\<close>, \<open>src/mongo/util/hex.h\<close>), which
  the identifier of a chunk document is made of. A \<open>StringBuilder\<close> is the string it holds;
  \<open>uassert\<close> 16150 on deep nesting is an error value.
\<close>

subsection \<open>Numbers\<close>

definition digit :: "nat \<Rightarrow> char" where
  "digit n = char_of (n + 48)"

fun ItoA_loop :: "nat \<Rightarrow> string \<Rightarrow> string" where
  "ItoA_loop val buf =
     (if val = 0 then buf else ItoA_loop (val div 10) (digit (val mod 10) # buf))"

declare ItoA_loop.simps [simp del]

text \<open>The first thousand results are read from a table of literals.\<close>

definition ItoA :: "nat \<Rightarrow> string" where
  "ItoA val =
     (if val < 10 then [digit val]
      else if val < 100 then [digit (val div 10), digit (val mod 10)]
      else if val < 1000 then [digit (val div 100), digit (val div 10 mod 10), digit (val mod 10)]
      else ItoA_loop val [])"

definition appendIntegral :: "int \<Rightarrow> string" where
  "appendIntegral val =
     (if val < 0 then ''-'' @ ItoA (unat (0 - word_of_int val :: 64 word))
      else ItoA (unat (word_of_int val :: 64 word)))"

text \<open>The conversion \<open>%.16g\<close> of the C library: sixteen significant digits, ties to even.\<close>

definition double_num :: "64 word \<Rightarrow> nat" where
  "double_num w =
     (if double_exp w = 0 then double_frac w * 2 else (2 ^ 52 + double_frac w) * 2 ^ double_exp w)"

definition round_even :: "nat \<Rightarrow> nat \<Rightarrow> nat" where
  "round_even n d =
     (let q = n div d; r = n mod d
      in if 2 * r < d \<or> 2 * r = d \<and> even q then q else q + 1)"

definition dec_exponent :: "nat \<Rightarrow> nat \<Rightarrow> int" where
  "dec_exponent n d =
     (if d \<le> n then int (length (ItoA (n div d))) - 1
      else - int (length (ItoA ((d + n - 1) div n - 1))))"

definition dec_digits :: "nat \<Rightarrow> nat \<Rightarrow> nat \<times> int" where
  "dec_digits n d =
     (let e = dec_exponent n d;
          m = (if e \<le> 15 then round_even (n * 10 ^ nat (15 - e)) d
               else round_even n (d * 10 ^ nat (e - 15)))
      in if m = 10 ^ 16 then (10 ^ 15, e + 1) else (m, e))"

definition strip_zeros :: "string \<Rightarrow> string" where
  "strip_zeros ds = rev (dropWhile (\<lambda>c. c = CHR ''0'') (rev ds))"

definition dotted :: "string \<Rightarrow> string \<Rightarrow> string" where
  "dotted a b = (if strip_zeros b = [] then a else a @ ''.'' @ strip_zeros b)"

definition printf_g16 :: "64 word \<Rightarrow> string" where
  "printf_g16 w =
     (if bit w 63 then ''-'' else '''') @
     (if double_exp w = 2047 then (if double_frac w \<noteq> 0 then ''nan'' else ''inf'')
      else if double_num w = 0 then ''0''
      else let (m, x) = dec_digits (double_num w) (2 ^ 1075); ds = ItoA m
        in if x < -4 \<or> 16 \<le> x
           then dotted (take 1 ds) (drop 1 ds) @ ''e'' @ (if x < 0 then ''-'' else ''+'')
             @ (if \<bar>x\<bar> < 10 then ''0'' else '''') @ ItoA (nat \<bar>x\<bar>)
           else if 0 \<le> x then dotted (take (nat x + 1) ds) (drop (nat x + 1) ds)
           else dotted ''0'' (replicate (nat (- x) - 1) CHR ''0'' @ ds))"

definition appendDoubleNice :: "64 word \<Rightarrow> string" where
  "appendDoubleNice x =
     (let start = printf_g16 x
      in if CHR ''.'' \<notin> set start \<and> CHR ''E'' \<notin> set start \<and> CHR ''N'' \<notin> set start
         then start @ ''.0'' else start)"

definition hex_digit :: "char \<Rightarrow> nat \<Rightarrow> char" where
  "hex_digit a n = (if n < 10 then digit n else char_of (of_char a + (n - 10)))"

definition toHex :: "string \<Rightarrow> string" where
  "toHex bytes = concat (map (\<lambda>c.
     [hex_digit CHR ''A'' (of_char c div 16), hex_digit CHR ''A'' (of_char c mod 16)]) bytes)"

definition toHexLower :: "string \<Rightarrow> string" where
  "toHexLower bytes = concat (map (\<lambda>c.
     [hex_digit CHR ''a'' (of_char c div 16), hex_digit CHR ''a'' (of_char c mod 16)]) bytes)"

definition oid_bytes :: "oid \<Rightarrow> string" where
  "oid_bytes i = map (\<lambda>k. char_of (unat (drop_bit (8 * (11 - k)) i) mod 256)) [0..<12]"

definition OID_toString :: "oid \<Rightarrow> string" where
  "OID_toString i = toHexLower (oid_bytes i)"

subsection \<open>Elements and objects\<close>

abbreviation cstr :: "string \<Rightarrow> string" where
  "cstr s \<equiv> takeWhile (\<lambda>c. c \<noteq> CHR 0x00) s"

definition maxToStringRecursionDepth :: nat where
  "maxToStringRecursionDepth = 100"

definition binDataToString :: "bool \<Rightarrow> char \<Rightarrow> string \<Rightarrow> string" where
  "binDataToString full subtype bytes =
     (let data = (if subtype = CHR 0x02 then drop 4 bytes else bytes)
      in if subtype = CHR 0x04 \<and> length data = 16
         then ''UUID('' @ [CHR 0x22] @ toHexLower (take 4 data) @ ''-''
           @ toHexLower (take 2 (drop 4 data)) @ ''-'' @ toHexLower (take 2 (drop 6 data)) @ ''-''
           @ toHexLower (take 2 (drop 8 data)) @ ''-'' @ toHexLower (take 6 (drop 10 data))
           @ [CHR 0x22] @ '')''
         else ''BinData('' @ ItoA (of_char subtype) @ '', ''
           @ (if \<not> full \<and> 80 < length data then toHex (take 70 data) @ ''...)''
              else toHex data @ '')''))"


fun scalarToString :: "bool \<Rightarrow> bson_value \<Rightarrow> string" where
  "scalarToString full (Date d) = ''new Date('' @ appendIntegral (sint d) @ '')''"
| "scalarToString full (RegEx r flags) = ''/'' @ r @ ''/'' @ flags"
| "scalarToString full (NumberDouble d) = appendDoubleNice d"
| "scalarToString full (NumberLong n) = appendIntegral (sint n)"
| "scalarToString full (NumberInt n) = appendIntegral (sint n)"
| "scalarToString full (Bool b) = (if b then ''true'' else ''false'')"
| "scalarToString full Undefined = ''undefined''"
| "scalarToString full JstNULL = ''null''"
| "scalarToString full MaxKey = ''MaxKey''"
| "scalarToString full MinKey = ''MinKey''"
| "scalarToString full (Code c) =
     (if \<not> full \<and> 80 < length c + 1 then take 70 c @ ''...'' else c)"
| "scalarToString full (Symbol c) =
     [CHR 0x22] @ (if \<not> full \<and> 160 < length c + 1 then take 150 c @ ''...'' @ [CHR 0x22]
                   else c @ [CHR 0x22])"
| "scalarToString full (String c) =
     [CHR 0x22] @ (if \<not> full \<and> 160 < length c + 1 then take 150 c @ ''...'' @ [CHR 0x22]
                   else c @ [CHR 0x22])"
| "scalarToString full (DBRef ns i) =
     ''DBRef('' @ [CHR 0x27] @ cstr ns @ [CHR 0x27] @ '','' @ OID_toString i @ '')''"
| "scalarToString full (JstOID i) =
     ''ObjectId('' @ [CHR 0x27] @ OID_toString i @ [CHR 0x27] @ '')''"
| "scalarToString full (BinData subtype bytes) = binDataToString full subtype bytes"
| "scalarToString full (Timestamp t) =
     ''Timestamp('' @ appendIntegral (uint (drop_bit 32 t)) @ '', ''
       @ appendIntegral (uint (t AND 0xFFFFFFFF)) @ '')''"
| "scalarToString full _ = []"

function (sequential) elementToString ::
    "bool \<Rightarrow> bool \<Rightarrow> bool \<Rightarrow> nat \<Rightarrow> string \<Rightarrow> bson_value \<Rightarrow> string result"
  and objToString :: "bool \<Rightarrow> bool \<Rightarrow> bool \<Rightarrow> nat \<Rightarrow> bson_obj \<Rightarrow> string result"
  and fieldsToString ::
    "bool \<Rightarrow> bool \<Rightarrow> bool \<Rightarrow> bool \<Rightarrow> nat \<Rightarrow> bson_obj \<Rightarrow> string result"
where
  "elementToString includeFieldName full redactValues depth name e =
     (if maxToStringRecursionDepth < depth
      then (if full then Inl (Error (ErrorNo 16150)) else Inr ''...'')
      else rbind
        (case e of
           Object ob \<Rightarrow> objToString False full redactValues (depth + 1) ob
         | Array a \<Rightarrow> objToString True full redactValues (depth + 1) a
         | CodeWScope code scope \<Rightarrow>
             if redactValues then Inr [CHR 0x22, CHR ''#'', CHR ''#'', CHR ''#'', CHR 0x22]
             else rbind (objToString False False False 0 scope) (\<lambda>ob.
               Inr (''CodeWScope( '' @ cstr code @ '', '' @ ob @ '')''))
         | _ \<Rightarrow>
             if redactValues then Inr [CHR 0x22, CHR ''#'', CHR ''#'', CHR ''#'', CHR 0x22]
             else Inr (scalarToString full e))
        (\<lambda>s. Inr ((if includeFieldName then name @ '': '' else []) @ s)))"
| "objToString isArray full redactValues depth obj =
     (if obj = [] then Inr (if isArray then ''[]'' else ''{}'')
      else rbind (fieldsToString True isArray full redactValues depth obj) (\<lambda>s.
        Inr ((if isArray then ''[ '' else ''{ '') @ s @ (if isArray then '' ]'' else '' }''))))"
| "fieldsToString first isArray full redactValues depth [] = Inr []"
| "fieldsToString first isArray full redactValues depth ((n, e) # es) =
     rbind (elementToString (\<not> isArray) full redactValues depth n e) (\<lambda>s.
     rbind (fieldsToString False isArray full redactValues depth es) (\<lambda>t.
       Inr ((if first then [] else '', '') @ s @ t)))"
  by pat_completeness auto
termination
  by (relation "measure (\<lambda>x. case x of
        Inl (_, _, _, _, _, e) \<Rightarrow> 2 * size e
      | Inr (Inl (_, _, _, _, ob)) \<Rightarrow> 2 * size_list (size_prod (\<lambda>_. 0) size) ob + 1
      | Inr (Inr (_, _, _, _, _, ob)) \<Rightarrow> 2 * size_list (size_prod (\<lambda>_. 0) size) ob)") auto


subsection \<open>Decimal numerals\<close>

definition digit_val :: "char \<Rightarrow> nat" where
  "digit_val c = of_char c - 48"

definition atou :: "string \<Rightarrow> nat" where
  "atou s = foldl (\<lambda>a c. a * 10 + digit_val c) 0 s"

lemma digit_val_digit [simp]: "n < 10 \<Longrightarrow> digit_val (digit n) = n"
  by (simp add: digit_val_def digit_def)

lemma atou_snoc [simp]: "atou (s @ [c]) = atou s * 10 + digit_val c"
  by (simp add: atou_def)

lemma atou_Nil [simp]: "atou [] = 0"
  by (simp add: atou_def)

lemma ItoA_loop_append: "ItoA_loop val buf = ItoA_loop val [] @ buf"
proof (induction val arbitrary: buf rule: less_induct)
  case (less val)
  show ?case
  proof (cases "val = 0")
    case False
    then have step: "ItoA_loop val b = ItoA_loop (val div 10) [] @ digit (val mod 10) # b" for b
      using less [of "val div 10" "digit (val mod 10) # b"] by (simp add: ItoA_loop.simps [of val])
    show ?thesis
      unfolding step [of buf] step [of "[]"] by simp
  qed (simp add: ItoA_loop.simps)
qed

lemma ItoA_loop_step:
  "val \<noteq> 0 \<Longrightarrow> ItoA_loop val [] = ItoA_loop (val div 10) [] @ [digit (val mod 10)]"
  using ItoA_loop_append [of "val div 10" "[digit (val mod 10)]"]
  by (simp add: ItoA_loop.simps [of val])

lemma ItoA_eq_loop: "val \<noteq> 0 \<Longrightarrow> ItoA val = ItoA_loop val []"
  by (simp add: ItoA_def ItoA_loop_step ItoA_loop.simps [of 0] div_mult2_eq [symmetric])

lemma atou_ItoA_loop: "atou (ItoA_loop val []) = val"
proof (induction val rule: less_induct)
  case (less val)
  then show ?case
    by (cases "val = 0") (simp_all add: ItoA_loop_step ItoA_loop.simps [of 0])
qed

lemma set_ItoA_loop: "set (ItoA_loop val []) \<subseteq> digit ` {..<10}"
proof (induction val rule: less_induct)
  case (less val)
  then show ?case
    by (cases "val = 0") (auto simp: ItoA_loop_step ItoA_loop.simps [of 0])
qed

lemma set_ItoA: "set (ItoA val) \<subseteq> digit ` {..<10}"
  using set_ItoA_loop [of val] by (cases "val = 0") (auto simp: ItoA_eq_loop ItoA_def)

lemma atou_ItoA [simp]: "atou (ItoA val) = val"
  by (cases "val = 0") (simp_all add: ItoA_eq_loop atou_ItoA_loop, simp add: ItoA_def atou_def)

lemma minus_not_digit: "CHR ''-'' \<notin> digit ` {..<10}"
proof -
  have "of_char (digit n) \<noteq> (of_char CHR ''-'' :: nat)" if "n < 10" for n
    using that by (simp add: digit_def)
  then show ?thesis
    by (metis imageE lessThan_iff)
qed

lemma hd_ItoA: "ItoA v \<noteq> ''-'' @ s"
  using set_ItoA [of v] minus_not_digit by (auto dest: sym)

lemma digit_inject: "\<lbrakk>m < 10; n < 10; digit m = digit n\<rbrakk> \<Longrightarrow> m = n"
  by (metis digit_val_digit)

lemma hd_ItoA_loop: "val \<noteq> 0 \<Longrightarrow> hd (ItoA_loop val []) \<noteq> digit 0"
proof (induction val rule: less_induct)
  case (less val)
  show ?case
  proof (cases "val < 10")
    case True
    then show ?thesis
      using less.prems digit_inject [of val 0] by (auto simp: ItoA_loop_step ItoA_loop.simps [of 0])
  next
    case False
    then have "val div 10 \<noteq> 0" "val div 10 < val"
      by (simp_all add: div_eq_0_iff)
    moreover have "ItoA_loop (val div 10) [] \<noteq> []"
      using ItoA_loop_step [OF \<open>val div 10 \<noteq> 0\<close>] by simp
    ultimately show ?thesis
      using less.IH [of "val div 10"] less.prems
      by (simp add: ItoA_loop_step [of val] hd_append2)
  qed
qed

lemma ItoA_inject: "ItoA m = ItoA n \<longleftrightarrow> m = n"
  by (metis atou_ItoA)

lemma appendIntegral_inject:
  assumes "- (2 ^ 63) \<le> i" "i < 2 ^ 63" "- (2 ^ 63) \<le> j" "j < 2 ^ 63"
  shows "appendIntegral i = appendIntegral j \<longleftrightarrow> i = j"
proof
  have sint: "sint (word_of_int k :: 64 word) = k" if "- (2 ^ 63) \<le> k" "k < 2 ^ 63" for k
    using that by (simp add: signed_of_int signed_take_bit_int_eq_self_iff)
  assume "appendIntegral i = appendIntegral j"
  then have "(word_of_int i :: 64 word) = word_of_int j"
    using hd_ItoA [of _ "ItoA _"] hd_ItoA [of _ "ItoA _", symmetric]
    by (auto simp: appendIntegral_def ItoA_inject word_unat_eq_iff [symmetric] split: if_splits)
  then show "i = j"
    using sint [of i] sint [of j] assms by metis
qed simp

text \<open>
  \<open>ItoA\<close> prints the decimal numeral of its argument: only decimal digits, no leading zero,
  and reading the digits back gives the number; the results taken from the table of the first
  thousand numbers agree with the division loop.
\<close>

theorem ItoA_decimal:
  "atou (ItoA val) = val \<and> set (ItoA val) \<subseteq> digit ` {..<10} \<and>
   (hd (ItoA val) = digit 0 \<longleftrightarrow> val = 0) \<and> ItoA val = (if val = 0 then [digit 0] else ItoA_loop val [])"
proof (cases "val = 0")
  case True
  then show ?thesis
    using atou_ItoA [of 0] set_ItoA [of 0] by (simp add: ItoA_def)
next
  case False
  then show ?thesis
    using set_ItoA [of val] hd_ItoA_loop [of val] by (simp add: ItoA_eq_loop atou_ItoA_loop)
qed

end
