(* ===== verification/Key_Order.thy ===== *)
theory Key_Order
  imports Bson
begin

text \<open>
  Keys up to the order of BSON. Two documents with \<open>woCompare a b = 0\<close> need not be equal (the
  integer 1 and the double 1.0), so \<open>woCompare\<close> is a preorder; its equivalence classes form a
  linearly ordered type. The lemma collection \<open>key_simps\<close> turns every comparison of documents
  into one of classes, where the library's reasoning about linear orders applies.
\<close>

typedef bson_key = "range (\<lambda>x. {y. woCompare x y = 0})"
  by auto

definition keyOf :: "bson_obj \<Rightarrow> bson_key" where
  "keyOf x = Abs_bson_key {y. woCompare x y = 0}"

lemma keyOf_eq_iff: "keyOf x = keyOf y \<longleftrightarrow> woCompare x y = 0"
proof -
  have "keyOf x = keyOf y \<longleftrightarrow> {z. woCompare x z = 0} = {z. woCompare y z = 0}"
    by (simp add: keyOf_def Abs_bson_key_inject)
  also have "\<dots> \<longleftrightarrow> woCompare x y = 0"
  proof
    assume "{z. woCompare x z = 0} = {z. woCompare y z = 0}"
    then show "woCompare x y = 0"
      using bson.cmp_refl [of y] by blast
  next
    assume "woCompare x y = 0"
    then have "sgn (woCompare x z) = sgn (woCompare y z)" for z
      by (rule bson.cmp_eq_left)
    then show "{z. woCompare x z = 0} = {z. woCompare y z = 0}"
      by (metis (lifting) sgn_0_0)
  qed
  finally show ?thesis .
qed

lemma keyOf_exhaust: "\<exists>x. k = keyOf x"
  by (cases k) (auto simp: keyOf_def)

instantiation bson_key :: linorder
begin

definition less_eq_bson_key :: "bson_key \<Rightarrow> bson_key \<Rightarrow> bool" where
  "less_eq_bson_key k l \<longleftrightarrow> (\<exists>x y. k = keyOf x \<and> l = keyOf y \<and> woCompare x y \<le> 0)"

definition less_bson_key :: "bson_key \<Rightarrow> bson_key \<Rightarrow> bool" where
  "less_bson_key k l \<longleftrightarrow> k \<le> l \<and> \<not> l \<le> k"

lemma keyOf_le_iff: "keyOf x \<le> keyOf y \<longleftrightarrow> woCompare x y \<le> 0"
proof
  assume "keyOf x \<le> keyOf y"
  then obtain a b where "woCompare x a = 0" "woCompare b y = 0" "woCompare a b \<le> 0"
    by (auto simp: less_eq_bson_key_def keyOf_eq_iff bson.cmp_flip(2) [of y])
  then show "woCompare x y \<le> 0"
    by (metis bson.cmp_trans order_refl)
qed (auto simp: less_eq_bson_key_def)

instance
proof
  fix k l m :: bson_key
  obtain x y z where xyz: "k = keyOf x" "l = keyOf y" "m = keyOf z"
    using keyOf_exhaust by metis
  show "k < l \<longleftrightarrow> k \<le> l \<and> \<not> l \<le> k"
    by (rule less_bson_key_def)
  show "k \<le> k"
    by (simp add: xyz keyOf_le_iff)
  show "k \<le> l \<Longrightarrow> l \<le> m \<Longrightarrow> k \<le> m"
    by (auto simp: xyz keyOf_le_iff intro: bson.cmp_trans)
  show "k \<le> l \<Longrightarrow> l \<le> k \<Longrightarrow> k = l"
    by (simp add: xyz keyOf_le_iff keyOf_eq_iff bson.cmp_flip(3) [of y x])
  show "k \<le> l \<or> l \<le> k"
    by (simp add: xyz keyOf_le_iff bson.cmp_total)
qed

end

named_theorems key_simps

lemma woCompare_key [key_simps]:
  "woCompare x y \<le> 0 \<longleftrightarrow> keyOf x \<le> keyOf y" "woCompare x y < 0 \<longleftrightarrow> keyOf x < keyOf y"
  "woCompare x y = 0 \<longleftrightarrow> keyOf x = keyOf y" "0 \<le> woCompare x y \<longleftrightarrow> keyOf y \<le> keyOf x"
  "0 < woCompare x y \<longleftrightarrow> keyOf y < keyOf x"
proof -
  show le: "woCompare x y \<le> 0 \<longleftrightarrow> keyOf x \<le> keyOf y" for x y
    by (simp only: keyOf_le_iff)
  show eq: "woCompare x y = 0 \<longleftrightarrow> keyOf x = keyOf y" for x y
    by (simp only: keyOf_eq_iff)
  show less: "woCompare x y < 0 \<longleftrightarrow> keyOf x < keyOf y" for x y
    using le [of x y] eq [of x y] by (simp add: less_le)
  show "0 \<le> woCompare x y \<longleftrightarrow> keyOf y \<le> keyOf x"
    using bson.cmp_flip(3) [of y x] le [of y x] by blast
  show "0 < woCompare x y \<longleftrightarrow> keyOf y < keyOf x"
    using bson.cmp_flip(1) [of y x] less [of y x] by blast
qed


subsection \<open>Keys with one field\<close>

text \<open>The keys of a shard key with the single field \<open>a\<close>: the two ends and the integers.\<close>

definition min_key :: bson_obj where
  "min_key = [(''a'', MinKey)]"

definition max_key :: bson_obj where
  "max_key = [(''a'', MaxKey)]"

definition int_key :: "32 word \<Rightarrow> bson_obj" where
  "int_key n = [(''a'', NumberInt n)]"

lemma one_field_shape [simp]:
  "int_key n \<noteq> []" "min_key \<noteq> []" "max_key \<noteq> []"
  "map fst (int_key n) = [''a'']" "map fst min_key = [''a'']" "map fst max_key = [''a'']"
  by (simp_all add: int_key_def min_key_def max_key_def)

lemma memcmp_refl: "memcmp n s s = 0"
proof (induction s arbitrary: n)
  case (Cons c s)
  then show ?case
    by (cases n) simp_all
qed simp

lemma stringdata_compare_refl [simp]: "stringdata_compare s s = 0"
  by (simp add: stringdata_compare_def Let_def memcmp_refl)

lemma one_field_compare [simp]:
  "woCompare (int_key m) (int_key n) = compareInts m n"
  "woCompare min_key (int_key n) < 0" "woCompare (int_key n) max_key < 0"
  "0 < woCompare (int_key n) min_key" "0 < woCompare max_key (int_key n)"
  "woCompare min_key max_key < 0" "0 < woCompare max_key min_key"
  by (simp_all add: int_key_def min_key_def max_key_def woCompareElement_def compareElements.simps)

lemma one_field_keys [simp]:
  "keyOf (int_key m) < keyOf (int_key n) \<longleftrightarrow> sint m < sint n"
  "keyOf (int_key m) \<le> keyOf (int_key n) \<longleftrightarrow> sint m \<le> sint n"
  "keyOf (int_key m) = keyOf (int_key n) \<longleftrightarrow> m = n"
  "keyOf min_key < keyOf (int_key n)" "keyOf (int_key n) < keyOf max_key"
  "keyOf min_key < keyOf max_key" "keyOf min_key \<le> keyOf (int_key n)"
  "keyOf (int_key n) \<le> keyOf max_key" "keyOf min_key \<le> keyOf max_key"
  using one_field_compare
  by (simp_all flip: woCompare_key add: compareInts_cmp3 cmp3_def less_imp_le,
    auto intro: signed_word_eqI)


end
