(* ===== verification/Chunk_Type.thy ===== *)
theory Chunk_Type
  imports Chunk_Version Bson_String Key_Order
begin

text \<open>
  Chunk ranges and chunk documents (\<open>src/mongo/s/catalog/type_chunk.h\<close>, \<open>type_chunk.cpp\<close>): the
  half-open range of a chunk, the document of \<open>config.chunks\<close> and of the per-collection cache
  collection of a shard, their parsing, printing and validation. A shard id is its string. The
  debug-only assertion of the range constructor is left out.
\<close>

type_synonym shard_id = string

definition ShardId_isValid :: "shard_id \<Rightarrow> bool" where
  "ShardId_isValid s = (s \<noteq> [])"

subsection \<open>ChunkRange\<close>

record chunk_range =
  minKey :: bson_obj
  maxKey :: bson_obj

definition extractObject :: "bson_obj \<Rightarrow> string \<Rightarrow> bson_obj result" where
  "extractObject obj fieldName =
     rbind (bsonExtractTypedField obj fieldName TObject) (\<lambda>e.
       case e of
         Object ob \<Rightarrow> if ob = [] then Inl (Error BadValue) else Inr ob
       | _ \<Rightarrow> Inl Fatal)"

definition ChunkRange_fromBSON :: "bson_obj \<Rightarrow> chunk_range result" where
  "ChunkRange_fromBSON obj =
     rbind (extractObject obj ''min'') (\<lambda>minK.
     rbind (extractObject obj ''max'') (\<lambda>maxK.
       if woCompare minK maxK \<ge> 0 then Inl (Error FailedToParse)
       else Inr \<lparr>minKey = minK, maxKey = maxK\<rparr>))"

definition containsKey :: "chunk_range \<Rightarrow> bson_obj \<Rightarrow> bool" where
  "containsKey r key = (woCompare (minKey r) key \<le> 0 \<and> woCompare key (maxKey r) < 0)"

definition ChunkRange_append :: "chunk_range \<Rightarrow> bson_obj \<Rightarrow> bson_obj" where
  "ChunkRange_append r b = b @ [(''min'', Object (minKey r)), (''max'', Object (maxKey r))]"

definition range_equal :: "chunk_range \<Rightarrow> chunk_range \<Rightarrow> bool" where
  "range_equal r other =
     (woCompare (minKey r) (minKey other) = 0 \<and> woCompare (maxKey r) (maxKey other) = 0)"

definition covers :: "chunk_range \<Rightarrow> chunk_range \<Rightarrow> bool" where
  "covers r other =
     (woCompare (minKey r) (minKey other) \<le> 0 \<and> woCompare (maxKey other) (maxKey r) \<le> 0)"

definition overlapWith :: "chunk_range \<Rightarrow> chunk_range \<Rightarrow> chunk_range option" where
  "overlapWith r other =
     (if woCompare (maxKey other) (minKey r) \<le> 0 \<or> woCompare (maxKey r) (minKey other) \<le> 0 then None
      else Some \<lparr>minKey = (if woCompare (minKey r) (minKey other) \<le> 0 then minKey other else minKey r),
                 maxKey = (if woCompare (maxKey r) (maxKey other) \<le> 0 then maxKey r else maxKey other)\<rparr>)"

definition unionWith :: "chunk_range \<Rightarrow> chunk_range \<Rightarrow> chunk_range" where
  "unionWith r other =
     \<lparr>minKey = (if woCompare (minKey r) (minKey other) \<le> 0 then minKey r else minKey other),
      maxKey = (if woCompare (maxKey r) (maxKey other) \<le> 0 then maxKey other else maxKey r)\<rparr>"

subsection \<open>ChunkType\<close>

record chunk_type =
  chunk_ns :: "string option"
  chunk_min :: "bson_obj option"
  chunk_max :: "bson_obj option"
  chunk_version :: "chunk_version option"
  chunk_shard :: "shard_id option"
  chunk_jumbo :: "bool option"

definition ChunkType_empty :: chunk_type where
  "ChunkType_empty = \<lparr>chunk_ns = None, chunk_min = None, chunk_max = None, chunk_version = None,
     chunk_shard = None, chunk_jumbo = None\<rparr>"

definition ChunkType :: "string \<Rightarrow> chunk_range \<Rightarrow> chunk_version \<Rightarrow> shard_id \<Rightarrow> chunk_type" where
  "ChunkType nss rng version shardId =
     \<lparr>chunk_ns = Some nss, chunk_min = Some (minKey rng), chunk_max = Some (maxKey rng),
      chunk_version = Some version, chunk_shard = Some shardId, chunk_jumbo = None\<rparr>"

definition fromConfigBSON :: "bson_obj \<Rightarrow> chunk_type result" where
  "fromConfigBSON source =
     rbind (bsonExtractStringField source ''ns'') (\<lambda>chunkNS.
     rbind (ChunkRange_fromBSON source) (\<lambda>chunkRange.
     rbind (bsonExtractStringField source ''shard'') (\<lambda>chunkShard.
     rbind (case bsonExtractBooleanField source ''jumbo'' of
              Inr chunkJumbo \<Rightarrow> Inr (Some chunkJumbo)
            | Inl (Error NoSuchKey) \<Rightarrow> Inr None
            | Inl status \<Rightarrow> Inl status) (\<lambda>jumbo.
     rbind (parseFromBSONForChunk source) (\<lambda>version.
       Inr \<lparr>chunk_ns = Some chunkNS, chunk_min = Some (minKey chunkRange),
            chunk_max = Some (maxKey chunkRange), chunk_version = Some version,
            chunk_shard = Some chunkShard, chunk_jumbo = jumbo\<rparr>)))))"

fun genID_fields :: "bson_obj \<Rightarrow> string result" where
  "genID_fields [] = Inr []"
| "genID_fields ((n, e) # es) =
     rbind (elementToString False True False 0 n e) (\<lambda>s.
     rbind (genID_fields es) (\<lambda>t. Inr (n @ ''_'' @ s @ t)))"

definition genID :: "string \<Rightarrow> bson_obj \<Rightarrow> string result" where
  "genID ns ob = rbind (genID_fields ob) (\<lambda>s. Inr (ns @ ''-'' @ s))"

definition getName :: "chunk_type \<Rightarrow> string result" where
  "getName c =
     (case chunk_ns c of
        None \<Rightarrow> Inl Fatal
      | Some ns \<Rightarrow> (case chunk_min c of None \<Rightarrow> Inl Fatal | Some mn \<Rightarrow> genID ns mn))"

definition getJumbo :: "chunk_type \<Rightarrow> bool" where
  "getJumbo c = (case chunk_jumbo c of Some b \<Rightarrow> b | None \<Rightarrow> False)"

definition opt_field :: "string \<Rightarrow> ('a \<Rightarrow> bson_value) \<Rightarrow> 'a option \<Rightarrow> bson_obj" where
  "opt_field n f x = (case x of Some a \<Rightarrow> [(n, f a)] | None \<Rightarrow> [])"

definition toConfigBSON :: "chunk_type \<Rightarrow> bson_obj result" where
  "toConfigBSON c =
     rbind (if chunk_ns c \<noteq> None \<and> chunk_min c \<noteq> None
            then rbind (getName c) (\<lambda>n. Inr [(''_id'', String n)]) else Inr []) (\<lambda>b.
     (let b1 = b @ opt_field ''ns'' String (chunk_ns c) @ opt_field ''min'' Object (chunk_min c)
                @ opt_field ''max'' Object (chunk_max c) @ opt_field ''shard'' String (chunk_shard c)
      in rbind (case chunk_version c of Some v \<Rightarrow> appendForChunk v b1 | None \<Rightarrow> Inr b1) (\<lambda>b2.
           Inr (b2 @ (if chunk_jumbo c \<noteq> None then [(''jumbo'', Bool (getJumbo c))] else [])))))"

definition fromShardBSON :: "bson_obj \<Rightarrow> oid \<Rightarrow> chunk_type result" where
  "fromShardBSON source e =
     rbind (extractObject source ''_id'') (\<lambda>minK.
     rbind (extractObject source ''max'') (\<lambda>maxK.
       if woCompare minK maxK \<ge> 0 then Inl (Error FailedToParse)
       else
         rbind (bsonExtractStringField source ''shard'') (\<lambda>chunkShard.
         rbind (parseFromBSONWithFieldAndSetEpoch source ''lastmod'' e) (\<lambda>version.
           Inr \<lparr>chunk_ns = None, chunk_min = Some minK, chunk_max = Some maxK,
                chunk_version = Some version, chunk_shard = Some chunkShard, chunk_jumbo = None\<rparr>))))"

definition toShardBSON :: "chunk_type \<Rightarrow> bson_obj result" where
  "toShardBSON c =
     (case (chunk_min c, chunk_max c, chunk_shard c, chunk_version c) of
        (Some mn, Some mx, Some sh, Some v) \<Rightarrow>
          Inr [(''_id'', Object mn), (''max'', Object mx), (''shard'', String sh),
               (''lastmod'', Timestamp (combined v))]
      | _ \<Rightarrow> Inl Fatal)"

definition setNS :: "string \<Rightarrow> chunk_type \<Rightarrow> chunk_type result" where
  "setNS ns c = rbind (invariant (ns \<noteq> [])) (\<lambda>_. Inr (c\<lparr>chunk_ns := Some ns\<rparr>))"

definition setMin :: "bson_obj \<Rightarrow> chunk_type \<Rightarrow> chunk_type result" where
  "setMin mn c = rbind (invariant (mn \<noteq> [])) (\<lambda>_. Inr (c\<lparr>chunk_min := Some mn\<rparr>))"

definition setMax :: "bson_obj \<Rightarrow> chunk_type \<Rightarrow> chunk_type result" where
  "setMax mx c = rbind (invariant (mx \<noteq> [])) (\<lambda>_. Inr (c\<lparr>chunk_max := Some mx\<rparr>))"

definition setVersion :: "chunk_version \<Rightarrow> chunk_type \<Rightarrow> chunk_type result" where
  "setVersion v c = rbind (invariant (isSet v)) (\<lambda>_. Inr (c\<lparr>chunk_version := Some v\<rparr>))"

definition setShard :: "shard_id \<Rightarrow> chunk_type \<Rightarrow> chunk_type result" where
  "setShard s c = rbind (invariant (ShardId_isValid s)) (\<lambda>_. Inr (c\<lparr>chunk_shard := Some s\<rparr>))"

definition setJumbo :: "bool \<Rightarrow> chunk_type \<Rightarrow> chunk_type" where
  "setJumbo b c = c\<lparr>chunk_jumbo := Some b\<rparr>"

fun fieldNamesMatch :: "bson_obj \<Rightarrow> bson_obj \<Rightarrow> bool" where
  "fieldNamesMatch ((m, _) # ms) ((n, _) # ns) =
     (if strcmp m n \<noteq> 0 then False else fieldNamesMatch ms ns)"
| "fieldNamesMatch _ _ = True"

definition validate :: "chunk_type \<Rightarrow> unit result" where
  "validate c =
     (case chunk_min c of None \<Rightarrow> Inl (Error NoSuchKey) | Some mn \<Rightarrow>
      if mn = [] then Inl (Error NoSuchKey) else
      case chunk_max c of None \<Rightarrow> Inl (Error NoSuchKey) | Some mx \<Rightarrow>
      if mx = [] then Inl (Error NoSuchKey) else
      case chunk_version c of None \<Rightarrow> Inl (Error NoSuchKey) | Some v \<Rightarrow>
      if \<not> isSet v then Inl (Error NoSuchKey) else
      case chunk_shard c of None \<Rightarrow> Inl (Error NoSuchKey) | Some sh \<Rightarrow>
      if \<not> ShardId_isValid sh then Inl (Error NoSuchKey)
      else if nFields mn \<noteq> nFields mx then Inl (Error BadValue)
      else if \<not> fieldNamesMatch mn mx then Inl (Error BadValue)
      else if woCompare mn mx \<ge> 0 then Inl (Error BadValue)
      else Inr ())"


subsection \<open>Range algebra\<close>

definition valid_range :: "chunk_range \<Rightarrow> bool" where
  "valid_range r = (woCompare (minKey r) (maxKey r) < 0)"

named_theorems range_defs

lemmas [range_defs] = valid_range_def containsKey_def covers_def overlapWith_def unionWith_def
  range_equal_def

abbreviation lo :: "chunk_range \<Rightarrow> bson_key" where
  "lo r \<equiv> keyOf (minKey r)"

abbreviation hi :: "chunk_range \<Rightarrow> bson_key" where
  "hi r \<equiv> keyOf (maxKey r)"

lemma containsKey_key: "containsKey r k \<longleftrightarrow> keyOf k \<in> {lo r..<hi r}"
  by (simp add: containsKey_def key_simps)

text \<open>The keys of a range, as a set of key classes; every class has a document.\<close>

definition keys :: "chunk_range \<Rightarrow> bson_key set" where
  "keys r = {lo r..<hi r}"

lemma containsKey_keys: "containsKey r k \<longleftrightarrow> keyOf k \<in> keys r"
  by (simp add: keys_def containsKey_key)

lemma keys_eq: "keys r = keyOf ` {k. containsKey r k}"
  using keyOf_exhaust by (force simp: containsKey_keys)

lemma keys_nonempty: "valid_range r \<Longrightarrow> lo r \<in> keys r"
  by (simp add: keys_def valid_range_def key_simps)

text \<open>
  C26: on non-empty ranges the range operations are the set operations on the keys:
  \<open>covers\<close> is inclusion, \<open>overlapWith\<close> yields the intersection and nothing when it is empty,
  and \<open>unionWith\<close> yields the smallest range that includes both.
\<close>

theorem range_algebra:
  assumes "valid_range r" "valid_range q"
  shows "(covers r q \<longleftrightarrow> keys q \<subseteq> keys r) \<and>
    (case overlapWith r q of
       None \<Rightarrow> keys r \<inter> keys q = {}
     | Some s \<Rightarrow> valid_range s \<and> keys s = keys r \<inter> keys q) \<and>
    keys r \<union> keys q \<subseteq> keys (unionWith r q) \<and>
    (\<forall>s. valid_range s \<and> keys r \<union> keys q \<subseteq> keys s \<longrightarrow> covers s (unionWith r q))"
  using assms
  by (auto simp: range_defs keys_def key_simps)


theorem range_algebra_witness:
  "keys \<lparr>minKey = int_key 3, maxKey = int_key 5\<rparr>
     = keys \<lparr>minKey = int_key 1, maxKey = int_key 5\<rparr> \<inter> keys \<lparr>minKey = int_key 3, maxKey = int_key 9\<rparr>"
  using range_algebra [of "\<lparr>minKey = int_key 1, maxKey = int_key 5\<rparr>"
      "\<lparr>minKey = int_key 3, maxKey = int_key 9\<rparr>"]
  by (simp add: range_defs compareInts_def)

subsection \<open>Parsing\<close>

lemma extractObject_iff:
  "extractObject obj n = Inr ob \<longleftrightarrow> getField obj n = Some (Object ob) \<and> ob \<noteq> []"
proof (cases "getField obj n")
  case (Some v)
  then show ?thesis
    by (cases v) (auto simp: extractObject_def bsonExtractTypedField_def bsonExtractField_def)
qed (simp add: extractObject_def bsonExtractTypedField_def bsonExtractField_def)

lemma bsonExtractStringField_iff:
  "bsonExtractStringField obj n = Inr s \<longleftrightarrow> getField obj n = Some (String s)"
proof (cases "getField obj n")
  case (Some v)
  then show ?thesis
    by (cases v)
      (auto simp: bsonExtractStringField_def bsonExtractTypedField_def bsonExtractField_def)
qed (simp add: bsonExtractStringField_def bsonExtractTypedField_def bsonExtractField_def)

text \<open>
  Parsing a range succeeds exactly on documents whose \<open>min\<close> and \<open>max\<close> are non-empty objects
  with \<open>min\<close> below \<open>max\<close>, and then returns these; so a parsed range is never empty, and writing
  a range and parsing it gives it back.
\<close>

theorem ChunkRange_fromBSON_iff:
  "(ChunkRange_fromBSON obj = Inr r \<longleftrightarrow>
     getField obj ''min'' = Some (Object (minKey r)) \<and> getField obj ''max'' = Some (Object (maxKey r))
     \<and> minKey r \<noteq> [] \<and> maxKey r \<noteq> [] \<and> valid_range r) \<and>
   (ChunkRange_fromBSON (ChunkRange_append r []) = Inr r \<longleftrightarrow>
     minKey r \<noteq> [] \<and> maxKey r \<noteq> [] \<and> valid_range r)"
  by (cases r)
    (auto simp: ChunkRange_fromBSON_def rbind_Inr_iff extractObject_iff valid_range_def
      ChunkRange_append_def)


subsection \<open>Chunk documents\<close>

lemma fieldNamesMatch_iff:
  "nFields a = nFields b \<and> fieldNamesMatch a b \<longleftrightarrow> map fst a = map fst b"
  by (induction a b rule: fieldNamesMatch.induct)
    (auto simp: strcmp_def cmp3_def nFields_def neq_Nil_conv split: if_splits)

lemma validate_iff:
  "validate c = Inr () \<longleftrightarrow>
     (\<exists>mn mx v sh. chunk_min c = Some mn \<and> chunk_max c = Some mx \<and> chunk_version c = Some v
        \<and> chunk_shard c = Some sh \<and> mn \<noteq> [] \<and> mx \<noteq> [] \<and> isSet v \<and> sh \<noteq> []
        \<and> map fst mn = map fst mx \<and> woCompare mn mx < 0)"
  by (cases "chunk_min c"; cases "chunk_max c"; cases "chunk_version c"; cases "chunk_shard c")
    (simp_all add: validate_def ShardId_isValid_def not_le flip: fieldNamesMatch_iff)

lemma fromConfigBSON_fields:
  assumes "getField b ''ns'' = Some (String ns)" "getField b ''min'' = Some (Object mn)"
    "getField b ''max'' = Some (Object mx)" "getField b ''shard'' = Some (String sh)"
    "getField b ''jumbo'' = map_option Bool j" "fromBSON b ''lastmod'' = (v, True)"
    "mn \<noteq> []" "mx \<noteq> []" "woCompare mn mx < 0"
  shows "fromConfigBSON b = Inr \<lparr>chunk_ns = Some ns, chunk_min = Some mn, chunk_max = Some mx,
     chunk_version = Some v, chunk_shard = Some sh, chunk_jumbo = j\<rparr>"
proof -
  have "bsonExtractStringField b ''ns'' = Inr ns" "bsonExtractStringField b ''shard'' = Inr sh"
    by (simp_all add: bsonExtractStringField_iff assms)
  moreover have "ChunkRange_fromBSON b = Inr \<lparr>minKey = mn, maxKey = mx\<rparr>"
    using assms by (simp add: ChunkRange_fromBSON_def rbind_Inr_iff extractObject_iff)
  moreover have "bsonExtractBooleanField b ''jumbo''
      = (case j of Some x \<Rightarrow> Inr x | None \<Rightarrow> Inl (Error NoSuchKey))"
    using assms by (cases j) (simp_all add: bsonExtractBooleanField_def bsonExtractTypedField_def
        bsonExtractField_def)
  moreover have "parseFromBSONForChunk b = Inr v"
    by (simp add: parseFromBSONForChunk_def assms)
  ultimately show ?thesis
    by (cases j) (simp_all add: fromConfigBSON_def)
qed

text \<open>
  C29: a chunk that passes \<open>validate\<close> survives persistence. Its \<open>config.chunks\<close> document parses
  back to the chunk itself, and its document in the cache collection of a shard parses back,
  with the epoch of its version, to the chunk without namespace and jumbo flag.
\<close>

theorem chunk_roundtrips:
  assumes "validate c = Inr ()" "chunk_ns c = Some ns" "toConfigBSON c = Inr b"
  shows "fromConfigBSON b = Inr c \<and>
    rbind (toShardBSON c) (\<lambda>d. fromShardBSON d (epoch (the (chunk_version c))))
      = Inr (c\<lparr>chunk_ns := None, chunk_jumbo := None\<rparr>)"
proof -
  obtain mn mx v sh where c: "chunk_min c = Some mn" "chunk_max c = Some mx"
    "chunk_version c = Some v" "chunk_shard c = Some sh" "mn \<noteq> []" "mx \<noteq> []" "woCompare mn mx < 0"
    using assms(1) unfolding validate_iff by blast
  obtain n where "getName c = Inr n"
    using assms(2,3) c(1) by (auto simp: toConfigBSON_def rbind_Inr_iff)
  then have b: "b = [(''_id'', String n), (''ns'', String ns), (''min'', Object mn),
      (''max'', Object mx), (''shard'', String sh), (''lastmod'', Timestamp (combined v)),
      (''lastmodEpoch'', JstOID (epoch v))]
      @ (if chunk_jumbo c \<noteq> None then [(''jumbo'', Bool (getJumbo c))] else [])"
    using assms(2,3) c by (simp add: toConfigBSON_def opt_field_def appendForChunk_def
        addToBSON_def toBSONWithPrefix_def)
  have "fromConfigBSON b = Inr \<lparr>chunk_ns = Some ns, chunk_min = Some mn, chunk_max = Some mx,
      chunk_version = Some v, chunk_shard = Some sh, chunk_jumbo = chunk_jumbo c\<rparr>"
    by (rule fromConfigBSON_fields)
      (simp_all add: b c fromBSON_def fromDeprecatedLong_def getJumbo_def split: option.split)
  moreover have "rbind (toShardBSON c) (\<lambda>d. fromShardBSON d (epoch v))
      = Inr (c\<lparr>chunk_ns := None, chunk_jumbo := None\<rparr>)"
    using c by (cases c) (simp add: toShardBSON_def fromShardBSON_def
        extractObject_def bsonExtractTypedField_def bsonExtractField_def bsonExtractStringField_def
        parseFromBSONWithFieldAndSetEpoch_def fromBSON_def fromDeprecatedLong_def ChunkVersion_def)
  ultimately show ?thesis
    using c assms(2) by (cases c) simp
qed


lemma genID_scalar:
  assumes "\<not> (case e of Object _ \<Rightarrow> True | Array _ \<Rightarrow> True | CodeWScope _ _ \<Rightarrow> True | _ \<Rightarrow> False)"
  shows "genID ns [(f, e)] = Inr (ns @ ''-'' @ f @ ''_'' @ scalarToString True e)"
  using assms by (cases e) (simp_all add: genID_def elementToString.simps maxToStringRecursionDepth_def)

lemma sint_range: "- (2 ^ 63) \<le> sint (i :: 32 word)" "sint (i :: 32 word) < 2 ^ 63"
  "- (2 ^ 63) \<le> sint (a :: 64 word)" "sint (a :: 64 word) < 2 ^ 63"
  using sint_greater_eq [of i] sint_less [of i] sint_greater_eq [of a] sint_less [of a] by simp_all

lemmas appendIntegral_sint_inject =
  appendIntegral_inject [OF sint_range(1,2) sint_range(1,2)]
  appendIntegral_inject [OF sint_range(1,2) sint_range(3,4)]
  appendIntegral_inject [OF sint_range(3,4) sint_range(3,4)]

lemma sint_scast: "sint (scast (i :: 32 word) :: 64 word) = sint i"
  using sint_range(1,2) [of i] by (simp add: signed_scast_eq signed_take_bit_int_eq_self_iff)

lemma genID_int_key: "genID ns (int_key n) = Inr (ns @ ''-a_'' @ appendIntegral (sint n))"
  by (simp add: genID_def int_key_def elementToString.simps maxToStringRecursionDepth_def)

lemma getName_int_key:
  "\<lbrakk>chunk_ns c = Some ns; chunk_min c = Some (int_key n)\<rbrakk>
     \<Longrightarrow> getName c = Inr (ns @ ''-a_'' @ appendIntegral (sint n))"
  by (simp add: getName_def genID_int_key)

definition sample_chunk :: chunk_type where
  "sample_chunk = (ChunkType ''d.c'' \<lparr>minKey = int_key 1, maxKey = int_key 5\<rparr>
     (ChunkVersion 1 0 7) ''s0'')\<lparr>chunk_jumbo := Some True\<rparr>"

theorem chunk_roundtrips_witness:
  "\<exists>b. toConfigBSON sample_chunk = Inr b \<and> fromConfigBSON b = Inr sample_chunk"
proof -
  have "validate sample_chunk = Inr ()"
    by (simp add: validate_iff sample_chunk_def ChunkType_def isSet_def  ChunkVersion_def compareInts_def)
  moreover have "chunk_ns sample_chunk = Some ''d.c''"
    by (simp add: sample_chunk_def ChunkType_def)
  moreover obtain b where "toConfigBSON sample_chunk = Inr b"
    by (simp add: toConfigBSON_def sample_chunk_def ChunkType_def getName_int_key appendForChunk_def
        addToBSON_def toBSONWithPrefix_def)
  ultimately show ?thesis
    using chunk_roundtrips by blast
qed

text \<open>
  Chunk identifiers tell integer keys apart exactly as the key order does: for a key with one
  field, two integers of any width get the same \<open>_id\<close> exactly when they compare equal, and two
  strings exactly when they are equal.
\<close>

theorem genID_distinguishes:
  "(genID ns [(f, NumberLong a)] = genID ns [(f, NumberLong b)] \<longleftrightarrow>
      woCompare [(f, NumberLong a)] [(f, NumberLong b)] = 0) \<and>
   (genID ns [(f, NumberInt i)] = genID ns [(f, NumberInt j)] \<longleftrightarrow>
      woCompare [(f, NumberInt i)] [(f, NumberInt j)] = 0) \<and>
   (genID ns [(f, NumberInt i)] = genID ns [(f, NumberLong b)] \<longleftrightarrow>
      woCompare [(f, NumberInt i)] [(f, NumberLong b)] = 0) \<and>
   (genID ns [(f, String s)] = genID ns [(f, String t)] \<longleftrightarrow> s = t)"
  by (simp add: genID_scalar appendIntegral_sint_inject sint_scast woCompareElement_def
      compareElements.simps compareLongs_cmp3 compareInts_cmp3 cmp3_def)


text \<open>
  Doubles are printed with sixteen significant digits, one too few to tell all of them apart:
  0.3 and the next double above it are different keys with the same identifier.
\<close>

lemma printf_g16_collision:
  "printf_g16 0x3FD3333333333333 = ''0.3''" "printf_g16 0x3FD3333333333334 = ''0.3''"
  by (simp_all add: printf_g16_def double_num_def double_exp_def double_frac_def dec_digits_def
      dec_exponent_def round_even_def ItoA_def ItoA_loop.simps digit_def dotted_def strip_zeros_def
      char_of_def bit_0)

lemma genID_double_collision:
  "genID ns [(f, NumberDouble 0x3FD3333333333333)] = genID ns [(f, NumberDouble 0x3FD3333333333334)] \<and>
   woCompare [(f, NumberDouble 0x3FD3333333333333)] [(f, NumberDouble 0x3FD3333333333334)] < 0"
  by (simp add: genID_scalar appendDoubleNice_def printf_g16_collision woCompareElement_def
      compareElements.simps compareDoubles_cmp3 cmp3_def double_val_def double_exp_def double_frac_def)

end
