(* ===== verification/Double_Arith.thy ===== *)
theory Double_Arith
  imports Bson_String "HOL-Library.Log_Nat"
begin

text \<open>
  Rounding of double arithmetic: the double nearest to a rational number, ties to even, for
  magnitudes in the normal range of binary64. An arithmetic operation on doubles is the exact
  operation followed by \<open>dround\<close>.
\<close>

definition bin_exponent :: "nat \<Rightarrow> nat \<Rightarrow> int" where
  "bin_exponent n d =
     (if d \<le> n then int (floorlog 2 (n div d)) - 1
      else - int (floorlog 2 ((d + n - 1) div n - 1)))"

definition dround_pos :: "nat \<Rightarrow> nat \<Rightarrow> rat" where
  "dround_pos n d =
     (let e = bin_exponent n d
      in if e \<le> 52 then of_nat (round_even (n * 2 ^ nat (52 - e)) d) / 2 ^ nat (52 - e)
         else of_nat (round_even n (d * 2 ^ nat (e - 52))) * 2 ^ nat (e - 52))"

definition dround :: "rat \<Rightarrow> rat" where
  "dround q =
     (let (n, d) = quotient_of q
      in if n = 0 then 0
         else if 0 < n then dround_pos (nat n) (nat d)
         else - dround_pos (nat (- n)) (nat d))"

lemma round_even_error:
  assumes "0 < d"
  shows "\<bar>rat_of_nat (round_even n d) - rat_of_nat n / rat_of_nat d\<bar> \<le> 1 / 2"
proof -
  define q r where "q = n div d" and "r = n mod d"
  have n: "n = q * d + r" and r: "r < d"
    using assms by (simp_all add: q_def r_def)
  have eq: "rat_of_nat n / rat_of_nat d = rat_of_nat q + rat_of_nat r / rat_of_nat d"
    using assms by (simp add: n field_simps)
  have lt: "rat_of_nat r / rat_of_nat d \<le> 1" "0 \<le> rat_of_nat r / rat_of_nat d"
    using r assms by (simp_all add: divide_le_eq)
  have rv: "round_even n d = (if 2 * r < d \<or> 2 * r = d \<and> even q then q else q + 1)"
    by (simp add: round_even_def q_def r_def Let_def)
  show ?thesis
  proof (cases "2 * r < d \<or> 2 * r = d \<and> even q")
    case True
    then have "2 * rat_of_nat r \<le> rat_of_nat d"
      by (metis of_nat_le_iff of_nat_mult of_nat_numeral order_le_less)
    then have "rat_of_nat r / rat_of_nat d \<le> 1 / 2"
      using assms by (simp add: field_simps)
    then show ?thesis
      unfolding eq rv if_P [OF True] using lt by (simp add: abs_le_iff)
  next
    case False
    then have "d \<le> 2 * r"
      by auto
    then have "rat_of_nat d \<le> 2 * rat_of_nat r"
      by (metis of_nat_le_iff of_nat_mult of_nat_numeral)
    then have "1 / 2 \<le> rat_of_nat r / rat_of_nat d"
      using assms by (simp add: field_simps)
    then show ?thesis
      unfolding eq rv if_not_P [OF False] using lt by (simp add: abs_le_iff)
  qed
qed

lemma round_even_exact: "0 < d \<Longrightarrow> round_even (n * d) d = n"
  by (simp add: round_even_def)

lemma bin_exponent_low:
  assumes "0 < n" "n < d"
  shows "bin_exponent n d < 0" "d \<le> n * 2 ^ nat (- bin_exponent n d)"
proof -
  define c where "c = (d + n - 1) div n"
  have "n + n \<le> d + n - 1"
    using assms by simp
  then have c2: "2 \<le> c"
    using assms(1) by (simp add: c_def less_eq_div_iff_mult_less_eq)
  have e: "bin_exponent n d = - int (floorlog 2 (c - 1))"
    using assms by (simp add: bin_exponent_def c_def)
  have fl: "c - 1 < 2 ^ floorlog 2 (c - 1)"
    using floorlog_bounds [of "c - 1" 2] c2 by simp
  then have "floorlog 2 (c - 1) \<noteq> 0"
    using c2 by (metis Suc_1 Suc_leD diff_is_0_eq' less_one not_less_eq_eq plus_1_eq_Suc power_0 diff_Suc_1 le_add_diff_inverse)
  then show "bin_exponent n d < 0"
    by (simp add: e)
  note fl
  then have "c \<le> 2 ^ floorlog 2 (c - 1)"
    by linarith
  moreover have "d \<le> n * c"
  proof -
    have "d + n - 1 < n * (c + 1)"
      using assms(1) dividend_less_times_div [of n "d + n - 1"] by (simp add: c_def algebra_simps)
    then show ?thesis
      by simp
  qed
  ultimately show "d \<le> n * 2 ^ nat (- bin_exponent n d)"
    by (simp add: e) (meson le_trans mult_le_mono2)
qed

lemma bin_exponent_high:
  assumes "0 < d" "d \<le> n"
  shows "0 \<le> bin_exponent n d" "d * 2 ^ nat (bin_exponent n d) \<le> n"
proof -
  define c where "c = n div d"
  have c: "0 < c"
    using assms by (simp add: c_def div_greater_zero_iff)
  have fl: "0 < floorlog 2 c"
    using c by (simp add: floorlog_def)
  have e: "nat (bin_exponent n d) = floorlog 2 c - 1" "bin_exponent n d = int (floorlog 2 c) - 1"
    using assms by (simp_all add: bin_exponent_def c_def)
  show "0 \<le> bin_exponent n d"
    using fl by (simp add: e)
  have "2 ^ (floorlog 2 c - 1) \<le> c"
    using floorlog_bounds [of c 2] c by simp
  then have "d * 2 ^ (floorlog 2 c - 1) \<le> d * c"
    by (rule mult_le_mono2)
  also have "\<dots> \<le> n"
    by (simp add: c_def)
  finally show "d * 2 ^ nat (bin_exponent n d) \<le> n"
    by (simp only: e(1))
qed

lemma bin_exponent_le:
  assumes "0 < n" "0 < d"
  shows "2 powi bin_exponent n d \<le> rat_of_nat n / rat_of_nat d"
proof (cases "d \<le> n")
  case True
  note high = bin_exponent_high [OF assms(2) True]
  have "rat_of_nat (d * 2 ^ nat (bin_exponent n d)) \<le> rat_of_nat n"
    unfolding of_nat_le_iff by (rule high(2))
  then show ?thesis
    using assms high(1) by (simp add: power_int_def field_simps)
next
  case False
  note low = bin_exponent_low [OF assms(1), of d]
  have "rat_of_nat d \<le> rat_of_nat (n * 2 ^ nat (- bin_exponent n d))"
    unfolding of_nat_le_iff using low(2) False by simp
  then show ?thesis
    using assms low(1) False by (simp add: power_int_def field_simps power_inverse)
qed

lemma dround_pos_powi:
  fixes n d :: nat
  defines "e \<equiv> bin_exponent n d"
  assumes "0 < d"
  obtains m where "dround_pos n d = rat_of_nat m * 2 powi (e - 52)"
    "\<bar>rat_of_nat m - rat_of_nat n / rat_of_nat d * 2 powi (52 - e)\<bar> \<le> 1 / 2"
proof (cases "e \<le> 52")
  case True
  then show ?thesis
    using round_even_error [OF assms(2), of "n * 2 ^ nat (52 - e)"]
    by (intro that [of "round_even (n * 2 ^ nat (52 - e)) d"])
      (simp_all add: dround_pos_def e_def [symmetric] power_int_def field_simps power_inverse)
next
  case False
  then show ?thesis
    using round_even_error [of "d * 2 ^ nat (e - 52)" n] assms(2)
    by (intro that [of "round_even n (d * 2 ^ nat (e - 52))"])
      (simp_all add: dround_pos_def e_def [symmetric] power_int_def field_simps power_inverse)
qed

text \<open>The relative error of rounding to nearest is at most \<open>2 ^ -53\<close>.\<close>

lemma dround_pos_error:
  assumes "0 < n" "0 < d"
  shows "\<bar>dround_pos n d - rat_of_nat n / rat_of_nat d\<bar> \<le> rat_of_nat n / rat_of_nat d / 2 ^ 53"
proof -
  define e where "e = bin_exponent n d"
  define q where "q = rat_of_nat n / rat_of_nat d"
  obtain m where m: "dround_pos n d = rat_of_nat m * 2 powi (e - 52)"
    "\<bar>rat_of_nat m - q * 2 powi (52 - e)\<bar> \<le> 1 / 2"
    using dround_pos_powi [OF assms(2), of n] by (auto simp: e_def q_def)
  have inv: "2 powi (52 - e) * 2 powi (e - 52) = (1 :: rat)"
    by (simp flip: power_int_add)
  have "dround_pos n d - q = (rat_of_nat m - q * 2 powi (52 - e)) * 2 powi (e - 52)"
    using inv by (simp add: m(1) algebra_simps)
  then have "\<bar>dround_pos n d - q\<bar> = \<bar>rat_of_nat m - q * 2 powi (52 - e)\<bar> * 2 powi (e - 52)"
    by (simp add: abs_mult)
  also have "\<dots> \<le> 1 / 2 * 2 powi (e - 52)"
    by (rule mult_right_mono [OF m(2)]) simp
  also have "\<dots> = 2 powi e / 2 ^ 53"
    by (simp add: power_int_diff)
  also have "\<dots> \<le> q / 2 ^ 53"
    using bin_exponent_le [OF assms] by (simp add: e_def q_def divide_right_mono)
  finally show ?thesis
    by (simp only: q_def)
qed

lemma dround_error: "\<bar>dround q - q\<bar> \<le> \<bar>q\<bar> / 2 ^ 53"
proof -
  obtain n d where nd: "quotient_of q = (n, d)"
    by (cases "quotient_of q")
  have d: "0 < d" and q: "q = of_int n / of_int d"
    using nd by (auto dest: quotient_of_denom_pos quotient_of_div)
  have pos: "\<bar>dround_pos (nat k) (nat d) - of_int k / of_int d\<bar> \<le> of_int k / of_int d / 2 ^ 53"
    if "0 < k" for k :: int
    using dround_pos_error [of "nat k" "nat d"] that d by simp
  consider "n = 0" | "0 < n" | "n < 0"
    by linarith
  then show ?thesis
  proof cases
    case 3
    then show ?thesis
      using pos [of "- n"] nd d by (simp add: dround_def q abs_if split: if_splits)
  qed (use pos [of n] nd d in \<open>simp_all add: dround_def q\<close>)
qed

text \<open>Below \<open>2 ^ 53\<close>, rounding does not cross an integer.\<close>

lemma dround_pos_scaled:
  assumes "0 < n" "0 < d" "rat_of_nat n / rat_of_nat d < 2 ^ 53"
  obtains m N :: nat where "0 < N" "dround_pos n d = rat_of_nat m / rat_of_nat N"
    "\<bar>rat_of_nat m - rat_of_nat n / rat_of_nat d * rat_of_nat N\<bar> \<le> 1 / 2"
proof -
  define e where "e = bin_exponent n d"
  obtain m where m: "dround_pos n d = rat_of_nat m * 2 powi (e - 52)"
    "\<bar>rat_of_nat m - rat_of_nat n / rat_of_nat d * 2 powi (52 - e)\<bar> \<le> 1 / 2"
    using dround_pos_powi [OF assms(2), of n] by (auto simp: e_def)
  have "2 powi e < (2 :: rat) powi 53"
    using bin_exponent_le [OF assms(1,2)] assms(3) by (simp add: e_def)
  then have "e < 53"
    using power_int_increasing [of 53 e "2 :: rat"] by linarith
  then have N: "(2 :: rat) powi (52 - e) = rat_of_nat (2 ^ nat (52 - e))"
    by (simp add: power_int_def)
  moreover have "(2 :: rat) powi (e - 52) = 1 / rat_of_nat (2 ^ nat (52 - e))"
    using N power_int_minus [of "2 :: rat" "52 - e"] by (simp add: divide_inverse)
  ultimately show thesis
    using m by (intro that [of "2 ^ nat (52 - e)" m]) simp_all
qed

lemma dround_between:
  assumes "0 < q" "q < 2 ^ 53" "rat_of_nat a \<le> q" "q \<le> rat_of_nat b"
  shows "rat_of_nat a \<le> dround q" "dround q \<le> rat_of_nat b"
proof -
  obtain n d where nd: "quotient_of q = (n, d)"
    by (cases "quotient_of q")
  have d: "0 < d" and q: "q = of_int n / of_int d"
    using nd by (auto dest: quotient_of_denom_pos quotient_of_div)
  then have n: "0 < n"
    using assms(1) by (simp add: zero_less_divide_iff)
  have qn: "rat_of_nat (nat n) / rat_of_nat (nat d) = q"
    using n d q by simp
  obtain m N :: nat where N: "0 < N" "dround_pos (nat n) (nat d) = rat_of_nat m / rat_of_nat N"
    "\<bar>rat_of_nat m - q * rat_of_nat N\<bar> \<le> 1 / 2"
    by (rule dround_pos_scaled [of "nat n" "nat d", unfolded qn]) (use n d assms(2) in auto)
  have dr: "dround q = rat_of_nat m / rat_of_nat N"
    using nd n N(2) by (simp add: dround_def)
  have "rat_of_nat (a * N) \<le> q * rat_of_nat N" "q * rat_of_nat N \<le> rat_of_nat (b * N)"
    using assms(3,4) by (simp_all add: mult_right_mono)
  then have "rat_of_nat (a * N) \<le> rat_of_nat m + 1 / 2" "rat_of_nat m \<le> rat_of_nat (b * N) + 1 / 2"
    using N(3) by linarith+
  then have "rat_of_nat (2 * (a * N)) \<le> rat_of_nat (2 * m + 1)" "rat_of_nat (2 * m) \<le> rat_of_nat (2 * (b * N) + 1)"
    by simp_all
  then have "a * N \<le> m" "m \<le> b * N"
    unfolding of_nat_le_iff by linarith+
  then have "rat_of_nat (a * N) \<le> rat_of_nat m" "rat_of_nat m \<le> rat_of_nat (b * N)"
    unfolding of_nat_le_iff .
  then show "rat_of_nat a \<le> dround q" "dround q \<le> rat_of_nat b"
    using N(1) by (simp_all add: dr field_simps)
qed

lemma dround_nat: "n < 2 ^ 53 \<Longrightarrow> dround (rat_of_nat n) = rat_of_nat n"
proof (cases "n = 0")
  case True
  then show ?thesis
    by (simp add: dround_def)
next
  case False
  assume n: "n < 2 ^ 53"
  have "rat_of_nat n < rat_of_nat (2 ^ 53)"
    using n by (simp only: of_nat_less_iff)
  then show ?thesis
    using dround_between [of "rat_of_nat n" n n] False by simp
qed

end
