(* ===== verification/Chunk.thy ===== *)
theory Chunk
  imports Chunk_Type Double_Arith
begin

text \<open>
  A chunk of the routing table (\<open>src/mongo/s/chunk.h\<close>, \<open>chunk.cpp\<close>): its range, owner and
  version, and the mutable write statistics that drive auto-splitting, among them the running sum
  and count of the key prefixes written to it. The random initial value of the bytes written is
  an argument of the constructor. A local variable the code leaves uninitialised is an argument
  of the function that reads it.
\<close>

subsection \<open>Stream extraction\<close>

definition is_space :: "char \<Rightarrow> bool" where
  "is_space c = (c \<in> {CHR '' '', CHR 0x09, CHR 0x0A, CHR 0x0B, CHR 0x0C, CHR 0x0D})"

definition is_digit :: "char \<Rightarrow> bool" where
  "is_digit c = (CHR ''0'' \<le> c \<and> c \<le> CHR ''9'')"

definition split_sign :: "string \<Rightarrow> bool \<times> string" where
  "split_sign t =
     (case t of
        [] \<Rightarrow> (False, [])
      | c # r \<Rightarrow> if c = CHR ''-'' then (True, r) else if c = CHR ''+'' then (False, r) else (False, t))"

text \<open>
  \<open>istream >> x\<close> for a decimal \<open>uint64_t\<close> and \<open>int\<close>: nothing but white space leaves \<open>x\<close> as it
  is, no digits set it to zero, out of range sets it to the nearest bound.
\<close>

definition extract_u64 :: "64 word \<Rightarrow> string \<Rightarrow> 64 word" where
  "extract_u64 prior s =
     (let t = dropWhile is_space s
      in if t = [] then prior
         else let (neg, u) = split_sign t; ds = takeWhile is_digit u
              in if ds = [] then 0
                 else if 2 ^ 64 \<le> atou ds then - 1
                 else if neg then - word_of_nat (atou ds) else word_of_nat (atou ds))"

definition extract_s32 :: "32 word \<Rightarrow> string \<Rightarrow> 32 word" where
  "extract_s32 prior s =
     (let t = dropWhile is_space s
      in if t = [] then prior
         else let (neg, u) = split_sign t; ds = takeWhile is_digit u
              in if ds = [] then 0
                 else if neg then (if 2 ^ 31 < atou ds then 0x80000000 else - word_of_nat (atou ds))
                 else (if 2 ^ 31 \<le> atou ds then 0x7FFFFFFF else word_of_nat (atou ds)))"

subsection \<open>The chunk\<close>

record chunk =
  crange :: chunk_range
  shardId :: shard_id
  lastmod :: chunk_version
  jumbo :: bool
  dataWrittenBytes :: "64 word"
  split_sum :: "64 word"
  split_average :: "32 word"
  cnt :: "32 word"

abbreviation getMin :: "chunk \<Rightarrow> bson_obj" where
  "getMin c \<equiv> minKey (crange c)"

abbreviation getMax :: "chunk \<Rightarrow> bson_obj" where
  "getMax c \<equiv> maxKey (crange c)"

definition kSplitTestFactor :: "64 word" where
  "kSplitTestFactor = 5"

definition Chunk :: "64 word \<Rightarrow> chunk_type \<Rightarrow> chunk result" where
  "Chunk bytes from =
     (case validate from of
        Inl _ \<Rightarrow> Inl Fatal
      | Inr _ \<Rightarrow> Inr \<lparr>crange = \<lparr>minKey = the (chunk_min from), maxKey = the (chunk_max from)\<rparr>,
          shardId = the (chunk_shard from), lastmod = the (chunk_version from),
          jumbo = getJumbo from, dataWrittenBytes = bytes, split_sum = 0, split_average = 0,
          cnt = 0\<rparr>)"

definition Chunk_containsKey :: "chunk \<Rightarrow> bson_obj \<Rightarrow> bool" where
  "Chunk_containsKey c shardKey = (woCompare (getMin c) shardKey \<le> 0 \<and> woCompare shardKey (getMax c) < 0)"

definition addBytesWritten :: "64 word \<Rightarrow> chunk \<Rightarrow> chunk" where
  "addBytesWritten n c = c\<lparr>dataWrittenBytes := dataWrittenBytes c + n\<rparr>"

definition clearBytesWritten :: "chunk \<Rightarrow> chunk" where
  "clearBytesWritten c = c\<lparr>dataWrittenBytes := 0\<rparr>"

text \<open>The double nearest to 0.9.\<close>

definition d0_9 :: rat where
  "d0_9 = 8106479329266893 / 9007199254740992"

definition splitThreshold :: "64 word \<Rightarrow> bool \<Rightarrow> bool \<Rightarrow> 64 word" where
  "splitThreshold desiredChunkSize minIsInf maxIsInf =
     (if minIsInf \<or> maxIsInf
      then word_of_int \<lfloor>dround (dround (rat_of_nat (unat desiredChunkSize)) * d0_9)\<rfloor>
      else desiredChunkSize)"

definition shouldSplit :: "chunk \<Rightarrow> 64 word \<Rightarrow> bool \<Rightarrow> bool \<Rightarrow> bool" where
  "shouldSplit c desiredChunkSize minIsInf maxIsInf =
     (splitThreshold desiredChunkSize minIsInf maxIsInf div kSplitTestFactor \<le> dataWrittenBytes c)"

definition markAsJumbo :: "chunk \<Rightarrow> chunk" where
  "markAsJumbo c = c\<lparr>jumbo := True\<rparr>"

definition add_split_sum :: "64 word \<Rightarrow> string \<Rightarrow> chunk \<Rightarrow> chunk" where
  "add_split_sum uninit string_key c =
     c\<lparr>split_sum := split_sum c + extract_u64 uninit (take 10 string_key)\<rparr>"

text \<open>With a zero count the weights are not finite and the conversion to \<open>int\<close> is undefined.\<close>

definition update_split_average :: "32 word \<Rightarrow> string \<Rightarrow> chunk \<Rightarrow> chunk option" where
  "update_split_average uninit string_key c =
     (let double_key = extract_s32 uninit (take 10 string_key);
          n = rat_of_int (sint (cnt c));
          old_weight = dround (rat_of_int (sint (cnt c - 1)) / n);
          new_weight = dround (1 / n)
      in if cnt c = 0 then None
         else Some (c\<lparr>split_average := word_of_int (rat_trunc
           (dround (dround (rat_of_int (sint (split_average c)) * old_weight)
                  + dround (rat_of_int (sint double_key) * new_weight))))\<rparr>))"

definition add_cnt :: "chunk \<Rightarrow> chunk" where
  "add_cnt c = c\<lparr>cnt := cnt c + 1\<rparr>"


subsection \<open>Write statistics\<close>

lemma d0_9_bounds: "0 < d0_9" "d0_9 * (1 + 1 / 2 ^ 53) * (1 + 1 / 2 ^ 53) \<le> 1"
  "899 / 1000 \<le> d0_9 * (1 - 1 / 2 ^ 53) * (1 - 1 / 2 ^ 53)"
  by (simp_all add: d0_9_def)

lemma dround_bounds:
  assumes "0 \<le> q"
  shows "q * (1 - 1 / 2 ^ 53) \<le> dround q" "dround q \<le> q * (1 + 1 / 2 ^ 53)"
proof -
  have "q - q / 2 ^ 53 \<le> dround q" "dround q \<le> q + q / 2 ^ 53"
    using dround_error [of q] assms by linarith+
  then show "q * (1 - 1 / 2 ^ 53) \<le> dround q" "dround q \<le> q * (1 + 1 / 2 ^ 53)"
    by (simp_all only: right_diff_distrib distrib_left times_divide_eq_right mult_1_right)
qed

lemma threshold_bounds:
  fixes n :: nat
  defines "t \<equiv> dround (dround (rat_of_nat n) * d0_9)"
  shows "t \<le> rat_of_nat n" "899 / 1000 * rat_of_nat n \<le> t"
proof -
  define u where "u = dround (rat_of_nat n)"
  have u: "rat_of_nat n * (1 - 1 / 2 ^ 53) \<le> u" "u \<le> rat_of_nat n * (1 + 1 / 2 ^ 53)"
    unfolding u_def by (rule dround_bounds; simp)+
  have u0: "0 \<le> u"
    using u(1) by (rule order_trans [rotated]) simp
  have t: "u * d0_9 * (1 - 1 / 2 ^ 53) \<le> t" "t \<le> u * d0_9 * (1 + 1 / 2 ^ 53)"
    unfolding t_def u_def [symmetric] by (rule dround_bounds; use u0 d0_9_bounds(1) in simp)+
  have "u * d0_9 * (1 + 1 / 2 ^ 53) \<le> rat_of_nat n * (1 + 1 / 2 ^ 53) * d0_9 * (1 + 1 / 2 ^ 53)"
    using u(2) d0_9_bounds(1) by (intro mult_right_mono) simp_all
  also have "\<dots> = rat_of_nat n * (d0_9 * (1 + 1 / 2 ^ 53) * (1 + 1 / 2 ^ 53))"
    by (simp only: mult.assoc mult.left_commute mult.commute)
  also have "\<dots> \<le> rat_of_nat n * 1"
    by (rule mult_left_mono [OF d0_9_bounds(2)]) simp
  finally show "t \<le> rat_of_nat n"
    using t(2) by simp
  have "899 / 1000 * rat_of_nat n \<le> rat_of_nat n * (d0_9 * (1 - 1 / 2 ^ 53) * (1 - 1 / 2 ^ 53))"
    using mult_left_mono [OF d0_9_bounds(3), of "rat_of_nat n"] by (simp add: mult.commute)
  also have "\<dots> = rat_of_nat n * (1 - 1 / 2 ^ 53) * d0_9 * (1 - 1 / 2 ^ 53)"
    by (simp only: mult.assoc mult.left_commute mult.commute)
  also have "\<dots> \<le> u * d0_9 * (1 - 1 / 2 ^ 53)"
    using u(1) d0_9_bounds(1) by (intro mult_right_mono) simp_all
  finally show "899 / 1000 * rat_of_nat n \<le> t"
    using t(1) by simp
qed

lemma floor_threshold:
  fixes n :: nat
  defines "t \<equiv> \<lfloor>dround (dround (rat_of_nat n) * d0_9)\<rfloor>"
  shows "0 \<le> t" "t \<le> int n" "899 / 1000 * rat_of_nat n < rat_of_int t + 1"
proof -
  have "0 \<le> 899 / 1000 * rat_of_nat n"
    by simp
  then show "0 \<le> t"
    unfolding t_def zero_le_floor using threshold_bounds(2) [of n] by (rule order_trans)
  show "t \<le> int n"
    using floor_mono [OF threshold_bounds(1) [of n]] by (simp add: t_def)
  show "899 / 1000 * rat_of_nat n < rat_of_int t + 1"
    using threshold_bounds(2) [of n] unfolding t_def by linarith
qed

lemma unat_splitThreshold_inf:
  assumes "minIsInf \<or> maxIsInf"
  shows "int (unat (splitThreshold d minIsInf maxIsInf))
     = \<lfloor>dround (dround (rat_of_nat (unat d)) * d0_9)\<rfloor>"
proof -
  define t where "t = \<lfloor>dround (dround (rat_of_nat (unat d)) * d0_9)\<rfloor>"
  have "0 \<le> t" "t \<le> int (unat d)"
    unfolding t_def by (rule floor_threshold)+
  moreover have "int (unat d) < 2 ^ 64"
    using unsigned_less [of d, where ?'a = int] by simp
  ultimately have "int (unat (word_of_int t :: 64 word)) = t"
    by (simp add: unsigned_of_int take_bit_int_eq_self)
  moreover have "splitThreshold d minIsInf maxIsInf = word_of_int t"
    using assms unfolding splitThreshold_def t_def by argo
  ultimately show ?thesis
    unfolding t_def by simp
qed

text \<open>
  A chunk at either end of the key space is split earlier, never later, than an inner chunk:
  its threshold is at most the desired size and at least 0.899 of it (less one byte for
  truncation), for every 64-bit size, double rounding included.
\<close>

theorem splitThreshold_bounds:
  assumes "minIsInf \<or> maxIsInf"
  shows "splitThreshold d minIsInf maxIsInf \<le> d \<and>
    899 / 1000 * rat_of_nat (unat d) < rat_of_nat (unat (splitThreshold d minIsInf maxIsInf)) + 1 \<and>
    (shouldSplit c d False False \<longrightarrow> shouldSplit c d minIsInf maxIsInf)"
proof -
  define t where "t = splitThreshold d minIsInf maxIsInf"
  have "int (unat t) \<le> int (unat d)"
    unfolding t_def unat_splitThreshold_inf [OF assms]
    by (rule floor_threshold)
  then have le: "t \<le> d"
    by (simp add: word_le_def)
  moreover have "899 / 1000 * rat_of_nat (unat d) < rat_of_int (int (unat t)) + 1"
    unfolding t_def unat_splitThreshold_inf [OF assms]
    by (rule floor_threshold)
  moreover have "t div kSplitTestFactor \<le> d div kSplitTestFactor"
    using le by (simp add: word_le_nat_alt unat_div_distrib div_le_mono)
  ultimately show ?thesis
    by (auto simp: t_def shouldSplit_def splitThreshold_def [of d False False] order_trans)
qed


theorem splitThreshold_bounds_witness:
  "splitThreshold 1000 True False \<le> 1000"
  using splitThreshold_bounds [of True False 1000] by simp

lemma digit_facts:
  assumes "c \<in> digit ` {..<10}"
  shows "is_digit c" "\<not> is_space c" "c \<noteq> CHR ''-''" "c \<noteq> CHR ''+''"
proof -
  obtain n where n: "c = digit n" "n < 10"
    using assms by auto
  have c: "of_char c = n + 48"
    using n by (simp add: digit_def)
  show "is_digit c"
    using n(2) by (simp add: is_digit_def less_eq_char_def c)
  have "of_char c \<noteq> (of_char d :: nat)" if "of_char d < (48 :: nat)" for d
    using that c by simp
  then have ne: "c \<noteq> d" if "of_char d < (48 :: nat)" for d
    using that by blast
  show "\<not> is_space c" "c \<noteq> CHR ''-''" "c \<noteq> CHR ''+''"
    by (simp_all add: is_space_def ne)
qed

lemma extract_u64_digits:
  assumes "ds \<noteq> []" "set ds \<subseteq> digit ` {..<10}" "atou ds < 2 ^ 64"
  shows "extract_u64 prior ds = word_of_nat (atou ds)"
proof -
  obtain c cs where ds: "ds = c # cs"
    using assms(1) by (cases ds) auto
  have f: "dropWhile is_space ds = ds" "split_sign ds = (False, ds)" "takeWhile is_digit ds = ds"
    using digit_facts assms(2) by (auto simp: ds split_sign_def takeWhile_eq_all_conv)
  show ?thesis
    unfolding extract_u64_def Let_def f prod.case using assms(1,3) by simp
qed

lemma length_ItoA_loop: "val < 10 ^ k \<Longrightarrow> length (ItoA_loop val []) \<le> k"
proof (induction k arbitrary: val)
  case (Suc k)
  then have "val div 10 < 10 ^ k"
    by (simp add: less_mult_imp_div_less mult.commute)
  then show ?case
    using Suc.IH by (cases "val = 0") (simp_all add: ItoA_loop_step, simp add: ItoA_loop.simps)
qed (simp add: ItoA_loop.simps)

text \<open>A decimal key of at most ten digits is read completely, whatever the variable held.\<close>

lemma extract_u64_ItoA:
  assumes "v < 10 ^ 10"
  shows "extract_u64 prior (take 10 (ItoA v)) = word_of_nat v"
proof -
  have "length (ItoA v) \<le> 10"
    using length_ItoA_loop [OF assms] by (cases "v = 0") (simp_all add: ItoA_eq_loop, simp add: ItoA_def)
  moreover have "ItoA v \<noteq> []"
    by (cases "v = 0") (simp_all add: ItoA_eq_loop ItoA_loop_step, simp add: ItoA_def)
  ultimately show ?thesis
    using extract_u64_digits [OF _ set_ItoA, of v prior] assms by simp
qed

end
