(* ===== verification/Partition.thy ===== *)
theory Partition
  imports Shard_Prelude
begin

text \<open>
  Partitions of a linear order into half-open intervals, the abstract view of every chunk map:
  \<open>tiles a xs b\<close> says that the intervals of \<open>xs\<close>, in order, cut \<open>[a, b)\<close> into non-empty pieces.
  A routing table is a tiling whose pieces carry owners.
\<close>

fun tiles :: "'k::linorder \<Rightarrow> ('k \<times> 'k) list \<Rightarrow> 'k \<Rightarrow> bool" where
  "tiles a [] b = (a = b)"
| "tiles a ((l, h) # xs) b = (l = a \<and> l < h \<and> tiles h xs b)"

definition ivl :: "'k::linorder \<times> 'k \<Rightarrow> 'k set" where
  "ivl p = {fst p..<snd p}"

lemma tiles_append: "tiles a (xs @ ys) b \<longleftrightarrow> (\<exists>c. tiles a xs c \<and> tiles c ys b)"
  by (induction a xs b rule: tiles.induct) auto

lemma tiles_le: "tiles a xs b \<Longrightarrow> a \<le> b"
  by (induction a xs b rule: tiles.induct) auto

lemma tiles_mem: "\<lbrakk>tiles a xs b; p \<in> set xs\<rbrakk> \<Longrightarrow> a \<le> fst p \<and> fst p < snd p \<and> snd p \<le> b"
  by (induction a xs b rule: tiles.induct) (force dest: tiles_le)+

lemma tiles_Un: "tiles a xs b \<Longrightarrow> (\<Union>p\<in>set xs. ivl p) = {a..<b}"
proof (induction a xs b rule: tiles.induct)
  case (2 a l h xs b)
  then have "{l..<h} \<union> {h..<b} = {a..<b}"
    using tiles_le [of h xs b] by (auto simp: ivl_disj_un_two)
  with 2 show ?case
    by (simp add: ivl_def)
qed simp

lemma tiles_ex1:
  assumes "tiles a xs b" "a \<le> k" "k < b"
  shows "\<exists>!p. p \<in> set xs \<and> k \<in> ivl p"
  using assms
proof (induction a xs b rule: tiles.induct)
  case (2 a l h xs b)
  show ?case
  proof (cases "k < h")
    case True
    then have "\<not> (p \<in> set xs \<and> k \<in> ivl p)" for p
      using 2 tiles_mem [of h xs b p] by (auto simp: ivl_def)
    then show ?thesis
      using True 2 by (intro ex1I [of _ "(l, h)"]) (auto simp: ivl_def)
  next
    case False
    then have "k \<notin> ivl (l, h)"
      by (simp add: ivl_def)
    then have "p \<in> set ((l, h) # xs) \<and> k \<in> ivl p \<longleftrightarrow> p \<in> set xs \<and> k \<in> ivl p" for p
      by auto
    then show ?thesis
      using False 2 by (simp only: tiles.simps not_less)
  qed
qed simp

lemma tiles_ends: "\<lbrakk>tiles a xs b; xs \<noteq> []\<rbrakk> \<Longrightarrow> a = fst (hd xs) \<and> b = snd (last xs)"
  by (induction a xs b rule: tiles.induct) (auto split: if_splits)

lemma tiles_sorted: "tiles a xs b \<Longrightarrow> sorted_wrt (\<lambda>p q. snd p \<le> fst q) xs"
  by (induction a xs b rule: tiles.induct) (auto dest: tiles_mem)

lemma tiles_distinct_snd: "tiles a xs b \<Longrightarrow> sorted_wrt (\<lambda>p q. snd p < snd q) xs"
  by (induction a xs b rule: tiles.induct) (auto dest: tiles_mem)

lemma tiles_replace:
  assumes "tiles a (xs @ ms @ ys) b" "tiles l ms h" "tiles l ns h" "ms \<noteq> []"
  shows "tiles a (xs @ ns @ ys) b"
proof -
  obtain c d where c: "tiles a xs c" "tiles c ms d" "tiles d ys b"
    using assms(1) by (auto simp: tiles_append)
  have "c = l" "d = h"
    using tiles_ends [OF c(2) assms(4)] tiles_ends [OF assms(2,4)] by simp_all
  then show ?thesis
    using c assms(3) by (auto simp: tiles_append)
qed

text \<open>The pieces below and above a boundary.\<close>

lemma tiles_filter_below:
  assumes "tiles a xs b" "a \<le> c" "c \<le> b" "\<forall>p\<in>set xs. snd p \<le> c \<or> c \<le> fst p"
  shows "tiles a (filter (\<lambda>p. snd p \<le> c) xs) c"
  using assms
proof (induction a xs b rule: tiles.induct)
  case (2 a l h xs b)
  show ?case
  proof (cases "h \<le> c")
    case False
    have "p \<in> set xs \<Longrightarrow> \<not> snd p \<le> c" for p
      using False tiles_mem [of h xs b p] 2(2) by auto
    then have "c = l" and "filter (\<lambda>p. snd p \<le> c) xs = []"
      using False 2(2-) by (auto simp: filter_empty_conv)
    then show ?thesis
      using False 2 by simp
  qed (use 2 in auto)
qed auto

lemma tiles_filter_above:
  assumes "tiles a xs b" "a \<le> c" "c \<le> b" "\<forall>p\<in>set xs. snd p \<le> c \<or> c \<le> fst p"
  shows "tiles c (filter (\<lambda>p. c < snd p) xs) b"
  using assms
proof (induction a xs b rule: tiles.induct)
  case (2 a l h xs b)
  show ?case
  proof (cases "h \<le> c")
    case False
    have "p \<in> set xs \<Longrightarrow> c < snd p" for p
      using False tiles_mem [of h xs b p] 2(2) by auto
    then have "c = l" and "filter (\<lambda>p. c < snd p) xs = xs"
      using False 2(2-) by (auto simp: filter_id_conv)
    then show ?thesis
      using False 2 by auto
  qed (use 2 tiles_le [of h xs b] in auto)
qed auto


subsection \<open>Unordered partitions\<close>

definition partitions :: "('k::linorder \<times> 'k) set \<Rightarrow> 'k \<Rightarrow> 'k \<Rightarrow> bool" where
  "partitions S a b \<longleftrightarrow> finite S \<and> (\<forall>p\<in>S. fst p < snd p) \<and>
     (\<forall>p\<in>S. \<forall>q\<in>S. p \<noteq> q \<longrightarrow> ivl p \<inter> ivl q = {}) \<and> (\<Union>p\<in>S. ivl p) = {a..<b}"

lemma ivl_disjoint_iff:
  assumes "fst p < snd p" "fst q < snd q"
  shows "ivl p \<inter> ivl q = {} \<longleftrightarrow> snd p \<le> fst q \<or> snd q \<le> fst p"
proof
  assume d: "ivl p \<inter> ivl q = {}"
  have "fst q \<notin> ivl p \<or> fst q \<notin> ivl q" "fst p \<notin> ivl p \<or> fst p \<notin> ivl q"
    using d by blast+
  then show "snd p \<le> fst q \<or> snd q \<le> fst p"
    using assms by (auto simp: ivl_def)
qed (auto simp: ivl_def)

lemma tiles_partitions:
  assumes "tiles a xs b"
  shows "partitions (set xs) a b"
proof -
  have v: "\<forall>p\<in>set xs. fst p < snd p \<and> a \<le> fst p \<and> snd p \<le> b"
    using tiles_mem [OF assms] by blast
  have "ivl p \<inter> ivl q = {}" if "p \<in> set xs" "q \<in> set xs" "p \<noteq> q" for p q
  proof (rule ccontr)
    assume "ivl p \<inter> ivl q \<noteq> {}"
    then obtain k where k: "k \<in> ivl p" "k \<in> ivl q"
      by blast
    then have "a \<le> k" "k < b"
      using v that(1) by (auto simp: ivl_def)
    then show False
      using tiles_ex1 [OF assms] k that by blast
  qed
  then show ?thesis
    using v tiles_Un [OF assms] by (simp add: partitions_def)
qed

lemma partitions_tiles:
  assumes "partitions (set xs) a b" "sorted_wrt (\<lambda>p q. snd p < snd q) xs" "a \<le> b"
  shows "tiles a xs b"
  using assms
proof (induction xs arbitrary: a)
  case Nil
  then have "{a..<b} = {}"
    by (simp add: partitions_def)
  then show ?case
    using Nil.prems(3) by simp
next
  case (Cons p xs)
  obtain l h where p: "p = (l, h)"
    by (cases p)
  have lh: "l < h" and U: "ivl p \<union> (\<Union>q\<in>set xs. ivl q) = {a..<b}"
    and v: "\<forall>q\<in>set xs. fst q < snd q" and s: "\<forall>q\<in>set xs. h < snd q"
    using Cons.prems by (auto simp: partitions_def p)
  have disj: "ivl p \<inter> ivl q = {}" if "q \<in> set xs" for q
  proof -
    have "q \<noteq> p"
      using s that p by auto
    then show ?thesis
      using Cons.prems(1) that unfolding partitions_def by (metis list.set_intros)
  qed
  have above: "h \<le> fst q" if "q \<in> set xs" for q
    using disj [OF that] ivl_disjoint_iff [of p q] lh v s that p by fastforce
  have "l \<in> {a..<b}"
    using U lh p by (auto simp: ivl_def)
  moreover have "a \<in> ivl p"
  proof -
    have "a \<in> {a..<b}"
      using \<open>l \<in> {a..<b}\<close> by (auto intro: order_le_less_trans)
    moreover have "a \<notin> ivl q" if "q \<in> set xs" for q
      using above [OF that] \<open>l \<in> {a..<b}\<close> lh by (auto simp: ivl_def)
    ultimately show ?thesis
      using U by blast
  qed
  ultimately have l: "l = a"
    by (auto simp: ivl_def p)
  have "h \<le> b"
  proof (rule ccontr)
    assume "\<not> h \<le> b"
    then have "b \<in> ivl p"
      using \<open>l \<in> {a..<b}\<close> by (auto simp: ivl_def p)
    then show False
      using U by auto
  qed
  moreover have "(\<Union>q\<in>set xs. ivl q) = {h..<b}"
  proof -
    have "(\<Union>q\<in>set xs. ivl q) = {a..<b} - ivl p"
      using U disj by blast
    also have "\<dots> = {h..<b}"
      using l lh by (auto simp: ivl_def p)
    finally show ?thesis .
  qed
  ultimately have "tiles h xs b"
    using Cons.prems by (intro Cons.IH) (auto simp: partitions_def)
  then show ?case
    using l lh by (simp add: p)
qed


subsection \<open>Replacing a batch of pieces\<close>

text \<open>
  A new piece \<open>c\<close> supersedes the old pieces whose upper end lies in \<open>(fst c, snd c]\<close>. If the
  new pieces are disjoint and cover together exactly what some old pieces cover, exactly these
  old pieces are superseded, in whatever order the new pieces arrive.
\<close>

definition supersedes :: "'k::linorder \<times> 'k \<Rightarrow> 'k \<times> 'k \<Rightarrow> bool" where
  "supersedes c p \<longleftrightarrow> fst c < snd p \<and> snd p \<le> snd c"

definition aligned :: "('k::linorder \<times> 'k) set \<Rightarrow> ('k \<times> 'k) set \<Rightarrow> bool" where
  "aligned T S \<longleftrightarrow> finite T \<and> (\<forall>p\<in>T. fst p < snd p) \<and>
     (\<forall>p\<in>T. \<forall>q\<in>T. p \<noteq> q \<longrightarrow> ivl p \<inter> ivl q = {}) \<and>
     (\<forall>p\<in>S. ivl p \<subseteq> (\<Union>c\<in>T. ivl c) \<or> ivl p \<inter> (\<Union>c\<in>T. ivl c) = {}) \<and>
     (\<Union>c\<in>T. ivl c) \<subseteq> (\<Union>p\<in>S. ivl p)"

lemma superseded_iff:
  assumes "aligned T S" "p \<in> S" "fst p < snd p"
  shows "(\<exists>c\<in>T. supersedes c p) \<longleftrightarrow> ivl p \<subseteq> (\<Union>c\<in>T. ivl c)"
proof
  assume "\<exists>c\<in>T. supersedes c p"
  then obtain c where c: "c \<in> T" "fst c < snd p" "snd p \<le> snd c"
    by (auto simp: supersedes_def)
  have "ivl p \<inter> ivl c \<noteq> {}"
    using c assms(3) by (cases "fst p \<le> fst c") (auto simp: ivl_def)
  then show "ivl p \<subseteq> (\<Union>c\<in>T. ivl c)"
    using assms(1,2) c(1) unfolding aligned_def by blast
next
  assume sub: "ivl p \<subseteq> (\<Union>c\<in>T. ivl c)"
  let ?B = "{c \<in> T. fst c < snd p}"
  have "fst p \<in> ivl p"
    using assms(3) by (simp add: ivl_def)
  then obtain c0 where "c0 \<in> ?B"
    using sub assms(3) by (force simp: ivl_def)
  moreover have "finite ?B"
    using assms(1) by (simp add: aligned_def)
  ultimately obtain c where c: "c \<in> T" "fst c < snd p"
    and max: "\<And>d. \<lbrakk>d \<in> T; fst d < snd p\<rbrakk> \<Longrightarrow> fst d \<le> fst c"
  proof -
    have "Max (fst ` ?B) \<in> fst ` ?B"
      using \<open>c0 \<in> ?B\<close> \<open>finite ?B\<close> by (intro Max_in) blast+
    then obtain c where "c \<in> ?B" "fst c = Max (fst ` ?B)"
      by auto
    then show thesis
      using \<open>finite ?B\<close> by (intro that [of c]) auto
  qed
  have "\<not> snd c < snd p"
  proof
    assume lt: "snd c < snd p"
    define x where "x = max (snd c) (fst p)"
    have "x \<in> ivl p"
      using lt assms(3) by (auto simp: x_def ivl_def)
    then obtain d where d: "d \<in> T" "x \<in> ivl d"
      using sub by blast
    have "x < snd p" "fst d \<le> x" "snd c \<le> x"
      using \<open>x \<in> ivl p\<close> d(2) by (simp_all add: x_def ivl_def)
    then have "d \<noteq> c" "fst d < snd p"
      using d(2) by (auto simp: ivl_def)
    then have "ivl c \<inter> ivl d = {}" "fst d \<le> fst c" "fst c < snd c" "fst d < snd d"
      using assms(1) c(1) d(1) max by (auto simp: aligned_def)
    then show False
      using d(2) ivl_disjoint_iff [of c d] by (auto simp: x_def ivl_def)
  qed
  then show "\<exists>c\<in>T. supersedes c p"
    using c by (auto simp: supersedes_def)
qed

lemma partitions_batch:
  assumes "partitions S a b" "aligned T S"
  shows "partitions ({p \<in> S. \<not> (\<exists>c\<in>T. supersedes c p)} \<union> T) a b"
proof -
  let ?R = "{p \<in> S. \<not> (\<exists>c\<in>T. supersedes c p)}"
  have R: "ivl p \<inter> (\<Union>c\<in>T. ivl c) = {}" if "p \<in> ?R" for p
  proof -
    have "p \<in> S" "fst p < snd p"
      using that assms(1) by (auto simp: partitions_def)
    then show ?thesis
      using that superseded_iff [OF assms(2), of p] assms(2) unfolding aligned_def by blast
  qed
  have Q: "ivl p \<subseteq> (\<Union>c\<in>T. ivl c)" if "p \<in> S - ?R" for p
    using that assms superseded_iff [OF assms(2), of p] by (auto simp: partitions_def)
  have "(\<Union>p\<in>?R \<union> T. ivl p) = (\<Union>p\<in>S. ivl p)"
  proof
    show "(\<Union>p\<in>?R \<union> T. ivl p) \<subseteq> (\<Union>p\<in>S. ivl p)"
      using assms(2) by (auto simp: aligned_def)
    show "(\<Union>p\<in>S. ivl p) \<subseteq> (\<Union>p\<in>?R \<union> T. ivl p)"
      using Q by blast
  qed
  moreover have "ivl p \<inter> ivl q = {}" if "p \<in> ?R \<union> T" "q \<in> ?R \<union> T" "p \<noteq> q" for p q
  proof -
    have S: "ivl p \<inter> ivl q = {}" if "p \<in> S" "q \<in> S"
      using that \<open>p \<noteq> q\<close> assms(1) unfolding partitions_def by blast
    have T: "ivl p \<inter> ivl q = {}" if "p \<in> T" "q \<in> T"
      using that \<open>p \<noteq> q\<close> assms(2) unfolding aligned_def by blast
    consider "p \<in> ?R" "q \<in> ?R" | "p \<in> ?R" "q \<in> T" | "p \<in> T" "q \<in> ?R" | "p \<in> T" "q \<in> T"
      using \<open>p \<in> ?R \<union> T\<close> \<open>q \<in> ?R \<union> T\<close> by blast
    then show ?thesis
      by cases (use S T R [of p] R [of q] in blast)+
  qed
  ultimately show ?thesis
    using assms by (auto simp: partitions_def aligned_def)
qed

end
