(* ===== verification/Chunk_Manager.thy ===== *)
theory Chunk_Manager
  imports Chunk Partition "HOL-Library.AList"
begin

text \<open>
  The routing table (\<open>src/mongo/s/chunk_manager.h\<close>, \<open>chunk_manager.cpp\<close>): the map from the
  upper bound of every chunk to the chunk, the views derived from it (ranges by shard, version by
  shard), targeting of keys and ranges, and the update of a table by changed chunks. The global
  sequence number and the random initial write statistics of new chunks are arguments; a
  collator is present or absent. Targeting of whole queries is in
  \<open>Index_Bounds\<close>.
\<close>

subsection \<open>State\<close>

text \<open>The map of shard versions is only searched, updated and counted: an association list.\<close>

type_synonym chunk_map = "(bson_obj, chunk) omap"

record shard_and_range =
  sr_range :: chunk_range
  sr_shardId :: shard_id

record chunk_map_views =
  chunkRangeMap :: "(bson_obj, shard_and_range) omap"
  shardVersions :: "(shard_id \<times> chunk_version) list"

record chunk_manager =
  sequenceNumber :: "32 word"
  cm_nss :: string
  cm_keyPattern :: bson_obj
  cm_hasCollator :: bool
  cm_unique :: bool
  chunkMap :: chunk_map
  chunkMapViews :: chunk_map_views
  collectionVersion :: chunk_version

subsection \<open>Derived views\<close>

fun checkAllElementsAreOfType :: "bson_type \<Rightarrow> bson_obj \<Rightarrow> unit result" where
  "checkAllElementsAreOfType t [] = Inr ()"
| "checkAllElementsAreOfType t ((n, e) # es) =
     rbind (uassert ConflictingOperationInProgress (bson_type_of e = t)) (\<lambda>_.
       checkAllElementsAreOfType t es)"

definition maxLastmod :: "chunk_map \<Rightarrow> chunk_version \<Rightarrow> chunk_version" where
  "maxLastmod run v =
     foldl (\<lambda>v e. if version_less v (lastmod (snd e)) then lastmod (snd e) else v) v run"

function constructViews ::
    "oid \<Rightarrow> chunk_map \<Rightarrow> (bson_obj, shard_and_range) omap
      \<Rightarrow> (shard_id \<times> chunk_version) list \<Rightarrow> chunk_map_views result" where
  "constructViews e [] crm sv = Inr \<lparr>chunkRangeMap = crm, shardVersions = sv\<rparr>"
| "constructViews e (current # rest) crm sv =
     (let firstChunk = snd current;
          sid = shardId firstChunk;
          same = (\<lambda>entry. shardId (snd entry) = sid);
          maxShardVersion = maxLastmod (current # takeWhile same rest)
            (case map_of sv sid of Some v \<Rightarrow> v | None \<Rightarrow> ChunkVersion 0 0 e);
          rangeMin = getMin firstChunk;
          rangeMax = getMax (snd (last (current # takeWhile same rest)));
          crm' = om_insert woCompare rangeMax
            \<lparr>sr_range = \<lparr>minKey = rangeMin, maxKey = rangeMax\<rparr>, sr_shardId = sid\<rparr> crm;
          it = om_lower_bound woCompare rangeMax crm'
      in rbind (uassert ConflictingOperationInProgress (length crm + 1 = length crm')) (\<lambda>_.
         rbind (uassert ConflictingOperationInProgress
                  (it = 0 \<or> woCompare (fst (crm' ! (it - 1))) rangeMin = 0)) (\<lambda>_.
         rbind (invariant (isSet maxShardVersion)) (\<lambda>_.
           constructViews e (dropWhile same rest) crm' (AList.update sid maxShardVersion sv)))))"
  by pat_completeness auto
termination
  by (relation "measure (\<lambda>(_, m, _, _). length m)") (auto simp: less_Suc_eq_le length_dropWhile_le)

definition constructChunkMapViews :: "oid \<Rightarrow> chunk_map \<Rightarrow> chunk_map_views result" where
  "constructChunkMapViews e m =
     rbind (constructViews e m [] []) (\<lambda>views.
       if m = [] then Inr views
       else
         rbind (invariant (chunkRangeMap views \<noteq> [])) (\<lambda>_.
         rbind (invariant (shardVersions views \<noteq> [])) (\<lambda>_.
         rbind (checkAllElementsAreOfType TMinKey
                  (minKey (sr_range (snd (hd (chunkRangeMap views)))))) (\<lambda>_.
         rbind (checkAllElementsAreOfType TMaxKey (fst (last (chunkRangeMap views)))) (\<lambda>_.
           Inr views)))))"

definition ChunkManager ::
    "32 word \<Rightarrow> string \<Rightarrow> bson_obj \<Rightarrow> bool \<Rightarrow> bool \<Rightarrow> chunk_map \<Rightarrow> chunk_version
      \<Rightarrow> (32 word \<times> chunk_manager) result" where
  "ChunkManager seq nss keyPattern hasCollator unique m version =
     rbind (constructChunkMapViews (epoch version) m) (\<lambda>views.
       Inr (seq + 1, \<lparr>sequenceNumber = seq + 1, cm_nss = nss, cm_keyPattern = keyPattern,
         cm_hasCollator = hasCollator, cm_unique = unique, chunkMap = m, chunkMapViews = views,
         collectionVersion = version\<rparr>))"

subsection \<open>Targeting\<close>

definition isCollatableType :: "bson_type \<Rightarrow> bool" where
  "isCollatableType t = (t = TString \<or> t = TObject \<or> t = TArray)"

definition kSimpleSpec :: bson_obj where
  "kSimpleSpec = [(''locale'', String ''simple'')]"

definition findIntersectingChunk :: "chunk_manager \<Rightarrow> bson_obj \<Rightarrow> bson_obj \<Rightarrow> chunk result" where
  "findIntersectingChunk cm shardKey collation =
     (let hasSimpleCollation =
            (collation = [] \<and> \<not> cm_hasCollator cm \<or> woCompare collation kSimpleSpec = 0)
      in rbind (uassert ShardKeyNotFound
           (hasSimpleCollation \<or> list_all (\<lambda>elt. \<not> isCollatableType (bson_type_of (snd elt))) shardKey)) (\<lambda>_.
         let it = om_upper_bound woCompare shardKey (chunkMap cm)
         in if it < length (chunkMap cm) \<and> Chunk_containsKey (snd (chunkMap cm ! it)) shardKey
            then Inr (snd (chunkMap cm ! it))
            else Inl (Error ShardKeyNotFound)))"

definition findIntersectingChunkWithSimpleCollation :: "chunk_manager \<Rightarrow> bson_obj \<Rightarrow> chunk result" where
  "findIntersectingChunkWithSimpleCollation cm shardKey =
     findIntersectingChunk cm shardKey kSimpleSpec"

fun collectShards :: "nat \<Rightarrow> (bson_obj, shard_and_range) omap \<Rightarrow> shard_id set \<Rightarrow> shard_id set" where
  "collectShards n [] ids = ids"
| "collectShards n (e # es) ids =
     (let ids' = insert (sr_shardId (snd e)) ids
      in if card ids' = n then ids' else collectShards n es ids')"

definition getShardIdsForRange ::
    "chunk_manager \<Rightarrow> bson_obj \<Rightarrow> bson_obj \<Rightarrow> shard_id set \<Rightarrow> shard_id set result" where
  "getShardIdsForRange cm mn mx shardIds =
     rbind (uassert BadValue (woCompare mn mx \<le> 0)) (\<lambda>_.
       let crm = chunkRangeMap (chunkMapViews cm);
           it = om_upper_bound woCompare mn crm;
           end1 = om_upper_bound woCompare mx crm;
           end2 = (if end1 \<noteq> length crm then end1 + 1 else end1)
       in Inr (collectShards (length (shardVersions (chunkMapViews cm)))
                 (drop it (take end2 crm)) shardIds))"

definition getAllShardIds :: "chunk_manager \<Rightarrow> shard_id set \<Rightarrow> shard_id set" where
  "getAllShardIds cm all = all \<union> fst ` set (shardVersions (chunkMapViews cm))"

definition getVersion :: "chunk_manager \<Rightarrow> shard_id \<Rightarrow> chunk_version" where
  "getVersion cm shardName =
     (case map_of (shardVersions (chunkMapViews cm)) shardName of
        None \<Rightarrow> ChunkVersion 0 0 (epoch (collectionVersion cm))
      | Some v \<Rightarrow> v)"

definition compatibleWith :: "chunk_manager \<Rightarrow> chunk_manager \<Rightarrow> shard_id \<Rightarrow> bool" where
  "compatibleWith cm other shardName = version_equals (getVersion other shardName) (getVersion cm shardName)"

subsection \<open>Updates\<close>

definition applyChangedChunk ::
    "(chunk_type \<Rightarrow> 64 word) \<Rightarrow> chunk_map \<times> chunk_version \<Rightarrow> chunk_type
      \<Rightarrow> (chunk_map \<times> chunk_version) result" where
  "applyChangedChunk rnd st c =
     (case (chunk_version c, chunk_min c, chunk_max c) of
        (Some chunkVersion, Some cmin, Some cmax) \<Rightarrow>
          let (m, version) = st
          in rbind (uassert ConflictingOperationInProgress (epoch version = epoch chunkVersion)) (\<lambda>_.
             rbind (invariant (version_le version chunkVersion)) (\<lambda>_.
               let low = om_upper_bound woCompare cmin m;
                   high = om_upper_bound woCompare cmax m
               in rbind (Chunk (rnd c) c) (\<lambda>new.
                    Inr (om_insert woCompare cmax new (om_erase low high m), chunkVersion))))
      | _ \<Rightarrow> Inl Fatal)"

fun applyChangedChunks ::
    "(chunk_type \<Rightarrow> 64 word) \<Rightarrow> chunk_map \<times> chunk_version \<Rightarrow> chunk_type list
      \<Rightarrow> (chunk_map \<times> chunk_version) result" where
  "applyChangedChunks rnd st [] = Inr st"
| "applyChangedChunks rnd st (c # cs) =
     rbind (applyChangedChunk rnd st c) (\<lambda>st'. applyChangedChunks rnd st' cs)"

definition makeUpdated ::
    "(chunk_type \<Rightarrow> 64 word) \<Rightarrow> 32 word \<Rightarrow> chunk_manager \<Rightarrow> chunk_type list
      \<Rightarrow> (32 word \<times> chunk_manager) result" where
  "makeUpdated rnd seq cm changedChunks =
     rbind (applyChangedChunks rnd (chunkMap cm, collectionVersion cm) changedChunks) (\<lambda>(m, version).
       if version_equals version (collectionVersion cm) then Inr (seq, cm)
       else ChunkManager seq (cm_nss cm) (cm_keyPattern cm) (cm_hasCollator cm) (cm_unique cm) m version)"

text \<open>
  The manager \<open>makeNew\<close> starts from is not owned by a shared pointer; returning it when no chunk
  changes the version ends the process.
\<close>

definition makeNew ::
    "(chunk_type \<Rightarrow> 64 word) \<Rightarrow> 32 word \<Rightarrow> string \<Rightarrow> bson_obj \<Rightarrow> bool \<Rightarrow> bool \<Rightarrow> oid
      \<Rightarrow> chunk_type list \<Rightarrow> (32 word \<times> chunk_manager) result" where
  "makeNew rnd seq nss keyPattern hasCollator unique e chunks =
     rbind (ChunkManager seq nss keyPattern hasCollator unique [] (ChunkVersion 0 0 e)) (\<lambda>(seq', cm).
     rbind (makeUpdated rnd seq' cm chunks) (\<lambda>(seq'', cm').
       if seq'' = seq' then Inl Fatal else Inr (seq'', cm')))"

end
