(* ===== verification/Routing.thy ===== *)
theory Routing
  imports Chunk_Manager
begin

text \<open>
  Correctness of the routing table of \<open>Chunk_Manager\<close>: a map that partitions the key space
  routes every key to exactly one chunk, its derived views agree with it, and updating it with
  the chunks of a split, merge or migration yields a map that partitions the key space again and
  differs only on the changed ranges.
\<close>

subsection \<open>Chunk maps that partition the key space\<close>

abbreviation chunk_ivl :: "chunk \<Rightarrow> bson_key \<times> bson_key" where
  "chunk_ivl c \<equiv> (lo (crange c), hi (crange c))"

definition chunk_partition :: "bson_key \<Rightarrow> bson_key \<Rightarrow> chunk_map \<Rightarrow> bool" where
  "chunk_partition a b m \<longleftrightarrow>
     (\<forall>e\<in>set m. fst e = getMax (snd e)) \<and> tiles a (map (\<lambda>e. chunk_ivl (snd e)) m) b"

lemma Chunk_containsKey_ivl: "Chunk_containsKey c k \<longleftrightarrow> keyOf k \<in> ivl (chunk_ivl c)"
  by (simp add: Chunk_containsKey_def ivl_def key_simps)

lemma chunk_partition_sorted:
  assumes "chunk_partition a b m"
  shows "om_sorted woCompare m"
proof -
  have "sorted_wrt (\<lambda>e e'. hi (crange (snd e)) < hi (crange (snd e'))) m"
    using assms tiles_distinct_snd [of a _ b] by (fastforce simp: chunk_partition_def sorted_wrt_map)
  then show ?thesis
    unfolding om_sorted_def
    by (rule sorted_wrt_mono_rel [rotated]) (use assms in \<open>simp add: chunk_partition_def key_simps\<close>)
qed

lemma chunk_partition_nth:
  assumes "chunk_partition a b m" "i < j" "j < length m"
  shows "hi (crange (snd (m ! i))) \<le> lo (crange (snd (m ! j)))"
proof -
  have "sorted_wrt (\<lambda>p q. snd p \<le> fst q) (map (\<lambda>e. chunk_ivl (snd e)) m)"
    using assms(1) tiles_sorted by (auto simp: chunk_partition_def)
  then show ?thesis
    using assms(2,3) by (auto simp: sorted_wrt_iff_nth_less)
qed

lemma chunk_partition_bounds:
  assumes "chunk_partition a b m" "e \<in> set m"
  shows "a \<le> lo (crange (snd e))" "lo (crange (snd e)) < hi (crange (snd e))"
    "hi (crange (snd e)) \<le> b" "fst e = getMax (snd e)"
  using tiles_mem [of a "map (\<lambda>e. chunk_ivl (snd e)) m" b "chunk_ivl (snd e)"] assms
  by (auto simp: chunk_partition_def)

lemma upper_bound_finds:
  assumes "chunk_partition a b m" "i < length m" "Chunk_containsKey (snd (m ! i)) k"
  shows "om_upper_bound woCompare k m = i"
proof (rule bson.om_upper_bound_eq [OF chunk_partition_sorted [OF assms(1)] assms(2)])
  have max: "j < length m \<Longrightarrow> fst (m ! j) = getMax (snd (m ! j))" for j
    using assms(1) by (simp add: chunk_partition_def)
  show "woCompare k (fst (m ! i)) < 0"
    using assms(2,3) by (simp add: max Chunk_containsKey_def)
  assume "0 < i"
  then have "hi (crange (snd (m ! (i - 1)))) \<le> lo (crange (snd (m ! i)))"
    using chunk_partition_nth [OF assms(1), of "i - 1" i] assms(2) by simp
  then show "woCompare (fst (m ! (i - 1))) k \<le> 0"
    using assms(2,3) \<open>0 < i\<close> by (auto simp: max Chunk_containsKey_def key_simps)
qed

lemma chunk_partition_ex1:
  assumes "chunk_partition a b m" "a \<le> keyOf k" "keyOf k < b"
  obtains e where "e \<in> set m" "Chunk_containsKey (snd e) k"
    "\<And>e'. \<lbrakk>e' \<in> set m; Chunk_containsKey (snd e') k\<rbrakk> \<Longrightarrow> e' = e"
proof -
  have "\<exists>!p. p \<in> set (map (\<lambda>e. chunk_ivl (snd e)) m) \<and> keyOf k \<in> ivl p"
    using assms by (intro tiles_ex1) (auto simp: chunk_partition_def)
  then obtain e where e: "e \<in> set m" "Chunk_containsKey (snd e) k"
    by (auto simp: Chunk_containsKey_ivl)
  moreover have "e' = e" if "e' \<in> set m" "Chunk_containsKey (snd e') k" for e'
    using upper_bound_finds [OF assms(1)] e that by (metis in_set_conv_nth)
  ultimately show thesis
    using that by blast
qed

lemma find_chunk_Inr:
  assumes "chunk_partition a b (chunkMap cm)" "e \<in> set (chunkMap cm)" "Chunk_containsKey (snd e) k"
  shows "findIntersectingChunkWithSimpleCollation cm k = Inr (snd e)"
proof -
  obtain i where i: "i < length (chunkMap cm)" "e = chunkMap cm ! i"
    using assms(2) by (metis in_set_conv_nth)
  then have "om_upper_bound woCompare k (chunkMap cm) = i"
    using upper_bound_finds [OF assms(1)] assms(3) by blast
  then show ?thesis
    using i assms(3)
    by (simp add: findIntersectingChunkWithSimpleCollation_def findIntersectingChunk_def Let_def)
qed

lemma find_chunk_Inl:
  assumes "\<And>e. e \<in> set (chunkMap cm) \<Longrightarrow> \<not> Chunk_containsKey (snd e) k"
  shows "findIntersectingChunkWithSimpleCollation cm k = Inl (Error ShardKeyNotFound)"
  using assms [OF nth_mem]
  by (simp add: findIntersectingChunkWithSimpleCollation_def findIntersectingChunk_def Let_def)

lemma contains_in_range:
  assumes "chunk_partition a b m" "e \<in> set m" "Chunk_containsKey (snd e) k"
  shows "a \<le> keyOf k \<and> keyOf k < b"
  using chunk_partition_bounds [OF assms(1,2)] assms(3) by (auto simp: Chunk_containsKey_ivl ivl_def)

text \<open>
  C21: on a routing table that partitions \<open>[a, b)\<close>, targeting a key with the simple collation
  returns the chunk that contains it, which is the only one, for every key of \<open>[a, b)\<close>, and
  fails with \<open>ShardKeyNotFound\<close> for every other key.
\<close>

theorem findIntersectingChunk_correct:
  assumes "chunk_partition a b (chunkMap cm)"
  shows "case findIntersectingChunkWithSimpleCollation cm k of
      Inr c \<Rightarrow> a \<le> keyOf k \<and> keyOf k < b \<and>
        {e \<in> set (chunkMap cm). Chunk_containsKey (snd e) k} = {(getMax c, c)}
    | Inl f \<Rightarrow> f = Error ShardKeyNotFound \<and> \<not> (a \<le> keyOf k \<and> keyOf k < b)"
proof (cases "\<exists>e\<in>set (chunkMap cm). Chunk_containsKey (snd e) k")
  case True
  then obtain e where e: "e \<in> set (chunkMap cm)" "Chunk_containsKey (snd e) k"
    by blast
  note range = contains_in_range [OF assms e]
  have "{e \<in> set (chunkMap cm). Chunk_containsKey (snd e) k} = {e}"
    using chunk_partition_ex1 [OF assms, of k] range e by blast
  moreover have "e = (getMax (snd e), snd e)"
    using chunk_partition_bounds(4) [OF assms e(1)] by (simp add: prod_eq_iff)
  ultimately show ?thesis
    using range by (simp add: find_chunk_Inr [OF assms e])
next
  case False
  then have "\<not> (a \<le> keyOf k \<and> keyOf k < b)"
    using chunk_partition_ex1 [OF assms, of k] by blast
  then show ?thesis
    using False by (simp add: find_chunk_Inl)
qed

subsection \<open>A sample table\<close>

definition chunk_at :: "bson_obj \<Rightarrow> bson_obj \<Rightarrow> shard_id \<Rightarrow> 32 word \<Rightarrow> chunk" where
  "chunk_at mn mx s minor = \<lparr>crange = \<lparr>minKey = mn, maxKey = mx\<rparr>, shardId = s,
     lastmod = ChunkVersion 1 minor 7, jumbo = False, dataWrittenBytes = 0, split_sum = 0,
     split_average = 0, cnt = 0\<rparr>"

definition sample_map :: chunk_map where
  "sample_map = [(int_key 0, chunk_at min_key (int_key 0) ''s0'' 0),
     (int_key 10, chunk_at (int_key 0) (int_key 10) ''s0'' 1),
     (max_key, chunk_at (int_key 10) max_key ''s1'' 2)]"

definition sample_manager :: chunk_manager where
  "sample_manager = \<lparr>sequenceNumber = 1, cm_nss = ''d.c'', cm_keyPattern = [(''a'', NumberInt 1)],
     cm_hasCollator = False, cm_unique = False, chunkMap = sample_map,
     chunkMapViews = projr (constructChunkMapViews 7 sample_map),
     collectionVersion = ChunkVersion 1 2 7\<rparr>"

lemma sample_partition: "chunk_partition (keyOf min_key) (keyOf max_key) (chunkMap sample_manager)"
  by (simp add: chunk_partition_def sample_manager_def sample_map_def chunk_at_def)

theorem findIntersectingChunk_correct_witness:
  "findIntersectingChunkWithSimpleCollation sample_manager (int_key 3)
     = Inr (chunk_at (int_key 0) (int_key 10) ''s0'' 1)"
proof -
  let ?e = "(int_key 10, chunk_at (int_key 0) (int_key 10) ''s0'' 1)"
  have e: "?e \<in> {e \<in> set (chunkMap sample_manager). Chunk_containsKey (snd e) (int_key 3)}"
    by (simp add: sample_manager_def sample_map_def Chunk_containsKey_ivl ivl_def)
      (simp add: chunk_at_def)
  show ?thesis
  proof (cases "findIntersectingChunkWithSimpleCollation sample_manager (int_key 3)")
    case (Inr c)
    then have eq: "{e \<in> set (chunkMap sample_manager). Chunk_containsKey (snd e) (int_key 3)}
        = {(getMax c, c)}"
      using findIntersectingChunk_correct [OF sample_partition, of "int_key 3"] by simp
    have "?e \<in> {(getMax c, c)}"
      using e unfolding eq .
    then have "snd ?e = c"
      by (metis singletonD snd_conv)
    then show ?thesis
      using Inr by simp
  qed (use findIntersectingChunk_correct [OF sample_partition, of "int_key 3"] in simp)
qed

subsection \<open>Updating the map\<close>

abbreviation type_ivl :: "chunk_type \<Rightarrow> bson_key \<times> bson_key" where
  "type_ivl c \<equiv> (keyOf (the (chunk_min c)), keyOf (the (chunk_max c)))"

definition keyed_by_max :: "chunk_map \<Rightarrow> bool" where
  "keyed_by_max m \<longleftrightarrow> om_sorted woCompare m \<and> (\<forall>e\<in>set m. fst e = getMax (snd e))"

lemma Chunk_Inr:
  assumes "Chunk r c = Inr new"
  shows "chunk_min c = Some (getMin new)" "chunk_max c = Some (getMax new)"
    "chunk_version c = Some (lastmod new)" "chunk_shard c = Some (shardId new)"
    "valid_range (crange new)"
proof -
  have v: "validate c = Inr ()"
    using assms by (auto simp: Chunk_def split: sum.splits)
  then obtain mn mx ver sh where "chunk_min c = Some mn" "chunk_max c = Some mx"
    "chunk_version c = Some ver" "chunk_shard c = Some sh" "woCompare mn mx < 0"
    unfolding validate_iff by blast
  then show "chunk_min c = Some (getMin new)" "chunk_max c = Some (getMax new)"
    "chunk_version c = Some (lastmod new)" "chunk_shard c = Some (shardId new)"
    "valid_range (crange new)"
    using assms v by (auto simp: Chunk_def valid_range_def)
qed

lemma applyChangedChunk_Inr:
  assumes "applyChangedChunk rnd (m, v) c = Inr (m', v')" "keyed_by_max m"
  obtains new where "Chunk (rnd c) c = Inr new" "v' = lastmod new" "epoch v' = epoch v"
    "version_le v v'" "keyed_by_max m'"
    "set m' = {e \<in> set m. \<not> supersedes (chunk_ivl new) (chunk_ivl (snd e))} \<union> {(getMax new, new)}"
proof -
  obtain cmin cmax new where "chunk_min c = Some cmin" "chunk_max c = Some cmax"
    "chunk_version c = Some v'" and new: "Chunk (rnd c) c = Inr new"
    and v: "epoch v' = epoch v" "version_le v v'"
    and "m' = om_insert woCompare cmax new
        (om_erase (om_upper_bound woCompare cmin m) (om_upper_bound woCompare cmax m) m)"
    using assms(1)
    by (auto simp: applyChangedChunk_def rbind_Inr_iff Let_def split: option.splits)
  then have m': "m' = om_insert woCompare (getMax new) new
      (om_erase (om_upper_bound woCompare (getMin new) m) (om_upper_bound woCompare (getMax new) m) m)"
    and v': "v' = lastmod new"
    using Chunk_Inr [OF new] by simp_all
  let ?keep = "filter (\<lambda>e. woCompare (fst e) (getMin new) \<le> 0 \<or> woCompare (getMax new) (fst e) < 0) m"
  have valid: "lo (crange new) < hi (crange new)"
    using Chunk_Inr(5) [OF new] by (simp add: valid_range_def key_simps)
  then have erase: "m' = om_insert woCompare (getMax new) new ?keep"
    unfolding m' using assms(2) by (subst bson.om_erase_bounds) (simp_all add: keyed_by_max_def key_simps)
  have fresh: "\<forall>e\<in>set ?keep. woCompare (fst e) (getMax new) \<noteq> 0"
    using valid by (auto simp: key_simps)
  have sorted: "om_sorted woCompare ?keep"
    using assms(2) by (simp add: keyed_by_max_def)
  have set: "set m' = insert (getMax new, new) (set ?keep)"
    unfolding erase by (rule bson.set_om_insert [OF sorted fresh])
  have "keyed_by_max m'"
    using bson.om_sorted_insert [OF sorted fresh, of new] assms(2) set
    by (auto simp: keyed_by_max_def erase)
  moreover have "set m' = {e \<in> set m. \<not> supersedes (chunk_ivl new) (chunk_ivl (snd e))} \<union> {(getMax new, new)}"
    using assms(2) by (auto simp: set keyed_by_max_def supersedes_def key_simps not_less not_le)
  ultimately show thesis
    using that new v v' by blast
qed


definition built :: "(chunk_type \<Rightarrow> 64 word) \<Rightarrow> chunk_type \<Rightarrow> bson_obj \<times> chunk" where
  "built rnd c = (the (chunk_max c), projr (Chunk (rnd c) c))"

lemma built_eq: "Chunk (rnd c) c = Inr new \<Longrightarrow> built rnd c = (getMax new, new)"
  by (simp add: built_def Chunk_Inr)

lemma supersedes_disjoint:
  assumes "supersedes c p" "fst p < snd p" "fst c < snd c"
  shows "ivl c \<inter> ivl p \<noteq> {}"
  using assms ivl_disjoint_iff [of c p] by (auto simp: supersedes_def)

lemma applyChangedChunks_Inr:
  assumes "applyChangedChunks rnd (m, v) cs = Inr (m', v')" "keyed_by_max m"
    "sorted_wrt (\<lambda>c d. ivl (type_ivl c) \<inter> ivl (type_ivl d) = {}) cs"
  shows "keyed_by_max m' \<and> (\<forall>c\<in>set cs. \<exists>new. Chunk (rnd c) c = Inr new) \<and>
    set m' = {e \<in> set m. \<not> (\<exists>c\<in>set cs. supersedes (type_ivl c) (chunk_ivl (snd e)))}
      \<union> built rnd ` set cs"
  using assms
proof (induction cs arbitrary: m v)
  case (Cons c cs)
  obtain m1 v1 where step: "applyChangedChunk rnd (m, v) c = Inr (m1, v1)"
    and rest: "applyChangedChunks rnd (m1, v1) cs = Inr (m', v')"
    using Cons.prems(1) by (cases "applyChangedChunk rnd (m, v) c") (simp, simp, metis surj_pair)
  obtain new where new: "Chunk (rnd c) c = Inr new" "v1 = lastmod new" "epoch v1 = epoch v"
    "version_le v v1" and k1: "keyed_by_max m1" and
    m1: "set m1 = {e \<in> set m. \<not> supersedes (chunk_ivl new) (chunk_ivl (snd e))} \<union> {(getMax new, new)}"
    using step Cons.prems(2) by (rule applyChangedChunk_Inr)
  have ivl_c: "type_ivl c = chunk_ivl new" and valid: "lo (crange new) < hi (crange new)"
    using Chunk_Inr [OF new(1)] by (simp_all add: valid_range_def key_simps)
  have tail: "sorted_wrt (\<lambda>c d. ivl (type_ivl c) \<inter> ivl (type_ivl d) = {}) cs"
    and later: "d \<in> set cs \<Longrightarrow> ivl (type_ivl c) \<inter> ivl (type_ivl d) = {}" for d
    using Cons.prems(3) by (simp_all only: sorted_wrt.simps)
  have IH: "keyed_by_max m'" "\<forall>c\<in>set cs. \<exists>new. Chunk (rnd c) c = Inr new"
    "set m' = {e \<in> set m1. \<not> (\<exists>c\<in>set cs. supersedes (type_ivl c) (chunk_ivl (snd e)))} \<union> built rnd ` set cs"
    using Cons.IH [OF rest k1 tail] by simp_all
  have nsup: "\<not> supersedes (type_ivl d) (chunk_ivl new)" if "d \<in> set cs" for d
  proof
    assume sup: "supersedes (type_ivl d) (chunk_ivl new)"
    obtain n' where "Chunk (rnd d) d = Inr n'"
      using IH(2) \<open>d \<in> set cs\<close> by blast
    then have "fst (type_ivl d) < snd (type_ivl d)"
      using Chunk_Inr [of "rnd d" d n'] by (simp add: valid_range_def key_simps)
    then show False
      using supersedes_disjoint [OF sup] valid later [OF that] unfolding ivl_c by (simp add: Int_commute)
  qed
  define P where "P e \<longleftrightarrow> \<not> (\<exists>c\<in>set cs. supersedes (type_ivl c) (chunk_ivl (snd e)))" for e :: "bson_obj \<times> chunk"
  have "P (getMax new, new)"
    using nsup by (simp add: P_def)
  then have "{e \<in> set m1. P e} = {e \<in> set m. \<not> supersedes (type_ivl c) (chunk_ivl (snd e)) \<and> P e} \<union> {built rnd c}"
    unfolding m1 ivl_c built_eq [of rnd c new, OF new(1)] by blast
  then have "set m' = {e \<in> set m. \<not> supersedes (type_ivl c) (chunk_ivl (snd e)) \<and> P e} \<union> built rnd ` set (c # cs)"
    unfolding IH(3) P_def [symmetric] by simp
  moreover have "\<not> (\<exists>d\<in>set (c # cs). supersedes (type_ivl d) (chunk_ivl (snd e)))
      \<longleftrightarrow> \<not> supersedes (type_ivl c) (chunk_ivl (snd e)) \<and> P e" for e
    by (simp add: P_def)
  ultimately show ?case
    using IH(1,2) new(1) by simp
qed auto


definition map_ivls :: "chunk_map \<Rightarrow> (bson_key \<times> bson_key) set" where
  "map_ivls m = (\<lambda>e. chunk_ivl (snd e)) ` set m"

text \<open>
  Changed chunks fit a map when they do not overlap each other and cover together whole chunks
  of the map, as the chunks of a split, of a merge or of a migration do.
\<close>

definition changes_fit :: "chunk_map \<Rightarrow> chunk_type list \<Rightarrow> bool" where
  "changes_fit m cs \<longleftrightarrow>
     sorted_wrt (\<lambda>c d. ivl (type_ivl c) \<inter> ivl (type_ivl d) = {}) cs \<and>
     aligned (type_ivl ` set cs) (map_ivls m)"

lemma chunk_partition_keyed: "chunk_partition a b m \<Longrightarrow> keyed_by_max m"
  using chunk_partition_sorted [of a b m] by (simp add: keyed_by_max_def chunk_partition_def)

lemma built_ivl: "Chunk (rnd c) c = Inr new \<Longrightarrow> chunk_ivl (snd (built rnd c)) = type_ivl c"
  using Chunk_Inr [of "rnd c" c new] by (simp add: built_eq)

lemma keyed_partition:
  assumes "keyed_by_max m" "partitions (map_ivls m) a b" "a \<le> b"
  shows "chunk_partition a b m"
proof -
  have "sorted_wrt (\<lambda>x y. woCompare (fst x) (fst y) < 0) m" "\<forall>e\<in>set m. fst e = getMax (snd e)"
    using assms(1) by (simp_all add: keyed_by_max_def om_sorted_def)
  then have "sorted_wrt (\<lambda>p q. snd p < snd q) (map (\<lambda>e. chunk_ivl (snd e)) m)"
    unfolding sorted_wrt_map by (elim sorted_wrt_mono_rel [rotated]) (simp add: key_simps)
  then show ?thesis
    using assms partitions_tiles [of "map (\<lambda>e. chunk_ivl (snd e)) m" a b]
    by (simp add: chunk_partition_def keyed_by_max_def map_ivls_def)
qed

lemma applyChangedChunks_partition:
  assumes "applyChangedChunks rnd (m, v) cs = Inr (m', v')" "chunk_partition a b m" "changes_fit m cs"
  shows "chunk_partition a b m'"
proof -
  have fit: "sorted_wrt (\<lambda>c d. ivl (type_ivl c) \<inter> ivl (type_ivl d) = {}) cs"
    "aligned (type_ivl ` set cs) (map_ivls m)"
    using assms(3) by (simp_all add: changes_fit_def)
  note app = applyChangedChunks_Inr [OF assms(1) chunk_partition_keyed [OF assms(2)] fit(1)]
  have built: "chunk_ivl (snd (built rnd c)) = type_ivl c" if "c \<in> set cs" for c
    using app that built_ivl by blast
  define f where "f = (\<lambda>e :: bson_obj \<times> chunk. chunk_ivl (snd e))"
  let ?S = "f ` set m" and ?T = "type_ivl ` set cs"
  have "set m' = {e \<in> set m. \<not> (\<exists>c\<in>?T. supersedes c (f e))} \<union> built rnd ` set cs"
    using app by (simp add: f_def)
  moreover have "f ` built rnd ` set cs = ?T"
    using built by (simp add: f_def image_image)
  ultimately have "f ` set m' = {p \<in> ?S. \<not> (\<exists>c\<in>?T. supersedes c p)} \<union> ?T"
    by (simp only: image_Un) blast
  moreover have "partitions ?S a b"
    using assms(2) tiles_partitions [of a "map f m" b] by (simp add: chunk_partition_def f_def)
  moreover have "aligned ?T ?S"
    using fit(2) by (simp add: map_ivls_def f_def)
  ultimately have "partitions (map_ivls m') a b"
    unfolding map_ivls_def f_def [symmetric] by (simp only: partitions_batch)
  moreover have "a \<le> b"
    using assms(2) tiles_le by (auto simp: chunk_partition_def)
  ultimately show ?thesis
    using app keyed_partition by blast
qed

lemma ChunkManager_Inr:
  assumes "ChunkManager seq nss kp coll uniq m v = Inr (seq', cm')"
  shows "chunkMap cm' = m" "collectionVersion cm' = v" "seq' = seq + 1" "sequenceNumber cm' = seq + 1"
    "cm_nss cm' = nss" "constructChunkMapViews (epoch v) m = Inr (chunkMapViews cm')"
  using assms by (auto simp: ChunkManager_def rbind_Inr_iff)

lemma makeUpdated_Inr:
  assumes "makeUpdated rnd seq cm cs = Inr (seq', cm')" "seq' \<noteq> seq"
  obtains v where "applyChangedChunks rnd (chunkMap cm, collectionVersion cm) cs = Inr (chunkMap cm', v)"
    "collectionVersion cm' = v" "constructChunkMapViews (epoch v) (chunkMap cm') = Inr (chunkMapViews cm')"
    "seq' = seq + 1"
proof -
  obtain m v where app: "applyChangedChunks rnd (chunkMap cm, collectionVersion cm) cs = Inr (m, v)"
    and cm': "ChunkManager seq (cm_nss cm) (cm_keyPattern cm) (cm_hasCollator cm) (cm_unique cm) m v
      = Inr (seq', cm')"
    using assms by (auto simp: makeUpdated_def rbind_Inr_iff split: if_splits)
  show thesis
    using ChunkManager_Inr [OF cm'] app by (intro that) simp_all
qed

lemma update_routes:
  assumes "chunk_partition a b m" "chunk_partition a b (chunkMap cm')" "changes_fit m cs"
    "applyChangedChunks rnd (m, v) cs = Inr (chunkMap cm', v')" "chunkMap cm = m"
  shows "findIntersectingChunkWithSimpleCollation cm' k =
    (case List.find (\<lambda>c. keyOf k \<in> ivl (type_ivl c)) cs of
       Some c \<Rightarrow> Chunk (rnd c) c
     | None \<Rightarrow> findIntersectingChunkWithSimpleCollation cm k)"
proof -
  have fit: "sorted_wrt (\<lambda>c d. ivl (type_ivl c) \<inter> ivl (type_ivl d) = {}) cs"
    "aligned (type_ivl ` set cs) (map_ivls m)"
    using assms(3) by (simp_all add: changes_fit_def)
  note app = applyChangedChunks_Inr [OF assms(4) chunk_partition_keyed [OF assms(1)] fit(1)]
  show ?thesis
  proof (cases "List.find (\<lambda>c. keyOf k \<in> ivl (type_ivl c)) cs")
    case (Some c)
    then have c: "c \<in> set cs" "keyOf k \<in> ivl (type_ivl c)"
      by (auto simp: find_Some_iff)
    then obtain new where new: "Chunk (rnd c) c = Inr new"
      using app by blast
    have "built rnd c \<in> set (chunkMap cm')"
      using app c(1) by simp
    moreover have "Chunk_containsKey (snd (built rnd c)) k"
      using c(2) built_ivl [of rnd c, OF new] by (simp add: Chunk_containsKey_ivl)
    ultimately show ?thesis
      using find_chunk_Inr [OF assms(2)] Some new by (simp add: built_eq)
  next
    case None
    have out: "keyOf k \<notin> ivl (type_ivl c)" if "c \<in> set cs" for c
      using None that by (auto simp: find_None_iff)
    show ?thesis
    proof (cases "\<exists>e\<in>set m. Chunk_containsKey (snd e) k")
      case True
      then obtain e where e: "e \<in> set m" "Chunk_containsKey (snd e) k"
        by blast
      have "\<not> ivl (chunk_ivl (snd e)) \<subseteq> (\<Union>c\<in>type_ivl ` set cs. ivl c)"
        using e(2) out by (auto simp: Chunk_containsKey_ivl)
      then have "\<not> (\<exists>c\<in>type_ivl ` set cs. supersedes c (chunk_ivl (snd e)))"
        using superseded_iff [OF fit(2), of "chunk_ivl (snd e)"] chunk_partition_bounds(2) [OF assms(1) e(1)] e(1)
        by (simp add: map_ivls_def)
      then have "e \<in> set (chunkMap cm')"
        using app e(1) by simp
      then show ?thesis
        using find_chunk_Inr [OF assms(2) _ e(2)] find_chunk_Inr [of a b cm e k] e assms(1,5) None by simp
    next
      case False
      have "\<not> Chunk_containsKey (snd e) k" if "e \<in> set (chunkMap cm')" for e
        using app that False out built_ivl [of rnd] by (auto simp: Chunk_containsKey_ivl)
      then show ?thesis
        using None False assms(5) find_chunk_Inl [of cm k] by (simp add: find_chunk_Inl)
    qed
  qed
qed

end
