(* ===== verification/Chunk_Views.thy ===== *)
theory Chunk_Views
  imports Routing
begin

text \<open>
  The views derived from a chunk map that partitions the key space: construction succeeds, the
  range map partitions the same space and names the owner of every chunk, the shard versions are
  the maxima of the versions of the shards' chunks, and targeting a range returns exactly the
  owners of the chunks it meets.
\<close>

subsection \<open>Construction\<close>

abbreviation entry_ivl :: "bson_obj \<times> shard_and_range \<Rightarrow> bson_key \<times> bson_key" where
  "entry_ivl r \<equiv> (lo (sr_range (snd r)), hi (sr_range (snd r)))"

definition range_partition :: "bson_key \<Rightarrow> bson_key \<Rightarrow> (bson_obj, shard_and_range) omap \<Rightarrow> bool" where
  "range_partition a b crm \<longleftrightarrow>
     (\<forall>r\<in>set crm. fst r = maxKey (sr_range (snd r))) \<and> tiles a (map entry_ivl crm) b"

lemma range_partition_sorted:
  assumes "range_partition a b crm"
  shows "om_sorted woCompare crm"
proof -
  have "sorted_wrt (\<lambda>r r'. hi (sr_range (snd r)) < hi (sr_range (snd r'))) crm"
    using assms tiles_distinct_snd [of a "map entry_ivl crm" b]
    by (simp add: range_partition_def sorted_wrt_map)
  then show ?thesis
    unfolding om_sorted_def
    by (rule sorted_wrt_mono_rel [rotated]) (use assms in \<open>simp add: range_partition_def key_simps\<close>)
qed

lemma om_insert_end:
  assumes "\<forall>e\<in>set m. woCompare (fst e) k < 0"
  shows "om_lower_bound woCompare k m = length m" "om_insert woCompare k v m = m @ [(k, v)]"
    "om_lower_bound woCompare k (m @ [(k, v)]) = length m"
proof -
  have tw: "takeWhile (\<lambda>e. woCompare (fst e) k < 0) m = m"
    using assms by (simp add: takeWhile_eq_all_conv)
  show lb: "om_lower_bound woCompare k m = length m"
    by (simp add: om_lower_bound_def tw)
  show "om_insert woCompare k v m = m @ [(k, v)]"
    by (simp add: om_insert_def lb)
  have "takeWhile (\<lambda>e. woCompare (fst e) k < 0) (m @ [(k, v)]) = m"
    using assms by (subst takeWhile_append2) (simp_all)
  then show "om_lower_bound woCompare k (m @ [(k, v)]) = length m"
    by (simp add: om_lower_bound_def)
qed

lemma chunk_partition_append:
  "chunk_partition a b (xs @ ys) \<longleftrightarrow> (\<exists>c. chunk_partition a c xs \<and> chunk_partition c b ys)"
  by (auto simp: chunk_partition_def tiles_append)

lemma chunk_partition_ends:
  assumes "chunk_partition a b m" "m \<noteq> []"
  shows "a = lo (crange (snd (hd m)))" "b = hi (crange (snd (last m)))" "a < b"
proof -
  have t: "tiles a (map (\<lambda>e. chunk_ivl (snd e)) m) b" "map (\<lambda>e. chunk_ivl (snd e)) m \<noteq> []"
    using assms by (simp_all add: chunk_partition_def)
  show "a = lo (crange (snd (hd m)))" "b = hi (crange (snd (last m)))"
    using tiles_ends [OF t] assms(2) by (simp_all add: hd_map last_map)
  show "a < b"
    using chunk_partition_bounds [OF assms(1) hd_in_set [OF assms(2)]] by auto
qed

lemma range_partition_le: "\<lbrakk>range_partition a c crm; r \<in> set crm\<rbrakk> \<Longrightarrow> keyOf (fst r) \<le> c"
  using tiles_mem [of a "map entry_ivl crm" c "entry_ivl r"] by (auto simp: range_partition_def)

lemma range_partition_last:
  "\<lbrakk>range_partition a c crm; crm \<noteq> []\<rbrakk> \<Longrightarrow> keyOf (fst (last crm)) = c"
  using tiles_ends [of a "map entry_ivl crm" c] by (simp add: range_partition_def last_map)

lemma maxLastmod_append: "maxLastmod (xs @ ys) v = maxLastmod ys (maxLastmod xs v)"
  by (simp add: maxLastmod_def)

lemma maxLastmod_ge_start: "combined v \<le> combined (maxLastmod run v)"
  by (induction run arbitrary: v)
    (auto simp: maxLastmod_def version_less_def intro: order_trans less_imp_le)

lemma maxLastmod_Cons:
  "maxLastmod (x # run) v = maxLastmod run (if version_less v (lastmod (snd x)) then lastmod (snd x) else v)"
  by (simp add: maxLastmod_def)

lemma maxLastmod_ge: "e \<in> set run \<Longrightarrow> combined (lastmod (snd e)) \<le> combined (maxLastmod run v)"
proof (induction run arbitrary: v)
  case (Cons x run)
  have "combined (lastmod (snd x)) \<le> combined (maxLastmod (x # run) v)"
    using maxLastmod_ge_start [of "if version_less v (lastmod (snd x)) then lastmod (snd x) else v" run]
    by (auto simp: maxLastmod_Cons version_less_def not_less split: if_splits intro: order_trans)
  then show ?case
    using Cons by (auto simp: maxLastmod_Cons)
qed simp

lemma constructViews_step:
  fixes sv :: "(shard_id \<times> chunk_version) list" and ep :: oid
  assumes "range_partition a c crm" "chunk_partition c b (current # rest)"
    "\<forall>e\<in>set (current # rest). isSet (lastmod (snd e))"
  defines "sid \<equiv> shardId (snd current)"
  defines "run \<equiv> takeWhile (\<lambda>e. shardId (snd e) = sid) (current # rest)"
    and "rest' \<equiv> dropWhile (\<lambda>e. shardId (snd e) = sid) rest"
  defines "entry \<equiv> (getMax (snd (last run)),
      \<lparr>sr_range = \<lparr>minKey = getMin (snd current), maxKey = getMax (snd (last run))\<rparr>, sr_shardId = sid\<rparr>)"
    and "v \<equiv> maxLastmod run (case map_of sv sid of Some v \<Rightarrow> v | None \<Rightarrow> ChunkVersion 0 0 ep)"
  obtains d where "constructViews ep (current # rest) crm sv =
      constructViews ep rest' (crm @ [entry]) (AList.update sid v sv)"
    "range_partition a d (crm @ [entry])" "chunk_partition d b rest'" "current # rest = run @ rest'"
    "\<forall>e\<in>set run. ivl (chunk_ivl (snd e)) \<subseteq> ivl (entry_ivl entry) \<and> shardId (snd e) = sid"
proof -
  have run: "run = current # takeWhile (\<lambda>e. shardId (snd e) = sid) rest"
    by (simp add: run_def sid_def)
  have split: "current # rest = run @ rest'"
    by (simp add: run rest'_def)
  obtain d where d: "chunk_partition c d run" "chunk_partition d b rest'"
    using assms(2) unfolding split chunk_partition_append by blast
  have ends: "c = keyOf (getMin (snd current))" "d = keyOf (getMax (snd (last run)))" "c < d"
    using chunk_partition_ends [OF d(1)] by (simp_all add: run)
  have new: "\<forall>e\<in>set crm. woCompare (fst e) (getMax (snd (last run))) < 0"
  proof
    fix e
    assume "e \<in> set crm"
    from range_partition_le [OF assms(1) this] show "woCompare (fst e) (getMax (snd (last run))) < 0"
      using ends by (simp add: key_simps)
  qed
  have prev: "length crm = 0 \<or> woCompare (fst ((crm @ [entry]) ! (length crm - 1))) (getMin (snd current)) = 0"
    using range_partition_last [OF assms(1)] ends(1)
    by (cases "crm = []") (auto simp: nth_append last_conv_nth key_simps)
  have lb: "om_lower_bound woCompare (getMax (snd (last run))) (crm @ [entry]) = length crm"
    unfolding entry_def by (rule om_insert_end(3) [OF new])
  have set: "isSet v"
    using maxLastmod_ge [of current run "case map_of sv sid of Some v \<Rightarrow> v | None \<Rightarrow> ChunkVersion 0 0 ep"]
      assms(3) unfolding v_def isSet_def run by (auto intro: order_less_le_trans)
  have "constructViews ep (current # rest) crm sv =
      constructViews ep rest' (crm @ [entry]) (AList.update sid v sv)"
    unfolding constructViews.simps Let_def sid_def [symmetric] run [symmetric] om_insert_end(2) [OF new]
      entry_def [symmetric] lb v_def [symmetric] rest'_def [symmetric]
    using prev set by simp
  moreover have "range_partition a d (crm @ [entry])"
    using assms(1) ends by (auto simp: range_partition_def tiles_append entry_def)
  moreover have "\<forall>e\<in>set run. ivl (chunk_ivl (snd e)) \<subseteq> ivl (entry_ivl entry) \<and> shardId (snd e) = sid"
    using chunk_partition_bounds [OF d(1)] ends by (auto simp: entry_def ivl_def run_def dest: set_takeWhileD)
  ultimately show thesis
    using d(2) split by (intro that)
qed


abbreviation default_version :: "oid \<Rightarrow> chunk_version option \<Rightarrow> chunk_version" where
  "default_version ep x \<equiv> case x of Some v \<Rightarrow> v | None \<Rightarrow> ChunkVersion 0 0 ep"

definition chunks_of :: "shard_id \<Rightarrow> chunk_map \<Rightarrow> chunk_map" where
  "chunks_of s m = filter (\<lambda>e. shardId (snd e) = s) m"

definition views_ok ::
    "oid \<Rightarrow> chunk_map \<Rightarrow> (shard_id \<times> chunk_version) list \<Rightarrow> bson_key \<Rightarrow> bson_key \<Rightarrow> chunk_map_views \<Rightarrow> bool" where
  "views_ok ep m sv a b views \<longleftrightarrow>
     range_partition a b (chunkRangeMap views) \<and>
     (\<forall>e\<in>set m. \<exists>r\<in>set (chunkRangeMap views).
        ivl (chunk_ivl (snd e)) \<subseteq> ivl (entry_ivl r) \<and> sr_shardId (snd r) = shardId (snd e)) \<and>
     (\<forall>s. map_of (shardVersions views) s =
        (if chunks_of s m = [] then map_of sv s
         else Some (maxLastmod (chunks_of s m) (default_version ep (map_of sv s))))) \<and>
     distinct (map fst (shardVersions views))"

lemma views_ok_step:
  fixes sv :: "(shard_id \<times> chunk_version) list" and ep :: oid and run :: chunk_map and sid :: shard_id
  defines "v \<equiv> maxLastmod run (default_version ep (map_of sv sid))"
  assumes "views_ok ep rest (AList.update sid v sv) a b views" "run \<noteq> []"
    "\<forall>e\<in>set run. ivl (chunk_ivl (snd e)) \<subseteq> ivl (entry_ivl entry) \<and> shardId (snd e) = sid"
    "entry \<in> set (chunkRangeMap views)" "sr_shardId (snd entry) = sid"
  shows "views_ok ep (run @ rest) sv a b views"
proof -
  have run: "chunks_of s run = (if s = sid then run else [])" for s
    using assms(4) by (auto simp: chunks_of_def filter_id_conv filter_empty_conv)
  have "map_of (shardVersions views) s =
      (if chunks_of s (run @ rest) = [] then map_of sv s
       else Some (maxLastmod (chunks_of s (run @ rest)) (default_version ep (map_of sv s))))" for s
  proof -
    have app: "chunks_of s (run @ rest) = chunks_of s run @ chunks_of s rest"
      by (simp add: chunks_of_def)
    have "map_of (shardVersions views) s =
        (if chunks_of s rest = [] then map_of (AList.update sid v sv) s
         else Some (maxLastmod (chunks_of s rest) (default_version ep (map_of (AList.update sid v sv) s))))"
      using assms(2) by (simp add: views_ok_def)
    then show ?thesis
      unfolding app run update_conv' using assms(3)
      by (simp add: maxLastmod_append v_def) (simp add: maxLastmod_def)
  qed
  moreover have "\<forall>e\<in>set (run @ rest). \<exists>r\<in>set (chunkRangeMap views).
      ivl (chunk_ivl (snd e)) \<subseteq> ivl (entry_ivl r) \<and> sr_shardId (snd r) = shardId (snd e)"
  proof
    fix e
    assume "e \<in> set (run @ rest)"
    then consider "e \<in> set run" | "e \<in> set rest"
      by auto
    then show "\<exists>r\<in>set (chunkRangeMap views).
        ivl (chunk_ivl (snd e)) \<subseteq> ivl (entry_ivl r) \<and> sr_shardId (snd r) = shardId (snd e)"
      by cases (use assms(2,4-6) in \<open>auto simp only: views_ok_def\<close>)
  qed
  ultimately show ?thesis
    using assms(2) by (simp add: views_ok_def)
qed

definition view_ends :: "chunk_map \<Rightarrow> (bson_obj, shard_and_range) omap \<Rightarrow> bool" where
  "view_ends m suf \<longleftrightarrow> (if m = [] then suf = []
     else suf \<noteq> [] \<and> minKey (sr_range (snd (hd suf))) = getMin (snd (hd m))
       \<and> fst (last suf) = getMax (snd (last m)))"

lemma constructViews_partition:
  assumes "range_partition a c crm" "chunk_partition c b m" "\<forall>e\<in>set m. isSet (lastmod (snd e))"
    "distinct (map fst sv)"
  shows "\<exists>views suf. constructViews ep m crm sv = Inr views \<and> views_ok ep m sv a b views
    \<and> chunkRangeMap views = crm @ suf \<and> view_ends m suf"
  using assms
proof (induction "length m" arbitrary: m c crm sv rule: less_induct)
  case less
  show ?case
  proof (cases m)
    case Nil
    then have "c = b"
      using less.prems(2) by (simp add: chunk_partition_def)
    then show ?thesis
      using less.prems Nil by (simp add: views_ok_def chunks_of_def view_ends_def)
  next
    case (Cons current rest)
    note prems = less.prems [unfolded Cons]
    define sid where "sid = shardId (snd current)"
    define run where "run = takeWhile (\<lambda>e. shardId (snd e) = sid) (current # rest)"
    define rest' where "rest' = dropWhile (\<lambda>e. shardId (snd e) = sid) rest"
    define entry where "entry = (getMax (snd (last run)),
      \<lparr>sr_range = \<lparr>minKey = getMin (snd current), maxKey = getMax (snd (last run))\<rparr>, sr_shardId = sid\<rparr>)"
    define v where "v = maxLastmod run (default_version ep (map_of sv sid))"
    obtain d where step: "constructViews ep (current # rest) crm sv =
        constructViews ep rest' (crm @ [entry]) (AList.update sid v sv)"
      and d: "range_partition a d (crm @ [entry])" "chunk_partition d b rest'"
      and split: "current # rest = run @ rest'"
      and run: "\<forall>e\<in>set run. ivl (chunk_ivl (snd e)) \<subseteq> ivl (entry_ivl entry) \<and> shardId (snd e) = sid"
      using constructViews_step [OF prems(1-3), of ep sv]
      unfolding sid_def run_def rest'_def entry_def v_def by blast
    have "run \<noteq> []"
      by (simp add: run_def sid_def)
    have "length rest' < length m" "\<forall>e\<in>set rest'. isSet (lastmod (snd e))"
      using prems(3) by (auto simp: rest'_def Cons less_Suc_eq_le length_dropWhile_le dest: set_dropWhileD)
    then obtain views suf where views: "constructViews ep rest' (crm @ [entry]) (AList.update sid v sv) = Inr views"
      "views_ok ep rest' (AList.update sid v sv) a b views" "chunkRangeMap views = (crm @ [entry]) @ suf"
      "view_ends rest' suf"
      using less.hyps [OF _ d] prems(4) by (metis distinct_update)
    then have "views_ok ep (run @ rest') sv a b views"
      using views_ok_step [of ep rest' sid run sv a b views entry] run \<open>run \<noteq> []\<close>
      by (simp add: v_def entry_def)
    moreover have "last m = (if rest' = [] then last run else last rest')" "hd m = current"
      using arg_cong [OF split, of last] by (simp_all add: Cons del: last.simps)
    then have "view_ends m (entry # suf)"
      using views(4) by (auto simp: view_ends_def entry_def Cons split: if_splits)
    ultimately show ?thesis
      using views(1,3) step split Cons by auto
  qed
qed

lemma checkAllElementsAreOfType_Inr:
  "\<forall>e\<in>set ob. bson_type_of (snd e) = t \<Longrightarrow> checkAllElementsAreOfType t ob = Inr ()"
  by (induction t ob rule: checkAllElementsAreOfType.induct) auto

text \<open>A chunk map ready for routing: set versions, and both ends of the key space at the ends.\<close>

definition loadable :: "chunk_map \<Rightarrow> bool" where
  "loadable m \<longleftrightarrow> m \<noteq> [] \<and> (\<forall>e\<in>set m. isSet (lastmod (snd e))) \<and>
     (\<forall>f\<in>set (getMin (snd (hd m))). snd f = MinKey) \<and> (\<forall>f\<in>set (getMax (snd (last m))). snd f = MaxKey)"

lemma constructChunkMapViews_ok:
  assumes "chunk_partition a b m" "loadable m"
  obtains views where "constructChunkMapViews ep m = Inr views" "views_ok ep m [] a b views"
proof -
  have "range_partition a a []"
    by (simp add: range_partition_def)
  then obtain views suf where views: "constructViews ep m [] [] = Inr views" "views_ok ep m [] a b views"
    "chunkRangeMap views = [] @ suf" "view_ends m suf"
    using constructViews_partition [of a a "[]" b m "[]" ep] assms by (auto simp: loadable_def)
  have sv: "shardVersions views \<noteq> []"
  proof
    assume "shardVersions views = []"
    then have "chunks_of (shardId (snd (hd m))) m = []"
      using views(2) by (auto simp: views_ok_def split: if_splits)
    then show False
      using assms(2) by (auto simp: chunks_of_def filter_empty_conv loadable_def)
  qed
  have "m \<noteq> []" "suf \<noteq> []"
    "checkAllElementsAreOfType TMinKey (minKey (sr_range (snd (hd suf)))) = Inr ()"
    "checkAllElementsAreOfType TMaxKey (fst (last suf)) = Inr ()"
    using views(4) assms(2)
    by (auto simp: view_ends_def loadable_def intro!: checkAllElementsAreOfType_Inr split: if_splits)
  then have "constructChunkMapViews ep m = Inr views"
    using views(1,3) sv by (simp add: constructChunkMapViews_def)
  then show thesis
    using views(2) that by blast
qed


subsection \<open>Shard versions\<close>

lemma maxLastmod_cases: "maxLastmod cs v = v \<or> maxLastmod cs v \<in> (\<lambda>e. lastmod (snd e)) ` set cs"
  by (induction cs arbitrary: v) (auto simp: maxLastmod_def split: if_splits)

lemma maxLastmod_max:
  assumes "cs \<noteq> []" "\<forall>e\<in>set cs. isSet (lastmod (snd e))"
  shows "maxLastmod cs (ChunkVersion 0 0 ep) \<in> (\<lambda>e. lastmod (snd e)) ` set cs"
    "\<forall>e\<in>set cs. version_le (lastmod (snd e)) (maxLastmod cs (ChunkVersion 0 0 ep))"
proof -
  show ge: "\<forall>e\<in>set cs. version_le (lastmod (snd e)) (maxLastmod cs (ChunkVersion 0 0 ep))"
    using maxLastmod_ge by (simp add: version_le_def)
  obtain e where e: "e \<in> set cs" "isSet (lastmod (snd e))"
    using assms by (metis last_in_set)
  then have "maxLastmod cs (ChunkVersion 0 0 ep) \<noteq> ChunkVersion 0 0 ep"
    using maxLastmod_ge [OF e(1), of "ChunkVersion 0 0 ep"] by (auto simp: isSet_def ChunkVersion_def)
  then show "maxLastmod cs (ChunkVersion 0 0 ep) \<in> (\<lambda>e. lastmod (snd e)) ` set cs"
    using maxLastmod_cases by blast
qed

definition max_version :: "chunk_version set \<Rightarrow> chunk_version \<Rightarrow> bool" where
  "max_version V v \<longleftrightarrow> v \<in> V \<and> (\<forall>w\<in>V. version_le w v)"

text \<open>
  C24: building a routing table from a chunk map that partitions the key space from all-MinKey to
  all-MaxKey, with every chunk version set, succeeds; the version it reports for a shard is the
  greatest version of the chunks the shard owns, and the zero version with the epoch of the
  collection for a shard that owns none.
\<close>

theorem getVersion_greatest:
  assumes "chunk_partition a b m" "loadable m"
  shows "\<exists>cm. ChunkManager seq nss keyPattern hasCollator unique m v = Inr (seq + 1, cm) \<and>
    (\<forall>s. let owned = {c \<in> snd ` set m. shardId c = s}
      in if owned = {} then getVersion cm s = ChunkVersion 0 0 (epoch v)
         else max_version (lastmod ` owned) (getVersion cm s))"
proof -
  obtain views where views: "constructChunkMapViews (epoch v) m = Inr views" "views_ok (epoch v) m [] a b views"
    using constructChunkMapViews_ok [OF assms] .
  have "let owned = {c \<in> snd ` set m. shardId c = s}
      in if owned = {} then getVersion cm s = ChunkVersion 0 0 (epoch v)
         else max_version (lastmod ` owned) (getVersion cm s)"
    if cm: "chunkMapViews cm = views" "collectionVersion cm = v" for cm s
  proof -
    have owned: "{c \<in> snd ` set m. shardId c = s} = snd ` set (chunks_of s m)"
      by (auto simp: chunks_of_def)
    have sv: "map_of (shardVersions views) s = (if chunks_of s m = [] then None
        else Some (maxLastmod (chunks_of s m) (ChunkVersion 0 0 (epoch v))))"
      using views(2) by (simp add: views_ok_def)
    have set: "\<forall>e\<in>set (chunks_of s m). isSet (lastmod (snd e))"
      using assms(2) by (auto simp: loadable_def chunks_of_def)
    show ?thesis
    proof (cases "chunks_of s m = []")
      case False
      note max = maxLastmod_max [OF False set, of "epoch v"]
      then show ?thesis
        unfolding owned Let_def getVersion_def cm sv max_version_def image_image using False by simp
    qed (simp add: owned getVersion_def cm sv)
  qed
  then show ?thesis
    using views(1) by (simp add: ChunkManager_def)
qed

lemma sample_loadable: "loadable sample_map"
  by (simp add: loadable_def sample_map_def chunk_at_def isSet_def ChunkVersion_def min_key_def max_key_def)

lemma sample_map_partition: "chunk_partition (keyOf min_key) (keyOf max_key) sample_map"
  using sample_partition by (simp add: sample_manager_def)

theorem getVersion_greatest_witness:
  "\<exists>cm. ChunkManager 0 ''d.c'' [(''a'', NumberInt 1)] False False sample_map (ChunkVersion 1 2 7) = Inr (1, cm)
    \<and> getVersion cm ''s0'' = ChunkVersion 1 1 7 \<and> getVersion cm ''s2'' = ChunkVersion 0 0 7"
proof -
  have s0: "{c \<in> snd ` set sample_map. shardId c = ''s0''}
      = {chunk_at min_key (int_key 0) ''s0'' 0, chunk_at (int_key 0) (int_key 10) ''s0'' 1}"
    by (auto simp: sample_map_def chunk_at_def)
  have s2: "{c \<in> snd ` set sample_map. shardId c = ''s2''} = {}"
    by (auto simp: sample_map_def chunk_at_def)
  have e: "epoch (ChunkVersion 1 2 7) = 7"
    by (simp add: ChunkVersion_def)
  have le: "\<not> version_le (ChunkVersion 1 1 7) (ChunkVersion 1 0 7)"
    by (simp add: version_le_def ChunkVersion_def)
  obtain cm where cm: "ChunkManager 0 ''d.c'' [(''a'', NumberInt 1)] False False sample_map (ChunkVersion 1 2 7)
      = Inr (1, cm)"
    and v: "\<And>s. let owned = {c \<in> snd ` set sample_map. shardId c = s}
      in if owned = {} then getVersion cm s = ChunkVersion 0 0 (epoch (ChunkVersion 1 2 7))
         else max_version (lastmod ` owned) (getVersion cm s)"
    using getVersion_greatest [OF sample_map_partition sample_loadable,
      of 0 "''d.c''" "[(''a'', NumberInt 1)]" False False "ChunkVersion 1 2 7"] by auto
  have "getVersion cm ''s0'' = ChunkVersion 1 1 7"
    using v [of "''s0''", unfolded s0] le by (auto simp: max_version_def chunk_at_def)
  moreover have "getVersion cm ''s2'' = ChunkVersion 0 0 7"
    using v [of "''s2''", unfolded s2] by (simp add: e)
  ultimately show ?thesis
    using cm by blast
qed

subsection \<open>Targeting a range\<close>

lemma collectShards_all:
  assumes "finite S" "ids \<subseteq> S" "(\<lambda>e. sr_shardId (snd e)) ` set es \<subseteq> S"
  shows "collectShards (card S) es ids = ids \<union> (\<lambda>e. sr_shardId (snd e)) ` set es"
  using assms(2,3)
proof (induction es arbitrary: ids)
  case (Cons e es)
  show ?case
  proof (cases "card (insert (sr_shardId (snd e)) ids) = card S")
    case True
    then have "insert (sr_shardId (snd e)) ids = S"
      using card_subset_eq [OF assms(1)] Cons.prems by auto
    then show ?thesis
      using Cons.prems True by auto
  qed (use Cons in \<open>auto simp: Let_def\<close>)
qed simp

lemma tiles_nth:
  assumes "tiles a xs b" "Suc i < length xs"
  shows "fst (xs ! Suc i) = snd (xs ! i)"
  using assms
proof (induction a xs b arbitrary: i rule: tiles.induct)
  case (2 a l h xs b)
  then show ?case
    by (cases i; cases xs) auto
qed simp

lemma set_drop_take: "n \<le> length xs \<Longrightarrow> set (drop k (take n xs)) = {xs ! j | j. j < length xs \<and> k \<le> j \<and> j < n}"
proof -
  assume n: "n \<le> length xs"
  have "set (drop k (take n xs)) = (\<lambda>i. xs ! (k + i)) ` {i. i < n - k}"
    using n by (force simp: set_conv_nth)
  also have "\<dots> = {xs ! j | j. j < length xs \<and> k \<le> j \<and> j < n}"
  proof -
    have "\<exists>i<n - k. xs ! j = xs ! (k + i)" if "k \<le> j" "j < n" for j
      using that by (intro exI [of _ "j - k"]) auto
    then show ?thesis
      using n by fastforce
  qed
  finally show ?thesis .
qed

lemma range_partition_upper_bound:
  assumes "range_partition a b crm" "j < length crm"
  shows "om_upper_bound woCompare k crm \<le> j \<longleftrightarrow> keyOf k < hi (sr_range (snd (crm ! j)))"
proof -
  have fst: "fst (crm ! j) = maxKey (sr_range (snd (crm ! j)))"
    using assms by (simp add: range_partition_def)
  note sorted = range_partition_sorted [OF assms(1)]
  show ?thesis
  proof
    assume "om_upper_bound woCompare k crm \<le> j"
    then have "crm ! j \<in> set (drop (om_upper_bound woCompare k crm) crm)"
      using assms(2) by (auto simp: in_set_conv_nth intro!: exI [of _ "j - om_upper_bound woCompare k crm"])
    then show "keyOf k < hi (sr_range (snd (crm ! j)))"
      by (simp add: bson.drop_om_upper_bound [OF sorted] fst key_simps)
  next
    assume less: "keyOf k < hi (sr_range (snd (crm ! j)))"
    show "om_upper_bound woCompare k crm \<le> j"
    proof (rule ccontr)
      assume "\<not> om_upper_bound woCompare k crm \<le> j"
      then have "crm ! j \<in> set (take (om_upper_bound woCompare k crm) crm)"
        using assms(2) by (metis in_set_conv_nth length_take min_less_iff_conj not_le nth_take)
      then show False
        using less by (auto simp: bson.take_om_upper_bound [OF sorted] fst key_simps)
    qed
  qed
qed


lemma range_unique:
  assumes "range_partition a b crm" "r \<in> set crm" "r' \<in> set crm" "k \<in> ivl (entry_ivl r)" "k \<in> ivl (entry_ivl r')"
  shows "r = r'"
proof -
  have less: "hi (sr_range (snd (crm ! i))) \<le> lo (sr_range (snd (crm ! j)))" if "i < j" "j < length crm" for i j
    using tiles_sorted [of a "map entry_ivl crm" b] assms(1) that
    by (auto simp: range_partition_def sorted_wrt_iff_nth_less)
  obtain i j where ij: "i < length crm" "j < length crm" "r = crm ! i" "r' = crm ! j"
    using assms(2,3) by (metis in_set_conv_nth)
  have "i = j"
    using less [of i j] less [of j i] assms(4,5) ij by (cases i j rule: linorder_cases) (auto simp: ivl_def)
  then show ?thesis
    using ij by simp
qed

lemma range_partition_slice:
  fixes mx :: bson_obj
  assumes "range_partition a b crm" "a \<le> keyOf mx"
  defines "end1 \<equiv> om_upper_bound woCompare mx crm"
  shows "set (drop (om_upper_bound woCompare mn crm) (take (if end1 \<noteq> length crm then end1 + 1 else end1) crm))
    = {r \<in> set crm. lo (sr_range (snd r)) \<le> keyOf mx \<and> keyOf mn < hi (sr_range (snd r))}"
    (is "set (drop ?it (take ?end crm)) = ?R")
proof -
  have t: "tiles a (map entry_ivl crm) b"
    using assms(1) by (simp add: range_partition_def)
  have below: "j < ?end \<longleftrightarrow> lo (sr_range (snd (crm ! j))) \<le> keyOf mx" if j: "j < length crm" for j
  proof (cases j)
    case 0
    then have "j < ?end"
      using om_upper_bound_le_length [of woCompare mx crm] j by (auto simp: end1_def)
    then show ?thesis
      using tiles_ends [OF t] j 0 assms(2) by (cases crm) auto
  next
    case (Suc i)
    then have "j < ?end \<longleftrightarrow> \<not> end1 \<le> i"
      using j by (auto simp: end1_def)
    also have "\<dots> \<longleftrightarrow> lo (sr_range (snd (crm ! j))) \<le> keyOf mx"
      using range_partition_upper_bound [OF assms(1), of i mx] tiles_nth [OF t, of i] j Suc
      by (auto simp: end1_def)
    finally show ?thesis .
  qed
  have "?end \<le> length crm"
    using om_upper_bound_le_length [of woCompare mx crm] by (auto simp: end1_def)
  then have "set (drop ?it (take ?end crm)) = {crm ! j | j. j < length crm \<and> ?it \<le> j \<and> j < ?end}"
    by (simp add: set_drop_take)
  also have "\<dots> = ?R"
    using below range_partition_upper_bound [OF assms(1)] unfolding set_conv_nth by blast
  finally show ?thesis .
qed

lemma views_meet:
  assumes "views_ok ep m sv a b views" "chunk_partition a b m" "x \<le> y"
  shows "(\<lambda>r. sr_shardId (snd r)) ` {r \<in> set (chunkRangeMap views). lo (sr_range (snd r)) \<le> y \<and> x < hi (sr_range (snd r))}
    = shardId ` {c \<in> snd ` set m. lo (crange c) \<le> y \<and> x < hi (crange c)}" (is "?f ` ?R = shardId ` ?C")
proof -
  let ?crm = "chunkRangeMap views"
  have t: "tiles a (map entry_ivl ?crm) b" "tiles a (map (\<lambda>e. chunk_ivl (snd e)) m) b"
    using assms(1,2) by (simp_all add: views_ok_def range_partition_def chunk_partition_def)
  have inc: "\<exists>r\<in>set ?crm. ivl (chunk_ivl (snd e)) \<subseteq> ivl (entry_ivl r) \<and> ?f r = shardId (snd e)"
    if "e \<in> set m" for e
    using assms(1) that by (simp add: views_ok_def)
  have "?f r \<in> shardId ` ?C" if r: "r \<in> ?R" for r
  proof -
    obtain k where k: "k \<in> ivl (entry_ivl r)" "a \<le> k" "k < b" "k \<le> y" "x \<le> k"
      using r tiles_mem [OF t(1), of "entry_ivl r"] assms(3)
      by (intro that [of "max (lo (sr_range (snd r))) x"]) (auto simp: ivl_def le_max_iff_disj)
    then obtain e where e: "e \<in> set m" "k \<in> ivl (chunk_ivl (snd e))"
      using tiles_ex1 [OF t(2) k(2,3)] by auto
    then obtain r' where r': "r' \<in> set ?crm" "k \<in> ivl (entry_ivl r')" "?f r' = shardId (snd e)"
      using inc by blast
    have "r' = r"
      using range_unique [OF _ r'(1) _ r'(2) k(1)] assms(1) r by (auto simp: views_ok_def)
    then show ?thesis
      using e r' k by (auto simp: ivl_def intro!: image_eqI [of _ _ "snd e"])
  qed
  moreover have "shardId c \<in> ?f ` ?R" if c: "c \<in> ?C" for c
  proof -
    obtain e where e: "e \<in> set m" "c = snd e"
      using c by auto
    obtain r where r: "r \<in> set ?crm" "ivl (chunk_ivl c) \<subseteq> ivl (entry_ivl r)" "?f r = shardId c"
      using inc [OF e(1)] e(2) by auto
    have "lo (crange c) < hi (crange c)"
      using chunk_partition_bounds(2) [OF assms(2) e(1)] e(2) by simp
    then have "lo (sr_range (snd r)) \<le> lo (crange c)" "hi (crange c) \<le> hi (sr_range (snd r))"
      using r(2) by (auto simp: ivl_def)
    then show ?thesis
      using c r by (intro image_eqI [of _ _ r]) auto
  qed
  ultimately show ?thesis
    by blast
qed


lemma ivl_meets:
  assumes "fst p < snd p" "x \<le> y"
  shows "(\<exists>k\<in>ivl p. x \<le> k \<and> k \<le> y) \<longleftrightarrow> fst p \<le> y \<and> x < snd p"
  using assms by (auto simp: ivl_def intro!: bexI [of _ "max (fst p) x"])

definition manager_of :: "bson_key \<Rightarrow> bson_key \<Rightarrow> chunk_manager \<Rightarrow> bool" where
  "manager_of a b cm \<longleftrightarrow> chunk_partition a b (chunkMap cm) \<and>
     constructChunkMapViews (epoch (collectionVersion cm)) (chunkMap cm) = Inr (chunkMapViews cm) \<and>
     loadable (chunkMap cm)"

lemma manager_of_views:
  assumes "manager_of a b cm"
  shows "views_ok (epoch (collectionVersion cm)) (chunkMap cm) [] a b (chunkMapViews cm)"
  using assms constructChunkMapViews_ok [of a b "chunkMap cm" "epoch (collectionVersion cm)"]
  by (auto simp: manager_of_def)

lemma views_shards:
  assumes "views_ok ep m [] a b views"
  shows "fst ` set (shardVersions views) = shardId ` snd ` set m"
    "card (fst ` set (shardVersions views)) = length (shardVersions views)"
proof -
  have "s \<in> fst ` set (shardVersions views) \<longleftrightarrow> s \<in> shardId ` snd ` set m" for s
  proof -
    have "map_of (shardVersions views) s = None \<longleftrightarrow> chunks_of s m = []"
      using assms by (simp add: views_ok_def)
    then show ?thesis
      unfolding map_of_eq_None_iff chunks_of_def filter_empty_conv image_image
      by (metis (no_types, lifting) image_iff)
  qed
  then show "fst ` set (shardVersions views) = shardId ` snd ` set m"
    by blast
  have "distinct (map fst (shardVersions views))"
    using assms by (simp add: views_ok_def)
  then show "card (fst ` set (shardVersions views)) = length (shardVersions views)"
    using distinct_card by fastforce
qed

lemma shards_for_range:
  assumes "manager_of a b cm" "a \<le> keyOf mx" "ids \<subseteq> getAllShardIds cm {}"
  shows "getShardIdsForRange cm mn mx ids =
      (if keyOf mx < keyOf mn then Inl (Error BadValue)
       else Inr (ids \<union> shardId ` {c \<in> snd ` set (chunkMap cm).
         \<exists>k\<in>ivl (chunk_ivl c). keyOf mn \<le> k \<and> k \<le> keyOf mx}))
    \<and> getAllShardIds cm {} = shardId ` snd ` set (chunkMap cm)"
proof -
  note v = manager_of_views [OF assms(1)]
  have p: "chunk_partition a b (chunkMap cm)"
    using assms(1) by (simp add: manager_of_def)
  have all: "getAllShardIds cm {} = shardId ` snd ` set (chunkMap cm)"
    using views_shards(1) [OF v] by (simp add: getAllShardIds_def)
  have meet: "(\<exists>k\<in>ivl (chunk_ivl c). keyOf mn \<le> k \<and> k \<le> keyOf mx)
      \<longleftrightarrow> lo (crange c) \<le> keyOf mx \<and> keyOf mn < hi (crange c)"
    if "c \<in> snd ` set (chunkMap cm)" "keyOf mn \<le> keyOf mx" for c
    using that chunk_partition_bounds(2) [OF p] by (subst ivl_meets) auto
  show ?thesis
  proof (cases "keyOf mx < keyOf mn")
    case True
    then show ?thesis
      by (simp add: getShardIdsForRange_def key_simps all uassert_def not_le)
  next
    case False
    let ?crm = "chunkRangeMap (chunkMapViews cm)"
    have r: "range_partition a b ?crm"
      using v by (simp add: views_ok_def)
    let ?C = "{c \<in> snd ` set (chunkMap cm). lo (crange c) \<le> keyOf mx \<and> keyOf mn < hi (crange c)}"
    let ?es = "drop (om_upper_bound woCompare mn ?crm)
      (take (if om_upper_bound woCompare mx ?crm \<noteq> length ?crm then om_upper_bound woCompare mx ?crm + 1
             else om_upper_bound woCompare mx ?crm) ?crm)"
    have "(\<lambda>e. sr_shardId (snd e)) ` set ?es = shardId ` ?C"
      using range_partition_slice [OF r assms(2), of mn] views_meet [OF v p, of "keyOf mn" "keyOf mx"] False
      by (simp only: not_less)
    moreover have "shardId ` ?C \<subseteq> fst ` set (shardVersions (chunkMapViews cm))"
      using views_shards(1) [OF v] by auto
    moreover have "ids \<subseteq> fst ` set (shardVersions (chunkMapViews cm))"
      using assms(3) by (simp add: getAllShardIds_def)
    ultimately have "collectShards (length (shardVersions (chunkMapViews cm))) ?es ids = ids \<union> shardId ` ?C"
      using collectShards_all [of "fst ` set (shardVersions (chunkMapViews cm))" ids ?es] views_shards(2) [OF v]
      by simp
    moreover have "?C = {c \<in> snd ` set (chunkMap cm). \<exists>k\<in>ivl (chunk_ivl c). keyOf mn \<le> k \<and> k \<le> keyOf mx}"
      using meet False by (metis (no_types, lifting) not_less)
    moreover have "woCompare mn mx \<le> 0"
      using False by (simp add: key_simps not_less)
    ultimately show ?thesis
      using False unfolding getShardIdsForRange_def Let_def all by simp
  qed
qed


text \<open>
  C23: targeting a range of keys on a routing table that partitions the key space adds to the set
  of shards exactly the owners of the chunks that hold a key of the closed range, whether or not
  the loop over the ranges stops early, and fails with \<open>BadValue\<close> when the range is reversed; all
  the shards of the table are the owners of its chunks.
\<close>

theorem getShardIdsForRange_exact:
  assumes "manager_of a b cm" "a \<le> keyOf mx" "ids \<subseteq> getAllShardIds cm {}"
  shows "getShardIdsForRange cm mn mx ids =
      (if keyOf mx < keyOf mn then Inl (Error BadValue)
       else Inr (ids \<union> shardId ` {c \<in> snd ` set (chunkMap cm).
         \<exists>k\<in>ivl (chunk_ivl c). keyOf mn \<le> k \<and> k \<le> keyOf mx}))
    \<and> getAllShardIds cm {} = shardId ` snd ` set (chunkMap cm)"
  by (rule shards_for_range [OF assms])

lemma sample_views: "constructChunkMapViews 7 sample_map = Inr (chunkMapViews sample_manager)"
proof -
  obtain views where "constructChunkMapViews 7 sample_map = Inr views"
    using constructChunkMapViews_ok [OF sample_map_partition sample_loadable] .
  then show ?thesis
    by (simp add: sample_manager_def)
qed

lemma sample_manager_of: "manager_of (keyOf min_key) (keyOf max_key) sample_manager"
  using sample_map_partition sample_loadable sample_views
  by (simp add: manager_of_def sample_manager_def ChunkVersion_def)

theorem getShardIdsForRange_exact_witness:
  "getShardIdsForRange sample_manager (int_key 3) (int_key 7) {} = Inr {''s0''}"
proof -
  have "{c \<in> snd ` set (chunkMap sample_manager).
      \<exists>k\<in>ivl (chunk_ivl c). keyOf (int_key 3) \<le> k \<and> k \<le> keyOf (int_key 7)}
      = {c \<in> snd ` set (chunkMap sample_manager). lo (crange c) \<le> keyOf (int_key 7) \<and> keyOf (int_key 3) < hi (crange c)}"
    using chunk_partition_bounds(2) [OF sample_partition]
    by (intro Collect_cong conj_cong refl ivl_meets [THEN trans]) auto
  also have "\<dots> = {chunk_at (int_key 0) (int_key 10) ''s0'' 1}"
    by (auto simp: sample_manager_def sample_map_def chunk_at_def)
  finally show ?thesis
    using getShardIdsForRange_exact [OF sample_manager_of, of "int_key 7" "{}" "int_key 3"]
    by (simp add: chunk_at_def)
qed

subsection \<open>Refreshing the table\<close>

lemma same_key_extreme:
  assumes "keyOf x = keyOf y" "\<forall>f\<in>set x. snd f = e" "e = MinKey \<or> e = MaxKey"
  shows "\<forall>f\<in>set y. snd f = e"
proof -
  have "compareNested x y = 0"
    using assms(1) by (simp add: key_simps woCompare_nested [symmetric])
  then show ?thesis
    using assms(2)
  proof (induction x y rule: list_induct2')
    case (4 p ps q qs)
    then have eq: "woCompareElement True p q = 0" "compareNested ps qs = 0"
      by (auto split: if_splits)
    then have "canonicalType (snd p) = canonicalType (snd q)"
      by (auto simp: woCompareElement_lex split: if_splits)
    then have "snd q = e"
      using 4(2,3) assms(3) canonicalType_cases(1,2) [of "snd q"] by auto
    then show ?case
      using 4 eq(2) by simp
  qed auto
qed


lemma loadable_same_ends:
  assumes "chunk_partition a b m" "loadable m" "chunk_partition a b m'" "\<forall>e\<in>set m'. isSet (lastmod (snd e))"
  shows "loadable m'"
proof -
  have m: "m \<noteq> []"
    using assms(2) by (simp add: loadable_def)
  note ends = chunk_partition_ends [OF assms(1) m]
  have m': "m' \<noteq> []"
    using ends(3) assms(3) by (auto simp: chunk_partition_def)
  note ends' = chunk_partition_ends [OF assms(3) m']
  have "\<forall>f\<in>set (getMin (snd (hd m'))). snd f = MinKey"
    by (rule same_key_extreme [of "getMin (snd (hd m))"]) (use ends ends' assms(2) in \<open>auto simp: loadable_def\<close>)
  moreover have "\<forall>f\<in>set (getMax (snd (last m'))). snd f = MaxKey"
    by (rule same_key_extreme [of "getMax (snd (last m))"]) (use ends ends' assms(2) in \<open>auto simp: loadable_def\<close>)
  ultimately show ?thesis
    using m' assms(4) by (simp add: loadable_def)
qed

text \<open>Changed chunks in the order of their versions, none older than the collection version.\<close>

fun newer_changes :: "chunk_version \<Rightarrow> chunk_type list \<Rightarrow> bool" where
  "newer_changes v [] = True"
| "newer_changes v (c # cs) =
     (validate c = Inr () \<and> epoch (the (chunk_version c)) = epoch v \<and> version_le v (the (chunk_version c))
        \<and> newer_changes (the (chunk_version c)) cs)"

lemma Chunk_valid:
  assumes "validate c = Inr ()"
  obtains new where "Chunk r c = Inr new"
  using assms by (simp add: Chunk_def)

lemma applyChangedChunks_newer:
  assumes "newer_changes v cs"
  shows "\<exists>m'. applyChangedChunks rnd (m, v) cs = Inr (m', last (v # map (\<lambda>c. the (chunk_version c)) cs))"
  using assms
proof (induction cs arbitrary: m v)
  case (Cons c cs)
  have c: "validate c = Inr ()" "epoch v = epoch (the (chunk_version c))" "version_le v (the (chunk_version c))"
    "newer_changes (the (chunk_version c)) cs"
    using Cons.prems by simp_all
  obtain mn mx w where f: "chunk_min c = Some mn" "chunk_max c = Some mx" "chunk_version c = Some w"
    using c(1) unfolding validate_iff by blast
  obtain new where new: "Chunk (rnd c) c = Inr new"
    using c(1) by (rule Chunk_valid)
  obtain m1 where step: "applyChangedChunk rnd (m, v) c = Inr (m1, w)"
    using c(2,3) f new by (simp add: applyChangedChunk_def Let_def)
  obtain m' where "applyChangedChunks rnd (m1, w) cs = Inr (m', last (w # map (\<lambda>c. the (chunk_version c)) cs))"
    using Cons.IH [of w m1] c(4) f(3) by auto
  then show ?case
    by (simp add: step f(3))
qed simp


lemma newer_changes_valid: "\<lbrakk>newer_changes v cs; c \<in> set cs\<rbrakk> \<Longrightarrow> validate c = Inr ()"
  by (induction v cs rule: newer_changes.induct) auto

lemma newer_changes_last:
  "newer_changes v cs \<Longrightarrow> epoch (last (v # map (\<lambda>c. the (chunk_version c)) cs)) = epoch v"
  by (induction v cs rule: newer_changes.induct) auto

lemma built_isSet: "validate c = Inr () \<Longrightarrow> isSet (lastmod (snd (built rnd c)))"
proof -
  assume v: "validate c = Inr ()"
  then obtain w where "chunk_version c = Some w" "isSet w"
    unfolding validate_iff by blast
  then show ?thesis
    using v by (simp add: built_def Chunk_def)
qed

text \<open>
  C9: refreshing a routing table with changed chunks that cover whole chunks of it, in the order
  of their versions and newer than the table, succeeds; the new table again partitions the key
  space with the views built from its chunks, carries the version of the last changed chunk, and
  refines the abstract update of the routing function: a key of a changed chunk is routed to that
  chunk, every other key is routed as before.
\<close>

theorem makeUpdated_refines:
  assumes "manager_of a b cm" "changes_fit (chunkMap cm) cs" "newer_changes (collectionVersion cm) cs"
    "cs \<noteq> []" "version_less (collectionVersion cm) (the (chunk_version (last cs)))"
  shows "\<exists>cm'. makeUpdated rnd seq cm cs = Inr (seq + 1, cm') \<and> manager_of a b cm'
    \<and> collectionVersion cm' = the (chunk_version (last cs))
    \<and> (\<forall>k. findIntersectingChunkWithSimpleCollation cm' k =
        (case List.find (\<lambda>c. keyOf k \<in> ivl (type_ivl c)) cs of
           Some c \<Rightarrow> Chunk (rnd c) c
         | None \<Rightarrow> findIntersectingChunkWithSimpleCollation cm k))"
proof -
  let ?w = "the (chunk_version (last cs))"
  have m: "chunk_partition a b (chunkMap cm)" "loadable (chunkMap cm)"
    using assms(1) by (simp_all add: manager_of_def)
  obtain m' where app: "applyChangedChunks rnd (chunkMap cm, collectionVersion cm) cs = Inr (m', ?w)"
    using applyChangedChunks_newer [OF assms(3)] assms(4) by (auto simp: last_map)
  note p' = applyChangedChunks_partition [OF app m(1) assms(2)]
  have "isSet (lastmod (snd e))" if "e \<in> set m'" for e
    using applyChangedChunks_Inr [OF app chunk_partition_keyed [OF m(1)]] that assms(2) m(2)
      newer_changes_valid [OF assms(3)] built_isSet by (auto simp: changes_fit_def loadable_def)
  then have l': "loadable m'"
    using loadable_same_ends [OF m p'] by blast
  then obtain views where views: "constructChunkMapViews (epoch ?w) m' = Inr views"
    using constructChunkMapViews_ok [OF p'] by blast
  have ne: "\<not> version_equals ?w (collectionVersion cm)"
    using assms(5) by (auto simp: version_equals_def version_less_def)
  define cm' where "cm' = \<lparr>sequenceNumber = seq + 1, cm_nss = cm_nss cm, cm_keyPattern = cm_keyPattern cm,
    cm_hasCollator = cm_hasCollator cm, cm_unique = cm_unique cm, chunkMap = m', chunkMapViews = views,
    collectionVersion = ?w\<rparr>"
  have "makeUpdated rnd seq cm cs = Inr (seq + 1, cm')"
    using ne by (simp add: makeUpdated_def app ChunkManager_def views cm'_def)
  moreover have cm': "chunkMap cm' = m'" "collectionVersion cm' = ?w" "chunkMapViews cm' = views"
    by (simp_all add: cm'_def)
  moreover have "manager_of a b cm'"
    using p' l' views by (simp add: manager_of_def cm')
  moreover note update_routes [of a b "chunkMap cm" cm', unfolded cm', OF m(1) p' assms(2) app refl]
  ultimately show ?thesis
    by blast
qed

definition sample_split :: "chunk_type list" where
  "sample_split = [ChunkType ''d.c'' \<lparr>minKey = int_key 0, maxKey = int_key 5\<rparr> (ChunkVersion 1 3 7) ''s0'',
     ChunkType ''d.c'' \<lparr>minKey = int_key 5, maxKey = int_key 10\<rparr> (ChunkVersion 1 4 7) ''s0'']"

lemma sample_split_fit: "changes_fit (chunkMap sample_manager) sample_split"
proof -
  have T: "type_ivl ` set sample_split =
      {(keyOf (int_key 0), keyOf (int_key 5)), (keyOf (int_key 5), keyOf (int_key 10))}"
    by (simp add: sample_split_def ChunkType_def)
  have S: "map_ivls (chunkMap sample_manager) = {(keyOf min_key, keyOf (int_key 0)),
      (keyOf (int_key 0), keyOf (int_key 10)), (keyOf (int_key 10), keyOf max_key)}"
    by (simp add: map_ivls_def sample_manager_def sample_map_def chunk_at_def)
  have U: "{keyOf (int_key 0)..<keyOf (int_key 5)} \<union> {keyOf (int_key 5)..<keyOf (int_key 10)}
      = {keyOf (int_key 0)..<keyOf (int_key 10)}"
    by (rule ivl_disj_un_two(3)) (simp_all add: less_imp_le)
  have "aligned (type_ivl ` set sample_split) (map_ivls (chunkMap sample_manager))"
    unfolding T S aligned_def using U by (auto simp: ivl_def)
  then show ?thesis
    by (simp add: changes_fit_def) (simp add: sample_split_def ChunkType_def ivl_def)
qed

theorem makeUpdated_refines_witness:
  "\<exists>cm'. makeUpdated (\<lambda>_. 0) 1 sample_manager sample_split = Inr (2, cm')
    \<and> findIntersectingChunkWithSimpleCollation cm' (int_key 7) = Chunk 0 (last sample_split)"
proof -
  have "newer_changes (collectionVersion sample_manager) sample_split"
    by (simp add: sample_split_def sample_manager_def validate_iff ChunkType_def isSet_def ChunkVersion_def
        version_le_def compareInts_def)
  moreover have "version_less (collectionVersion sample_manager) (the (chunk_version (last sample_split)))"
    by (simp add: sample_split_def sample_manager_def ChunkType_def ChunkVersion_def version_less_def)
  moreover have "List.find (\<lambda>c. keyOf (int_key 7) \<in> ivl (type_ivl c)) sample_split = Some (last sample_split)"
    by (simp add: sample_split_def ChunkType_def ivl_def)
  moreover have "sample_split \<noteq> []"
    by (simp add: sample_split_def)
  ultimately show ?thesis
    using makeUpdated_refines [OF sample_manager_of sample_split_fit, of "\<lambda>_. 0" 1] by auto
qed

end
