(* ===== verification/Shard_Key_Pattern.thy ===== *)
theory Shard_Key_Pattern
  imports Key_Order
begin

text \<open>
  Key patterns and shard keys (\<open>db/keypattern.cpp\<close>, \<open>s/shard_key_pattern.cpp\<close>), with what they
  use of dotted paths (\<open>db/field_ref.cpp\<close>, \<open>db/matcher/path_internal.cpp\<close>,
  \<open>db/matcher/path.cpp\<close>), of the size of documents and of the check that a document may be stored.
  The hash of hashed keys (\<open>BSONElementHasher::hash64\<close>, an MD5 digest) is the parameter
  \<open>hash64\<close>.
\<close>

subsection \<open>Numbers\<close>

text \<open>
  The conversion of a double to an integer type it does not fit is undefined; the value is the
  one the x86-64 conversion instruction gives.
\<close>

definition double_to_int :: "64 word \<Rightarrow> 32 word" where
  "double_to_int d =
     (case double_val d of
        NumFin r \<Rightarrow> (let i = rat_trunc r in
          if - (2 ^ 31) \<le> i \<and> i < 2 ^ 31 then word_of_int i else 0x80000000)
      | _ \<Rightarrow> 0x80000000)"

definition numberInt :: "bson_value \<Rightarrow> 32 word" where
  "numberInt v =
     (case v of
        NumberDouble d \<Rightarrow> double_to_int d
      | NumberInt i \<Rightarrow> i
      | NumberLong i \<Rightarrow> ucast i
      | _ \<Rightarrow> 0)"

subsection \<open>Sizes\<close>

function elementSize :: "bson_element \<Rightarrow> nat" and fieldsSize :: "bson_obj \<Rightarrow> nat"
where
  "elementSize (name, v) =
     (let fieldNameSize = length name + 1
      in case v of
           NumberDouble _ \<Rightarrow> 9 + fieldNameSize
         | String s \<Rightarrow> 5 + fieldNameSize + (length s + 1)
         | Object es \<Rightarrow> 1 + fieldNameSize + (4 + fieldsSize es + 1)
         | Array es \<Rightarrow> 1 + fieldNameSize + (4 + fieldsSize es + 1)
         | BinData _ s \<Rightarrow> 6 + fieldNameSize + length s
         | Undefined \<Rightarrow> 1 + fieldNameSize
         | JstOID _ \<Rightarrow> 13 + fieldNameSize
         | Bool _ \<Rightarrow> 2 + fieldNameSize
         | Date _ \<Rightarrow> 9 + fieldNameSize
         | JstNULL \<Rightarrow> 1 + fieldNameSize
         | RegEx r f \<Rightarrow> (length r + 1 + length f + 1) + fieldNameSize + 1
         | DBRef s _ \<Rightarrow> 17 + fieldNameSize + (length s + 1)
         | Code s \<Rightarrow> 5 + fieldNameSize + (length s + 1)
         | Symbol s \<Rightarrow> 5 + fieldNameSize + (length s + 1)
         | CodeWScope s es \<Rightarrow> 1 + fieldNameSize + (4 + (4 + length s + 1) + (4 + fieldsSize es + 1))
         | NumberInt _ \<Rightarrow> 5 + fieldNameSize
         | Timestamp _ \<Rightarrow> 9 + fieldNameSize
         | NumberLong _ \<Rightarrow> 9 + fieldNameSize
         | MinKey \<Rightarrow> 1 + fieldNameSize
         | MaxKey \<Rightarrow> 1 + fieldNameSize)"
| "fieldsSize [] = 0"
| "fieldsSize (e # es) = elementSize e + fieldsSize es"
  by pat_completeness auto
termination
  by (relation "measure (\<lambda>x. case x of Inl e \<Rightarrow> size_prod (\<lambda>_. 0) size e
      | Inr es \<Rightarrow> size_list (size_prod (\<lambda>_. 0) size) es)") auto

definition objsize :: "bson_obj \<Rightarrow> nat" where
  "objsize ob = 4 + fieldsSize ob + 1"

subsection \<open>Documents that may be stored\<close>

definition startsWithDollar :: "string \<Rightarrow> bool" where
  "startsWithDollar name = (case name of c # _ \<Rightarrow> c = CHR ''$'' | [] \<Rightarrow> False)"

function storageValid :: "bool \<Rightarrow> bson_obj \<Rightarrow> unit result"
  and storageValidValue :: "bson_value \<Rightarrow> unit result"
where
  "storageValid first [] = Inr ()"
| "storageValid first ((name, v) # rest) =
     (if startsWithDollar name then
        if first \<and> name = ''$ref'' \<and> bson_type_of v = TString then
          (case rest of
             [] \<Rightarrow> Inl (Error DollarPrefixedFieldName)
           | (name2, v2) # rest2 \<Rightarrow>
               if name2 \<noteq> ''$id'' then Inl (Error DollarPrefixedFieldName)
               else (case rest2 of
                  [] \<Rightarrow> Inr ()
                | (name3, v3) # rest3 \<Rightarrow>
                    if name3 = ''$db'' \<and> bson_type_of v3 = TString then storageValid False rest3
                    else if startsWithDollar name3 then Inl (Error DollarPrefixedFieldName)
                    else rbind (storageValidValue v3) (\<lambda>_. storageValid False rest3)))
        else Inl (Error DollarPrefixedFieldName)
      else rbind (storageValidValue v) (\<lambda>_. storageValid False rest))"
| "storageValidValue v =
     (case v of
        Object es \<Rightarrow> storageValid True es
      | Array es \<Rightarrow> storageValid True es
      | CodeWScope _ es \<Rightarrow> storageValid True es
      | _ \<Rightarrow> Inr ())"
  by pat_completeness auto
termination
  by (relation "measure (\<lambda>x. case x of Inl (_, es) \<Rightarrow> size_list (size_prod (\<lambda>_. 0) size) es
      | Inr v \<Rightarrow> size v)") auto

definition storageValidEmbedded :: "bson_obj \<Rightarrow> unit result" where
  "storageValidEmbedded ob = storageValid True ob"

subsection \<open>Dotted paths\<close>

fun splitDots :: "string \<Rightarrow> string \<Rightarrow> string list" where
  "splitDots part [] = [part]"
| "splitDots part (c # cs) =
     (if c \<noteq> CHR ''.'' then splitDots (part @ [c]) cs else part # splitDots [] cs)"

definition FieldRef_parse :: "string \<Rightarrow> string list" where
  "FieldRef_parse path = (if path = [] then [] else splitDots [] path)"

fun joinDots :: "string list \<Rightarrow> string" where
  "joinDots [] = []"
| "joinDots [p] = p"
| "joinDots (p # ps) = p @ CHR ''.'' # joinDots ps"

text \<open>The element a path leads to, and the part at which the walk stopped.\<close>

fun walkPath :: "bson_obj \<Rightarrow> string list \<Rightarrow> nat \<Rightarrow> bson_value option \<Rightarrow> bson_value option \<times> nat" where
  "walkPath cur [] n res = (res, n)"
| "walkPath cur (part # parts) n res =
     (case getField cur part of
        None \<Rightarrow> (None, n)
      | Some (Object es) \<Rightarrow> walkPath es parts (n + 1) (Some (Object es))
      | Some (Array es) \<Rightarrow> (Some (Array es), n)
      | Some v \<Rightarrow> (if parts \<noteq> [] then None else Some v, n))"

definition getFieldDottedOrArray :: "bson_obj \<Rightarrow> string list \<Rightarrow> bson_value option \<times> nat" where
  "getFieldDottedOrArray doc path =
     (if path = [] then (getField doc [], 0) else walkPath doc path 0 None)"

subsection \<open>Key patterns\<close>

definition HASHED :: string where
  "HASHED = ''hashed''"

definition BTREE :: string where
  "BTREE = []"

fun findPluginName :: "bson_obj \<Rightarrow> string" where
  "findPluginName [] = BTREE"
| "findPluginName ((n, v) # es) = (case v of String s \<Rightarrow> s | _ \<Rightarrow> findPluginName es)"

definition isIdKeyPattern :: "bson_obj \<Rightarrow> bool" where
  "isIdKeyPattern pattern =
     (case pattern of
        [(n, v)] \<Rightarrow> n = ''_id'' \<and> (numberInt v = 1 \<or> numberInt v = -1)
      | _ \<Rightarrow> False)"

definition isOrderedKeyPattern :: "bson_obj \<Rightarrow> bool" where
  "isOrderedKeyPattern pattern = (BTREE = findPluginName pattern)"

definition isHashedKeyPattern :: "bson_obj \<Rightarrow> bool" where
  "isHashedKeyPattern pattern = (HASHED = findPluginName pattern)"

definition extendElement :: "bool \<Rightarrow> bson_element \<Rightarrow> bson_element" where
  "extendElement makeUpperInclusive patElt =
     (let order = (if isNumber (snd patElt) then numberInt (snd patElt) else 1);
          order' = (if makeUpperInclusive then order * -1 else order)
      in (fst patElt, if sint order' > 0 then MinKey else MaxKey))"

fun extendRangeBound :: "bson_obj \<Rightarrow> bson_obj \<Rightarrow> bool \<Rightarrow> bson_obj result" where
  "extendRangeBound pattern [] makeUpperInclusive = Inr (map (extendElement makeUpperInclusive) pattern)"
| "extendRangeBound [] (srcElt # src) makeUpperInclusive = Inl (Error (ErrorNo 16649))"
| "extendRangeBound (patElt # pat) (srcElt # src) makeUpperInclusive =
     rbind (uassert (ErrorNo 16634) (fst srcElt = fst patElt)) (\<lambda>_.
     rbind (extendRangeBound pat src makeUpperInclusive) (\<lambda>newBound. Inr (srcElt # newBound)))"

definition globalMin :: "bson_obj \<Rightarrow> bson_obj result" where
  "globalMin pattern = extendRangeBound pattern [] False"

definition globalMax :: "bson_obj \<Rightarrow> bson_obj result" where
  "globalMax pattern = extendRangeBound pattern [] True"

subsection \<open>Shard key patterns\<close>

definition isHashedPatternEl :: "bson_value \<Rightarrow> bool" where
  "isHashedPatternEl v = (case v of String s \<Rightarrow> s = HASHED | _ \<Rightarrow> False)"

fun parsePatternElements :: "bson_obj \<Rightarrow> bson_obj \<Rightarrow> string list list result" where
  "parsePatternElements pattern [] = Inr []"
| "parsePatternElements pattern (patternEl # es) =
     (let newFieldRef = FieldRef_parse (fst patternEl)
      in rbind (uassert BadValue (length newFieldRef > 0)) (\<lambda>_.
         rbind (uassert BadValue (joinDots newFieldRef = fst patternEl)) (\<lambda>_.
         rbind (uassert BadValue (list_all (\<lambda>part. part \<noteq> []) newFieldRef)) (\<lambda>_.
         rbind (uassert BadValue
           (isNumber (snd patternEl) \<and> numberInt (snd patternEl) = 1 \<or>
            nFields pattern = 1 \<and> isHashedPatternEl (snd patternEl))) (\<lambda>_.
         rbind (parsePatternElements pattern es) (\<lambda>paths. Inr (newFieldRef # paths)))))))"

definition parseShardKeyPattern :: "bson_obj \<Rightarrow> string list list result" where
  "parseShardKeyPattern pattern =
     rbind (uassert BadValue (pattern \<noteq> [])) (\<lambda>_. parsePatternElements pattern pattern)"

record shard_key_pattern =
  keyPattern :: bson_obj
  keyPatternPaths :: "string list list"
  hasId :: bool

definition ShardKeyPattern :: "bson_obj \<Rightarrow> shard_key_pattern result" where
  "ShardKeyPattern pattern =
     rbind (parseShardKeyPattern pattern) (\<lambda>paths.
       Inr \<lparr>keyPattern = pattern, keyPatternPaths = paths, hasId = hasField pattern ''_id''\<rparr>)"

definition isHashedPattern :: "shard_key_pattern \<Rightarrow> bool" where
  "isHashedPattern p = (case keyPattern p of [] \<Rightarrow> False | e # _ \<Rightarrow> isHashedPatternEl (snd e))"

definition isValidShardKeyElement :: "bson_value option \<Rightarrow> bool" where
  "isValidShardKeyElement e = (case e of None \<Rightarrow> False | Some v \<Rightarrow> bson_type_of v \<noteq> TArray)"

definition isValidShardKeyElementForStorage :: "bson_value option \<Rightarrow> bool" where
  "isValidShardKeyElementForStorage e =
     (if \<not> isValidShardKeyElement e then False
      else case e of
          Some (RegEx _ _) \<Rightarrow> False
        | Some (Object es) \<Rightarrow> storageValidEmbedded es = Inr ()
        | _ \<Rightarrow> True)"

definition extractKeyElementFromMatchable :: "bson_obj \<Rightarrow> string \<Rightarrow> bson_value option" where
  "extractKeyElementFromMatchable doc pathStr =
     (let path = FieldRef_parse pathStr;
          (start, idx) = getFieldDottedOrArray doc path
      in case start of
           Some (Array es) \<Rightarrow> if joinDots (drop (idx + 1) path) \<noteq> [] then None else start
         | _ \<Rightarrow> start)"

definition kMaxShardKeySizeBytes :: nat where
  "kMaxShardKeySizeBytes = 512"

definition checkShardKeySize :: "bson_obj \<Rightarrow> unit result" where
  "checkShardKeySize shardKey =
     (if objsize shardKey \<le> kMaxShardKeySizeBytes then Inr () else Inl (Error ShardKeyTooBig))"

definition checkShardKeyIsValidForMetadataStorage :: "bson_obj \<Rightarrow> unit result" where
  "checkShardKeyIsValidForMetadataStorage shardKey =
     (if list_all (\<lambda>elem. isValidShardKeyElementForStorage (Some (snd elem))) shardKey then Inr ()
      else Inl (Error BadValue))"

definition isShardKey :: "shard_key_pattern \<Rightarrow> bson_obj \<Rightarrow> bool" where
  "isShardKey p shardKey =
     (if list_all (\<lambda>patternEl. isValidShardKeyElement (getField shardKey (fst patternEl))) (keyPattern p)
      then nFields shardKey = nFields (keyPattern p) else False)"

fun normalizeElements :: "bson_obj \<Rightarrow> bson_obj \<Rightarrow> bson_obj \<Rightarrow> bson_obj" where
  "normalizeElements shardKey keyBuilder [] = keyBuilder"
| "normalizeElements shardKey keyBuilder (patternEl # es) =
     (let keyEl = getField shardKey (fst patternEl)
      in if \<not> isValidShardKeyElement keyEl then []
         else normalizeElements shardKey (keyBuilder @ [(fst patternEl, the keyEl)]) es)"

definition normalizeShardKey :: "shard_key_pattern \<Rightarrow> bson_obj \<Rightarrow> bson_obj" where
  "normalizeShardKey p shardKey =
     (if nFields shardKey > nFields (keyPattern p) then []
      else normalizeElements shardKey [] (keyPattern p))"

fun extractElements :: "(bson_value \<Rightarrow> 64 word) \<Rightarrow> bson_obj \<Rightarrow> bson_obj \<Rightarrow> bson_obj \<Rightarrow> bson_obj" where
  "extractElements hash64 doc keyBuilder [] = keyBuilder"
| "extractElements hash64 doc keyBuilder (patternEl # es) =
     (let matchEl = extractKeyElementFromMatchable doc (fst patternEl)
      in if \<not> isValidShardKeyElement matchEl then []
         else if isHashedPatternEl (snd patternEl)
         then extractElements hash64 doc
                (keyBuilder @ [(fst patternEl, NumberLong (hash64 (the matchEl)))]) es
         else extractElements hash64 doc (keyBuilder @ [(fst patternEl, the matchEl)]) es)"

definition extractShardKeyFromDoc ::
    "(bson_value \<Rightarrow> 64 word) \<Rightarrow> shard_key_pattern \<Rightarrow> bson_obj \<Rightarrow> bson_obj" where
  "extractShardKeyFromDoc hash64 p doc = extractElements hash64 doc [] (keyPattern p)"

fun isFieldNamePrefixOf :: "bson_obj \<Rightarrow> bson_obj \<Rightarrow> bool" where
  "isFieldNamePrefixOf [] other = True"
| "isFieldNamePrefixOf (x # xs) [] = False"
| "isFieldNamePrefixOf (x # xs) (y # ys) = (if fst x \<noteq> fst y then False else isFieldNamePrefixOf xs ys)"

definition isUniqueIndexCompatible :: "shard_key_pattern \<Rightarrow> bson_obj \<Rightarrow> bool" where
  "isUniqueIndexCompatible p uniqueIndexPattern =
     (if uniqueIndexPattern \<noteq> [] \<and> fst (hd uniqueIndexPattern) = ''_id'' then True
      else isFieldNamePrefixOf (keyPattern p) uniqueIndexPattern)"

subsection \<open>Correctness\<close>

lemma joinDots_Cons: "ps \<noteq> [] \<Longrightarrow> joinDots (p # ps) = p @ CHR ''.'' # joinDots ps"
  by (cases ps) simp_all

lemma splitDots_nonempty [simp]: "splitDots part s \<noteq> []"
  by (induction part s rule: splitDots.induct) auto

lemma joinDots_splitDots: "joinDots (splitDots part s) = part @ s"
  by (induction part s rule: splitDots.induct) (auto simp: joinDots_Cons)

lemma joinDots_parse [simp]: "joinDots (FieldRef_parse path) = path"
  by (simp add: FieldRef_parse_def joinDots_splitDots)

definition pattern_element_ok :: "bson_obj \<Rightarrow> bson_element \<Rightarrow> bool" where
  "pattern_element_ok pattern e \<longleftrightarrow> fst e \<noteq> [] \<and> (\<forall>part\<in>set (FieldRef_parse (fst e)). part \<noteq> []) \<and>
     (isNumber (snd e) \<and> numberInt (snd e) = 1 \<or> length pattern = 1 \<and> snd e = String HASHED)"

lemma FieldRef_parse_empty [simp]: "FieldRef_parse path = [] \<longleftrightarrow> path = []"
  by (simp add: FieldRef_parse_def)

lemma isHashedPatternEl_iff: "isHashedPatternEl v \<longleftrightarrow> v = String HASHED"
  by (auto simp: isHashedPatternEl_def split: bson_value.splits)

lemma parsePatternElements_eq:
  "parsePatternElements pattern es =
     (if \<forall>e\<in>set es. pattern_element_ok pattern e then Inr (map (\<lambda>e. FieldRef_parse (fst e)) es)
      else Inl (Error BadValue))"
  by (induction pattern es rule: parsePatternElements.induct)
    (auto simp: pattern_element_ok_def nFields_def isHashedPatternEl_iff list_all_iff uassert_def Let_def)



lemma extractElements_eq:
  "extractElements hash64 doc kb es =
     (if \<forall>e\<in>set es. isValidShardKeyElement (extractKeyElementFromMatchable doc (fst e))
      then kb @ map (\<lambda>e. (fst e, let v = the (extractKeyElementFromMatchable doc (fst e))
        in if isHashedPatternEl (snd e) then NumberLong (hash64 v) else v)) es
      else [])"
  by (induction hash64 doc kb es rule: extractElements.induct) (auto simp: Let_def)

lemma getField_mem: "getField es n = Some v \<Longrightarrow> (n, v) \<in> set es"
  by (induction es n rule: getField.induct) (auto split: if_splits)

lemma getField_names: "n \<in> fst ` set es \<Longrightarrow> getField es n \<noteq> None"
  by (induction es n rule: getField.induct) auto

text \<open>The fields of a document a dotted path may not cross or reach: missing ones and arrays.\<close>

lemma isShardKey_names:
  assumes "map fst key = map fst (keyPattern p)" "\<forall>e\<in>set key. bson_type_of (snd e) \<noteq> TArray"
  shows "isShardKey p key"
proof -
  have "isValidShardKeyElement (getField key (fst e))" if "e \<in> set (keyPattern p)" for e
  proof -
    have "fst e \<in> fst ` set key"
      using that assms(1) by (metis image_eqI list.set_map)
    then obtain v where "getField key (fst e) = Some v"
      using getField_names by fastforce
    then show ?thesis
      using getField_mem [of key "fst e" v] assms(2) by (auto simp: isValidShardKeyElement_def)
  qed
  moreover have "length key = length (keyPattern p)"
    using assms(1) by (metis length_map)
  ultimately show ?thesis
    by (simp add: isShardKey_def list_all_iff nFields_def)
qed

text \<open>The reference meaning of a path: descend through documents only.\<close>

fun lookup_path :: "bson_obj \<Rightarrow> string list \<Rightarrow> bson_value option" where
  "lookup_path doc [] = None"
| "lookup_path doc [part] = getField doc part"
| "lookup_path doc (part # parts) =
     (case getField doc part of Some (Object es) \<Rightarrow> lookup_path es parts | _ \<Rightarrow> None)"

lemma walkPath_step:
  "getField doc part = Some (Object es) \<Longrightarrow> walkPath doc (part # parts) n res = walkPath es parts (n + 1) (Some (Object es))"
  "getField doc part = Some (Array es) \<Longrightarrow> walkPath doc (part # parts) n res = (Some (Array es), n)"
  "getField doc part = None \<Longrightarrow> walkPath doc (part # parts) n res = (None, n)"
  "\<lbrakk>getField doc part = Some v; \<And>es. v \<noteq> Object es; \<And>es. v \<noteq> Array es\<rbrakk>
    \<Longrightarrow> walkPath doc (part # parts) n res = (if parts \<noteq> [] then None else Some v, n)"
  by (simp_all split: bson_value.splits)

declare walkPath.simps(2) [simp del]

lemma lookup_path_step:
  "parts \<noteq> [] \<Longrightarrow> lookup_path doc (part # parts) =
    (case getField doc part of Some (Object es) \<Rightarrow> lookup_path es parts | _ \<Rightarrow> None)"
  by (cases parts) auto

definition is_array :: "bson_value option \<Rightarrow> bool" where
  "is_array v \<longleftrightarrow> (\<exists>es. v = Some (Array es))"

lemma walkPath_spec:
  assumes "parts \<noteq> []" "walkPath doc parts n res = (r, i)"
  shows "lookup_path doc parts = (if is_array r \<and> drop (i - n + 1) parts \<noteq> [] then None else r) \<and> n \<le> i"
  using assms
proof (induction parts arbitrary: doc n res)
  case (Cons part parts)
  consider es where "getField doc part = Some (Object es)" | es where "getField doc part = Some (Array es)"
    | "getField doc part = None"
    | v where "getField doc part = Some v" "\<And>es. v \<noteq> Object es" "\<And>es. v \<noteq> Array es"
    by (cases "getField doc part") auto
  then show ?case
  proof cases
    case (1 es)
    show ?thesis
    proof (cases "parts = []")
      case True
      then show ?thesis
        using Cons.prems 1 by (auto simp: walkPath_step(1) is_array_def)
    next
      case False
      then have "lookup_path es parts = (if is_array r \<and> drop (i - (n + 1) + 1) parts \<noteq> [] then None else r)"
        "n + 1 \<le> i"
        using Cons.IH [OF False, of es "n + 1" "Some (Object es)"] Cons.prems(2)
        by (simp_all add: walkPath_step(1) [OF 1])
      moreover from this have "i - n + 1 = Suc (i - (n + 1) + 1)"
        by simp
      ultimately show ?thesis
        using 1 False by (simp add: lookup_path_step)
    qed
  next
    case (2 es)
    then have "r = Some (Array es)" "i = n"
      using Cons.prems(2) by (simp_all add: walkPath_step(2))
    then show ?thesis
      using 2 by (cases "parts = []") (simp_all add: lookup_path_step is_array_def)
  next
    case 3
    then show ?thesis
      using Cons.prems by (cases "parts = []") (auto simp: walkPath_step(3) lookup_path_step is_array_def)
  next
    case (4 v)
    then have "r = (if parts \<noteq> [] then None else Some v)" "i = n"
      using Cons.prems(2) by (simp_all add: walkPath_step(4) [OF 4] del: walkPath.simps)
    moreover have "(case v of Object es \<Rightarrow> lookup_path es parts | _ \<Rightarrow> None) = None"
      using 4(2) by (simp split: bson_value.splits)
    ultimately show ?thesis
      using 4 by (cases "parts = []") (auto simp: lookup_path_step is_array_def)
  qed
qed simp

lemma joinDots_nonempty: "\<lbrakk>ps \<noteq> []; \<forall>p\<in>set ps. p \<noteq> []\<rbrakk> \<Longrightarrow> joinDots ps \<noteq> []"
  by (induction ps rule: joinDots.induct) auto

lemma extractKeyElement_lookup:
  assumes "path \<noteq> []" "\<forall>part\<in>set (FieldRef_parse path). part \<noteq> []"
  shows "extractKeyElementFromMatchable doc path = lookup_path doc (FieldRef_parse path)"
proof -
  have rest: "joinDots (drop k (FieldRef_parse path)) = [] \<longleftrightarrow> drop k (FieldRef_parse path) = []" for k
    using joinDots_nonempty [of "drop k (FieldRef_parse path)"] assms(2)
    by (auto dest: in_set_dropD)
  obtain r i where w: "walkPath doc (FieldRef_parse path) 0 None = (r, i)"
    by fastforce
  have "extractKeyElementFromMatchable doc path =
      (if is_array r \<and> drop (i + 1) (FieldRef_parse path) \<noteq> [] then None else r)"
    using assms(1) w
    by (cases r rule: option.exhaust)
      (auto simp: extractKeyElementFromMatchable_def getFieldDottedOrArray_def rest [of "i + 1", simplified]
        is_array_def split: bson_value.splits)
  then show ?thesis
    using walkPath_spec [OF _ w] assms(1) by simp
qed

text \<open>
  C30: the shard key of a document has exactly the fields of the pattern, in its order, each with
  the value its path leads to through nested documents (hashed when the pattern says so), and is a
  shard key of the pattern; it is empty when a path leads to no value or to an array.
\<close>

theorem extractShardKey_correct:
  assumes "ShardKeyPattern pattern = Inr p"
  shows "extractShardKeyFromDoc hash64 p doc =
      (if \<forall>e\<in>set pattern. isValidShardKeyElement (lookup_path doc (FieldRef_parse (fst e)))
       then map (\<lambda>e. (fst e, let v = the (lookup_path doc (FieldRef_parse (fst e)))
         in if snd e = String HASHED then NumberLong (hash64 v) else v)) pattern
       else [])
    \<and> (extractShardKeyFromDoc hash64 p doc \<noteq> [] \<longrightarrow> isShardKey p (extractShardKeyFromDoc hash64 p doc))"
proof -
  have pat: "keyPattern p = pattern" "\<forall>e\<in>set pattern. pattern_element_ok pattern e"
    using assms unfolding ShardKeyPattern_def parseShardKeyPattern_def parsePatternElements_eq
    by (auto simp: rbind_Inr_iff split: if_splits)
  have look: "extractKeyElementFromMatchable doc (fst e) = lookup_path doc (FieldRef_parse (fst e))"
    if "e \<in> set pattern" for e
    using extractKeyElement_lookup [of "fst e" doc] pat(2) that by (auto simp: pattern_element_ok_def)
  have eq: "extractShardKeyFromDoc hash64 p doc =
      (if \<forall>e\<in>set pattern. isValidShardKeyElement (lookup_path doc (FieldRef_parse (fst e)))
       then map (\<lambda>e. (fst e, let v = the (lookup_path doc (FieldRef_parse (fst e)))
         in if snd e = String HASHED then NumberLong (hash64 v) else v)) pattern
       else [])"
    using look by (simp add: extractShardKeyFromDoc_def extractElements_eq pat(1) isHashedPatternEl_iff cong: if_cong)
  have "isShardKey p (extractShardKeyFromDoc hash64 p doc)" if ne: "extractShardKeyFromDoc hash64 p doc \<noteq> []"
  proof -
    have valid: "\<forall>e\<in>set pattern. isValidShardKeyElement (lookup_path doc (FieldRef_parse (fst e)))"
      using ne unfolding eq by (meson)
    show ?thesis
      by (rule isShardKey_names)
        (use valid in \<open>auto simp: eq pat(1) isValidShardKeyElement_def Let_def split: option.splits\<close>)
  qed
  then show ?thesis
    using eq by blast
qed

theorem extractShardKey_correct_witness:
  "\<exists>p. ShardKeyPattern [(''a.b'', NumberInt 1)] = Inr p \<and>
    extractShardKeyFromDoc (\<lambda>_. 0) p [(''x'', JstNULL), (''a'', Object [(''b'', Bool True)])]
      = [(''a.b'', Bool True)]"
proof -
  let ?p = "\<lparr>keyPattern = [(''a.b'', NumberInt 1)], keyPatternPaths = [[''a'', ''b'']], hasId = False\<rparr>"
  have p: "ShardKeyPattern [(''a.b'', NumberInt 1)] = Inr ?p"
    by (simp add: ShardKeyPattern_def parseShardKeyPattern_def FieldRef_parse_def isNumber_def numberInt_def)
  show ?thesis
    using p extractShardKey_correct [OF p, of "\<lambda>_. 0" "[(''x'', JstNULL), (''a'', Object [(''b'', Bool True)])]"]
    by (simp add: FieldRef_parse_def isValidShardKeyElement_def)
qed

subsection \<open>Bounds of keys\<close>

definition elem_le :: "bson_element \<Rightarrow> bson_element \<Rightarrow> bool" where
  "elem_le p q \<longleftrightarrow> fst p = fst q \<and> woCompareElement True p q \<le> 0"

lemma componentwise_le:
  assumes "list_all2 elem_le xs ys"
  shows "keyOf xs \<le> keyOf ys"
proof -
  have "compareNested xs ys \<le> 0"
    using assms by (induction rule: list_all2_induct) (auto simp: elem_le_def)
  then show ?thesis
    by (simp add: key_simps flip: woCompare_nested)
qed

lemma woCompareElement_refl [simp]: "woCompareElement True e e = 0"
proof -
  have "woCompare [e] [e] = 0"
    by (simp add: key_simps)
  then show ?thesis
    unfolding woCompare_nested compareNested_simps by (metis)
qed

lemma elem_le_refl [simp]: "elem_le e e"
  by (simp add: elem_le_def)

lemma elem_le_extreme [simp]: "elem_le (n, MinKey) (n, v)" "elem_le (n, v) (n, MaxKey)"
proof -
  have ct: "-1 \<le> canonicalType v" "canonicalType v \<le> 127"
    by (cases v; simp)+
  show "elem_le (n, MinKey) (n, v)"
  proof (cases "v = MinKey")
    case False
    then have "canonicalType v \<noteq> -1"
      by (simp add: canonicalType_cases)
    then show ?thesis
      using ct by (simp add: elem_le_def woCompareElement_lex)
  qed simp
  show "elem_le (n, v) (n, MaxKey)"
  proof (cases "v = MaxKey")
    case False
    then have "canonicalType v \<noteq> 127"
      by (simp add: canonicalType_cases)
    then show ?thesis
      using ct by (simp add: elem_le_def woCompareElement_lex)
  qed simp
qed

definition ascending :: "bson_element \<Rightarrow> bool" where
  "ascending e \<longleftrightarrow> (isNumber (snd e) \<longrightarrow> numberInt (snd e) = 1)"

lemma extendElement_ascending:
  "ascending e \<Longrightarrow> extendElement False e = (fst e, MinKey)"
  "ascending e \<Longrightarrow> extendElement True e = (fst e, MaxKey)"
  by (auto simp: extendElement_def ascending_def)

lemma extend_brackets:
  assumes "\<forall>e\<in>set pattern. ascending e" "map fst key = map fst pattern"
  shows "\<exists>l h. extendRangeBound pattern (take n key) False = Inr l \<and> list_all2 elem_le l key \<and>
    extendRangeBound pattern (take n key) True = Inr h \<and> list_all2 elem_le key h"
  using assms
proof (induction key arbitrary: n pattern)
  case Nil
  then show ?case
    by simp
next
  case (Cons k key)
  then obtain e pat where pat: "pattern = e # pat" "fst k = fst e" "map fst key = map fst pat"
    "ascending e" "\<forall>e\<in>set pat. ascending e"
    by (cases pattern) auto
  show ?case
  proof (cases n)
    case 0
    obtain l h where lh: "extendRangeBound pat (take 0 key) False = Inr l" "list_all2 elem_le l key"
      "extendRangeBound pat (take 0 key) True = Inr h" "list_all2 elem_le key h"
      using Cons.IH [OF pat(5,3), of 0] by blast
    moreover have "k = (fst e, snd k)"
      by (simp add: pat(2) [symmetric])
    then have "elem_le (fst e, MinKey) k" "elem_le k (fst e, MaxKey)"
      by (metis elem_le_extreme)+
    ultimately show ?thesis
      using 0 pat by (simp add: extendElement_ascending)
  next
    case (Suc m)
    obtain l h where "extendRangeBound pat (take m key) False = Inr l" "list_all2 elem_le l key"
      "extendRangeBound pat (take m key) True = Inr h" "list_all2 elem_le key h"
      using Cons.IH [OF pat(5,3), of m] by blast
    then show ?thesis
      using Suc pat by simp
  qed
qed

lemma pattern_ascending:
  assumes "ShardKeyPattern pattern = Inr p" "e \<in> set pattern"
  shows "ascending e"
proof -
  have "pattern_element_ok pattern e"
    using assms unfolding ShardKeyPattern_def parseShardKeyPattern_def parsePatternElements_eq
    by (auto simp: rbind_Inr_iff split: if_splits)
  then show ?thesis
    by (auto simp: pattern_element_ok_def ascending_def isNumber_def)
qed

text \<open>
  C32: extending a prefix of a key to the fields of the shard key pattern yields bounds that bracket
  every key with that prefix; with the empty prefix, every key of the pattern lies between the
  global minimum and the global maximum.
\<close>

theorem extendRangeBound_brackets:
  assumes "ShardKeyPattern pattern = Inr p" "map fst key = map fst pattern"
  shows "\<exists>l h gmin gmax. extendRangeBound pattern (take n key) False = Inr l
    \<and> extendRangeBound pattern (take n key) True = Inr h
    \<and> globalMin pattern = Inr gmin \<and> globalMax pattern = Inr gmax
    \<and> keyOf gmin \<le> keyOf key \<and> keyOf l \<le> keyOf key \<and> keyOf key \<le> keyOf h \<and> keyOf key \<le> keyOf gmax"
  using extend_brackets [of pattern key n] extend_brackets [of pattern key 0]
    pattern_ascending [OF assms(1)] assms(2)
  by (auto simp: globalMin_def globalMax_def dest!: componentwise_le)

theorem extendRangeBound_brackets_witness:
  "\<exists>l h. extendRangeBound [(''a'', NumberInt 1), (''b'', NumberInt 1)] [(''a'', NumberInt 5)] False = Inr l
    \<and> extendRangeBound [(''a'', NumberInt 1), (''b'', NumberInt 1)] [(''a'', NumberInt 5)] True = Inr h
    \<and> keyOf l \<le> keyOf [(''a'', NumberInt 5), (''b'', Bool True)]
    \<and> keyOf [(''a'', NumberInt 5), (''b'', Bool True)] \<le> keyOf h"
proof -
  have "\<exists>p. ShardKeyPattern [(''a'', NumberInt 1), (''b'', NumberInt 1)] = Inr p"
    by (simp add: ShardKeyPattern_def parseShardKeyPattern_def FieldRef_parse_def isNumber_def numberInt_def)
  then show ?thesis
    using extendRangeBound_brackets [of "[(''a'', NumberInt 1), (''b'', NumberInt 1)]" _
      "[(''a'', NumberInt 5), (''b'', Bool True)]" 1]
    by auto
qed

subsection \<open>Values as keys\<close>

definition compareValues :: "bson_value \<Rightarrow> bson_value \<Rightarrow> int" where
  "compareValues l r = woCompareElement False ([], l) ([], r)"

definition vkey :: "bson_value \<Rightarrow> bson_key" where
  "vkey v = keyOf [([], v)]"

lemma compareValues_sgn: "compareValues l r = woCompareElement True (n, l) (n, r)"
  by (simp add: compareValues_def woCompareElement_def stringdata_compare_refl)

lemma woCompare_single: "woCompare [(n, l)] [(n, r)] = compareValues l r"
  by (simp add: woCompare_nested compareValues_sgn [of l r n])

lemma compareValues_key [key_simps]:
  "compareValues l r \<le> 0 \<longleftrightarrow> vkey l \<le> vkey r" "compareValues l r < 0 \<longleftrightarrow> vkey l < vkey r"
  "compareValues l r = 0 \<longleftrightarrow> vkey l = vkey r" "0 = compareValues l r \<longleftrightarrow> vkey l = vkey r"
  "0 < compareValues l r \<longleftrightarrow> vkey r < vkey l"
  using woCompare_key [of "[([], l)]" "[([], r)]"] unfolding vkey_def woCompare_single by auto

lemma vkey_elem_le: "vkey l \<le> vkey r \<longleftrightarrow> elem_le (n, l) (n, r)"
  by (simp add: elem_le_def flip: compareValues_key compareValues_sgn)

lemma vkey_int [simp]:
  "vkey (NumberInt m) < vkey (NumberInt n) \<longleftrightarrow> sint m < sint n"
  "vkey (NumberInt m) \<le> vkey (NumberInt n) \<longleftrightarrow> sint m \<le> sint n"
  "vkey (NumberInt m) = vkey (NumberInt n) \<longleftrightarrow> m = n"
  by (auto simp: compareValues_def woCompareElement_def compareElements.simps compareInts_cmp3 cmp3_def
    intro: signed_word_eqI simp flip: compareValues_key)

end
