(* ===== verification/Index_Bounds.thy ===== *)
theory Index_Bounds
  imports Chunk_Views Shard_Key_Pattern
begin

text \<open>
  Intervals of key values and index bounds (\<open>db/query/interval.cpp\<close>,
  \<open>db/query/index_bounds.cpp\<close>), their flattening to ranges of shard keys
  (\<open>s/shard_key_pattern.cpp\<close>) and the targeting of a query (\<open>s/chunk_manager.cpp\<close>). The parsing
  and planning of the query are parameters of the last one: whether it is accepted, whether it has
  a \<open>$near\<close> clause, the shard key it fixes and its index bounds.
\<close>

subsection \<open>Intervals\<close>

record interval =
  istart :: bson_value
  startInclusive :: bool
  iend :: bson_value
  endInclusive :: bool

definition isPoint :: "interval \<Rightarrow> bool" where
  "isPoint i = (startInclusive i \<and> endInclusive i \<and> 0 = compareValues (istart i) (iend i))"

definition isNull :: "interval \<Rightarrow> bool" where
  "isNull i = ((\<not> startInclusive i \<or> \<not> endInclusive i) \<and> 0 = compareValues (istart i) (iend i))"

definition interval_equals :: "interval \<Rightarrow> interval \<Rightarrow> bool" where
  "interval_equals i other =
     (if startInclusive i \<noteq> startInclusive other then False
      else if endInclusive i \<noteq> endInclusive other then False
      else if compareValues (istart i) (istart other) \<noteq> 0 then False
      else if compareValues (iend i) (iend other) \<noteq> 0 then False
      else True)"

definition intersects :: "interval \<Rightarrow> interval \<Rightarrow> bool" where
  "intersects i other =
     (let res = compareValues (istart i) (iend other)
      in if res > 0 then False
         else if res = 0 \<and> (\<not> startInclusive i \<or> \<not> endInclusive other) then False
         else let res = compareValues (istart other) (iend i)
              in if res > 0 then False
                 else if res = 0 \<and> (\<not> startInclusive other \<or> \<not> endInclusive i) then False
                 else True)"

definition interval_within :: "interval \<Rightarrow> interval \<Rightarrow> bool" where
  "interval_within i other =
     (let res = compareValues (istart i) (istart other)
      in if res < 0 then False
         else if res = 0 \<and> startInclusive i \<and> \<not> startInclusive other then False
         else let res = compareValues (iend i) (iend other)
              in if res > 0 then False
                 else if res = 0 \<and> endInclusive i \<and> \<not> endInclusive other then False
                 else True)"

definition precedes :: "interval \<Rightarrow> interval \<Rightarrow> bool" where
  "precedes i other =
     (let res = compareValues (istart i) (istart other)
      in if res < 0 then True
         else if res = 0 \<and> startInclusive i \<and> \<not> startInclusive other then True
         else False)"

datatype interval_comparison =
    INTERVAL_EQUALS | INTERVAL_CONTAINS | INTERVAL_WITHIN | INTERVAL_OVERLAPS_BEFORE
  | INTERVAL_OVERLAPS_AFTER | INTERVAL_PRECEDES | INTERVAL_PRECEDES_COULD_UNION
  | INTERVAL_SUCCEEDS | INTERVAL_UNKNOWN

definition interval_compare :: "interval \<Rightarrow> interval \<Rightarrow> interval_comparison" where
  "interval_compare i other =
     (if intersects i other then
        if interval_equals i other then INTERVAL_EQUALS
        else if interval_within i other then INTERVAL_WITHIN
        else if interval_within other i then INTERVAL_CONTAINS
        else if precedes i other then INTERVAL_OVERLAPS_BEFORE
        else INTERVAL_OVERLAPS_AFTER
      else if precedes i other then
        if (endInclusive i \<or> startInclusive other) \<and> 0 = compareValues (iend i) (istart other)
        then INTERVAL_PRECEDES_COULD_UNION
        else INTERVAL_PRECEDES
      else INTERVAL_SUCCEEDS)"

text \<open>
  The result of \<open>intersect\<close> is \<open>None\<close> for the default interval, which holds no value. A failed
  \<open>verify\<close> throws \<open>UnknownError\<close>, number 8.
\<close>

definition intersect :: "interval \<Rightarrow> interval \<Rightarrow> interval_comparison \<Rightarrow> interval option result" where
  "intersect i other cmp0 =
     (let cmp = (if cmp0 = INTERVAL_UNKNOWN then interval_compare i other else cmp0)
      in case cmp of
           INTERVAL_EQUALS \<Rightarrow> Inr (Some i)
         | INTERVAL_WITHIN \<Rightarrow> Inr (Some i)
         | INTERVAL_CONTAINS \<Rightarrow> Inr (Some \<lparr>istart = istart other, startInclusive = startInclusive other,
             iend = iend other, endInclusive = endInclusive other\<rparr>)
         | INTERVAL_OVERLAPS_AFTER \<Rightarrow> Inr (Some \<lparr>istart = istart i, startInclusive = startInclusive i,
             iend = iend other, endInclusive = endInclusive other\<rparr>)
         | INTERVAL_OVERLAPS_BEFORE \<Rightarrow> Inr (Some \<lparr>istart = istart other, startInclusive = startInclusive other,
             iend = iend i, endInclusive = endInclusive i\<rparr>)
         | INTERVAL_PRECEDES \<Rightarrow> Inr None
         | INTERVAL_SUCCEEDS \<Rightarrow> Inr None
         | _ \<Rightarrow> Inl (Error (ErrorNo 8)))"

definition combine :: "interval \<Rightarrow> interval \<Rightarrow> interval_comparison \<Rightarrow> interval result" where
  "combine i other cmp0 =
     (let cmp = (if cmp0 = INTERVAL_UNKNOWN then interval_compare i other else cmp0)
      in case cmp of
           INTERVAL_EQUALS \<Rightarrow> Inr i
         | INTERVAL_CONTAINS \<Rightarrow> Inr i
         | INTERVAL_WITHIN \<Rightarrow> Inr \<lparr>istart = istart other, startInclusive = startInclusive other,
             iend = iend other, endInclusive = endInclusive other\<rparr>
         | INTERVAL_OVERLAPS_AFTER \<Rightarrow> Inr \<lparr>istart = istart other, startInclusive = startInclusive other,
             iend = iend i, endInclusive = endInclusive i\<rparr>
         | INTERVAL_SUCCEEDS \<Rightarrow> Inr \<lparr>istart = istart other, startInclusive = startInclusive other,
             iend = iend i, endInclusive = endInclusive i\<rparr>
         | INTERVAL_OVERLAPS_BEFORE \<Rightarrow> Inr \<lparr>istart = istart i, startInclusive = startInclusive i,
             iend = iend other, endInclusive = endInclusive other\<rparr>
         | INTERVAL_PRECEDES \<Rightarrow> Inr \<lparr>istart = istart i, startInclusive = startInclusive i,
             iend = iend other, endInclusive = endInclusive other\<rparr>
         | _ \<Rightarrow> Inl (Error (ErrorNo 8)))"

definition interval_reverse :: "interval \<Rightarrow> interval" where
  "interval_reverse i = \<lparr>istart = iend i, startInclusive = endInclusive i,
     iend = istart i, endInclusive = startInclusive i\<rparr>"

subsection \<open>Index bounds\<close>

definition interval_oriented :: "int \<Rightarrow> interval \<Rightarrow> bool" where
  "interval_oriented expectedOrientation i =
     (let c = sgn (compareValues (iend i) (istart i))
      in if c = 0 \<and> startInclusive i \<and> endInclusive i then True else c = expectedOrientation)"

fun neighbours_oriented :: "int \<Rightarrow> interval list \<Rightarrow> bool" where
  "neighbours_oriented expectedOrientation (i # j # is) =
     (let c = sgn (compareValues (istart j) (iend i))
      in if 0 \<noteq> c \<and> c \<noteq> expectedOrientation then False
         else neighbours_oriented expectedOrientation (j # is))"
| "neighbours_oriented expectedOrientation is = True"

definition oil_isValidFor :: "interval list \<Rightarrow> int \<Rightarrow> bool" where
  "oil_isValidFor intervals expectedOrientation =
     (list_all (interval_oriented expectedOrientation) intervals \<and>
      neighbours_oriented expectedOrientation intervals)"

record ordered_interval_list =
  intervals :: "interval list"
  oil_name :: string

fun bounds_isValidFor :: "ordered_interval_list list \<Rightarrow> bson_obj \<Rightarrow> int \<Rightarrow> bool" where
  "bounds_isValidFor [] pattern direction = (pattern = [])"
| "bounds_isValidFor (field # oils) [] direction = False"
| "bounds_isValidFor (field # oils) (elt # pattern) direction =
     (if oil_name field \<noteq> fst elt then False
      else let expectedOrientation = direction * (if \<not> number_is_negative (snd elt) then 1 else -1)
           in if \<not> oil_isValidFor (intervals field) expectedOrientation then False
              else bounds_isValidFor oils pattern direction)"

definition kMaxFlattenedInCombinations :: nat where
  "kMaxFlattenedInCombinations = 4000000"

definition appendToBounds :: "string \<Rightarrow> bson_value \<Rightarrow> bson_value \<Rightarrow> bson_obj \<times> bson_obj \<Rightarrow> bson_obj \<times> bson_obj" where
  "appendToBounds fieldName s e builder = (fst builder @ [(fieldName, s)], snd builder @ [(fieldName, e)])"

fun expandIntervals ::
    "string \<Rightarrow> bson_obj \<times> bson_obj \<Rightarrow> interval list \<Rightarrow> (bson_obj \<times> bson_obj) list
      \<Rightarrow> (bson_obj \<times> bson_obj) list result" where
  "expandIntervals fieldName builder [] newBuilders = Inr newBuilders"
| "expandIntervals fieldName builder (i # is) newBuilders =
     rbind (uassert (ErrorNo 17439) (length newBuilders < kMaxFlattenedInCombinations)) (\<lambda>_.
       expandIntervals fieldName builder is
         (newBuilders @ [appendToBounds fieldName (istart i) (iend i) builder]))"

fun expandBuilders ::
    "string \<Rightarrow> interval list \<Rightarrow> (bson_obj \<times> bson_obj) list \<Rightarrow> (bson_obj \<times> bson_obj) list
      \<Rightarrow> (bson_obj \<times> bson_obj) list result" where
  "expandBuilders fieldName is [] newBuilders = Inr newBuilders"
| "expandBuilders fieldName is (builder # builders) newBuilders =
     rbind (expandIntervals fieldName builder is newBuilders) (\<lambda>newBuilders'.
       expandBuilders fieldName is builders newBuilders')"

fun flattenFields ::
    "bool \<Rightarrow> bson_obj \<Rightarrow> ordered_interval_list list \<Rightarrow> (bson_obj \<times> bson_obj) list
      \<Rightarrow> (bson_obj \<times> bson_obj) list result" where
  "flattenFields equalityOnly (e # pattern) (oil # oils) builders =
     (let is = intervals oil; fieldName = fst e
      in if equalityOnly then
           if length is = 1 \<and> isPoint (hd is)
           then flattenFields True pattern oils
                  (map (appendToBounds fieldName (istart (hd is)) (iend (hd is))) builders)
           else rbind (expandBuilders fieldName is builders []) (\<lambda>newBuilders.
                  flattenFields False pattern oils newBuilders)
         else flattenFields False pattern oils
                (map (appendToBounds fieldName (istart (hd is)) (iend (last is))) builders))"
| "flattenFields equalityOnly pattern oils builders = Inr builders"

definition flattenBounds :: "bson_obj \<Rightarrow> ordered_interval_list list \<Rightarrow> (bson_obj \<times> bson_obj) list result" where
  "flattenBounds pattern oils =
     rbind (invariant (length oils = nFields pattern)) (\<lambda>_.
       if list_ex (\<lambda>field. intervals field = []) oils then Inr []
       else flattenFields True pattern oils [([], [])])"

subsection \<open>Targeting a query\<close>

fun targetRanges :: "chunk_manager \<Rightarrow> (bson_obj \<times> bson_obj) list \<Rightarrow> shard_id set \<Rightarrow> shard_id set result" where
  "targetRanges cm [] shardIds = Inr shardIds"
| "targetRanges cm (r # rs) shardIds =
     rbind (getShardIdsForRange cm (fst r) (snd r) shardIds) (\<lambda>ids.
       if card ids = length (shardVersions (chunkMapViews cm)) then Inr ids
       else targetRanges cm rs ids)"

definition getShardIdsForQuery ::
    "chunk_manager \<Rightarrow> unit result \<Rightarrow> bool \<Rightarrow> bson_obj \<Rightarrow> ordered_interval_list list \<Rightarrow> bson_obj
      \<Rightarrow> shard_id set \<Rightarrow> shard_id set result" where
  "getShardIdsForQuery cm canonicalize hasGeoNear shardKeyToFind bounds collation shardIds =
     rbind canonicalize (\<lambda>_.
     rbind (uassert (ErrorNo 13501) (\<not> hasGeoNear)) (\<lambda>_.
       let slow =
             rbind (flattenBounds (cm_keyPattern cm) bounds) (\<lambda>ranges.
             rbind (targetRanges cm ranges shardIds) (\<lambda>ids.
               Inr (if ids = {}
                    then insert (sr_shardId (snd (hd (chunkRangeMap (chunkMapViews cm))))) ids
                    else ids)))
       in if shardKeyToFind \<noteq> [] then
            (case findIntersectingChunk cm shardKeyToFind collation of
               Inr chunk \<Rightarrow> Inr (insert (shardId chunk) shardIds)
             | Inl (Error _) \<Rightarrow> slow
             | Inl f \<Rightarrow> Inl f)
          else slow))"

subsection \<open>Intervals as sets of values\<close>

definition holds :: "interval \<Rightarrow> bson_value \<Rightarrow> bool" where
  "holds i v \<longleftrightarrow> (vkey (istart i) < vkey v \<or> startInclusive i \<and> vkey (istart i) = vkey v)
     \<and> (vkey v < vkey (iend i) \<or> endInclusive i \<and> vkey v = vkey (iend i))"

definition above_start :: "interval \<Rightarrow> bson_value \<Rightarrow> bool" where
  "above_start i v \<longleftrightarrow> vkey (istart i) < vkey v \<or> startInclusive i \<and> vkey (istart i) = vkey v"

definition below_end :: "interval \<Rightarrow> bson_value \<Rightarrow> bool" where
  "below_end i v \<longleftrightarrow> vkey v < vkey (iend i) \<or> endInclusive i \<and> vkey v = vkey (iend i)"

lemma holds_iff: "holds i v \<longleftrightarrow> above_start i v \<and> below_end i v"
  by (simp add: holds_def above_start_def below_end_def)

lemma interval_oriented_iff: "interval_oriented 1 i \<longleftrightarrow>
    vkey (istart i) < vkey (iend i) \<or> vkey (istart i) = vkey (iend i) \<and> startInclusive i \<and> endInclusive i"
  by (auto simp: interval_oriented_def Let_def sgn_if key_simps)

lemma intersects_iff: "intersects i j \<longleftrightarrow>
    (vkey (istart i) < vkey (iend j) \<or> vkey (istart i) = vkey (iend j) \<and> startInclusive i \<and> endInclusive j) \<and>
    (vkey (istart j) < vkey (iend i) \<or> vkey (istart j) = vkey (iend i) \<and> startInclusive j \<and> endInclusive i)"
  by (auto simp: intersects_def Let_def key_simps)

lemma not_intersects: "\<not> intersects i j \<Longrightarrow> \<not> (holds i v \<and> holds j v)"
  by (auto simp: intersects_iff holds_def not_less)

lemma interval_order:
  "precedes i j \<Longrightarrow> above_start j v \<Longrightarrow> above_start i v"
  "\<not> precedes i j \<Longrightarrow> above_start i v \<Longrightarrow> above_start j v"
  by (auto simp: precedes_def above_start_def Let_def key_simps split: if_splits)

lemma within_order:
  assumes "interval_within i j"
  shows "above_start i v \<Longrightarrow> above_start j v" "below_end i v \<Longrightarrow> below_end j v"
  using assms by (auto simp: interval_within_def above_start_def below_end_def Let_def key_simps split: if_splits)

lemma equals_order:
  assumes "interval_equals i j"
  shows "above_start i v \<longleftrightarrow> above_start j v" "below_end i v \<longleftrightarrow> below_end j v"
  using assms by (auto simp: interval_equals_def above_start_def below_end_def key_simps split: if_splits)

lemma end_order:
  "\<lbrakk>\<not> interval_within i j; \<not> precedes i j; below_end j v\<rbrakk> \<Longrightarrow> below_end i v"
  "\<lbrakk>\<not> interval_within j i; precedes i j; below_end i v\<rbrakk> \<Longrightarrow> below_end j v"
  by (auto simp: interval_within_def precedes_def below_end_def Let_def key_simps not_less split: if_splits)

text \<open>
  For ascending intervals (points or with the start before the end), \<open>intersect\<close> yields the interval that holds exactly the values both
  hold, and the default interval when they are disjoint; \<open>combine\<close> yields an interval that holds
  every value either holds; both fail only when the first interval ends where the second starts
  and no value is in both.
\<close>

theorem interval_operations:
  assumes "interval_oriented 1 i" "interval_oriented 1 j"
  shows "(case intersect i j INTERVAL_UNKNOWN of
      Inr (Some k) \<Rightarrow> \<forall>v. holds k v \<longleftrightarrow> holds i v \<and> holds j v
    | Inr None \<Rightarrow> \<forall>v. \<not> (holds i v \<and> holds j v)
    | Inl f \<Rightarrow> vkey (iend i) = vkey (istart j) \<and> (\<forall>v. \<not> (holds i v \<and> holds j v)))
    \<and> (case combine i j INTERVAL_UNKNOWN of
      Inr k \<Rightarrow> \<forall>v. holds i v \<or> holds j v \<longrightarrow> holds k v
    | Inl f \<Rightarrow> vkey (iend i) = vkey (istart j) \<and> (\<forall>v. \<not> (holds i v \<and> holds j v)))"
proof -
  have mix: "above_start \<lparr>istart = istart x, startInclusive = startInclusive x, iend = iend y,
      endInclusive = endInclusive y\<rparr> v = above_start x v"
    "below_end \<lparr>istart = istart x, startInclusive = startInclusive x, iend = iend y,
      endInclusive = endInclusive y\<rparr> v = below_end y v" for x y v
    by (simp_all add: above_start_def below_end_def)
  show ?thesis
  proof (cases "intersects i j")
    case False
    note disj = not_intersects [OF False]
    have ends: "vkey (iend i) \<le> vkey (istart j)" if "precedes i j"
      using that False assms
      by (auto simp: intersects_iff precedes_def interval_oriented_iff key_simps Let_def not_less split: if_splits)
    have starts: "vkey (iend j) \<le> vkey (istart i)" if "\<not> precedes i j"
      using that False assms
      by (auto simp: intersects_iff precedes_def interval_oriented_iff key_simps Let_def not_less split: if_splits)
    have "holds \<lparr>istart = istart x, startInclusive = startInclusive x, iend = iend y, endInclusive = endInclusive y\<rparr> v"
      if "vkey (iend x) \<le> vkey (istart y)" "interval_oriented 1 x" "interval_oriented 1 y" "holds x v \<or> holds y v" for x y v
      using that by (auto simp: holds_def interval_oriented_iff)
    then show ?thesis
      using False disj ends starts assms
      by (auto simp: intersect_def combine_def interval_compare_def key_simps)
  next
    case True
    note defs = intersect_def combine_def interval_compare_def mix holds_iff Let_def
    consider "interval_equals i j" | "\<not> interval_equals i j" "interval_within i j"
      | "\<not> interval_equals i j" "\<not> interval_within i j" "interval_within j i"
      | "\<not> interval_equals i j" "\<not> interval_within i j" "\<not> interval_within j i" "precedes i j"
      | "\<not> interval_equals i j" "\<not> interval_within i j" "\<not> interval_within j i" "\<not> precedes i j"
      by blast
    then show ?thesis
    proof cases
      case 1
      then show ?thesis
        using True equals_order [OF 1] by (simp add: defs)
    next
      case 2
      then show ?thesis
        using True within_order [OF 2(2)] by (simp add: defs) blast
    next
      case 3
      then show ?thesis
        using True within_order [OF 3(3)] by (simp add: defs) blast
    next
      case 4
      then show ?thesis
        using True interval_order(1) [OF 4(4)] end_order(2) [OF 4(3,4)] by (simp add: defs) blast
    next
      case 5
      then show ?thesis
        using True interval_order(2) [OF 5(4)] end_order(1) [OF 5(2,4)] by (simp add: defs) blast
    qed
  qed
qed

definition int_interval :: "32 word \<Rightarrow> bool \<Rightarrow> 32 word \<Rightarrow> bool \<Rightarrow> interval" where
  "int_interval a ai b bi = \<lparr>istart = NumberInt a, startInclusive = ai, iend = NumberInt b, endInclusive = bi\<rparr>"

theorem interval_operations_witness:
  "(\<forall>v. holds (int_interval 5 False 7 True) v \<longleftrightarrow> holds (int_interval 1 True 7 True) v \<and> holds (int_interval 5 False 9 True) v)"
proof -
  have "intersect (int_interval 1 True 7 True) (int_interval 5 False 9 True) INTERVAL_UNKNOWN
      = Inr (Some (int_interval 5 False 7 True))"
    by (simp add: intersect_def interval_compare_def intersects_def interval_equals_def interval_within_def
        precedes_def int_interval_def key_simps)
  moreover have "interval_oriented 1 (int_interval 1 True 7 True)" "interval_oriented 1 (int_interval 5 False 9 True)"
    by (simp_all add: interval_oriented_iff int_interval_def)
  ultimately show ?thesis
    using interval_operations [of "int_interval 1 True 7 True" "int_interval 5 False 9 True"] by simp
qed

subsection \<open>Flattened bounds cover the bounds\<close>

lemma oil_valid_Cons:
  "oil_isValidFor (i # is) 1 \<longleftrightarrow> interval_oriented 1 i \<and> oil_isValidFor is 1 \<and>
    (is \<noteq> [] \<longrightarrow> vkey (iend i) \<le> vkey (istart (hd is)))"
  by (cases "is") (auto simp: oil_isValidFor_def Let_def sgn_if key_simps split: if_splits)

lemma oriented_le: "interval_oriented 1 i \<Longrightarrow> vkey (istart i) \<le> vkey (iend i)"
  by (auto simp: interval_oriented_iff)

lemma oil_later:
  assumes "oil_isValidFor (x # xs) 1" "i \<in> set xs"
  shows "vkey (iend x) \<le> vkey (istart i)"
  using assms
proof (induction xs arbitrary: x)
  case (Cons y ys)
  have x: "vkey (iend x) \<le> vkey (istart y)" "oil_isValidFor (y # ys) 1" "vkey (istart y) \<le> vkey (iend y)"
    using Cons.prems(1) oriented_le by (simp_all add: oil_valid_Cons)
  show ?case
  proof (cases "i = y")
    case False
    then have "vkey (iend y) \<le> vkey (istart i)"
      using Cons.IH [OF x(2)] Cons.prems(2) by simp
    then show ?thesis
      using x by order
  qed (use x in simp)
qed simp

lemma oil_oriented: "\<lbrakk>oil_isValidFor is 1; i \<in> set is\<rbrakk> \<Longrightarrow> vkey (istart i) \<le> vkey (iend i)"
  by (auto simp: oil_isValidFor_def list_all_iff intro: oriented_le)

lemma oil_hull:
  assumes "oil_isValidFor is 1" "i \<in> set is"
  shows "vkey (istart (hd is)) \<le> vkey (istart i)" "vkey (iend i) \<le> vkey (iend (last is))"
proof -
  obtain x xs where xs: "is = x # xs"
    using assms(2) by (cases "is") auto
  show "vkey (istart (hd is)) \<le> vkey (istart i)"
  proof (cases "i = x")
    case False
    then have "vkey (iend x) \<le> vkey (istart i)"
      using oil_later [of x xs i] assms xs by simp
    moreover have "vkey (istart x) \<le> vkey (iend x)"
      using oil_oriented [OF assms(1), of x] xs by simp
    ultimately show ?thesis
      using xs by simp
  qed (simp add: xs)
  show "vkey (iend i) \<le> vkey (iend (last is))"
    using assms
  proof (induction "is")
    case (Cons y ys)
    show ?case
    proof (cases "i = y \<and> ys \<noteq> []")
      case True
      then have "vkey (iend y) \<le> vkey (istart (last ys))" "vkey (istart (last ys)) \<le> vkey (iend (last ys))"
        using oil_later [OF Cons.prems(1), of "last ys"] oil_oriented [OF Cons.prems(1), of "last ys"] by simp_all
      then show ?thesis
        using True by simp
    qed (use Cons in \<open>auto simp: oil_valid_Cons\<close>)
  qed simp
qed

lemma expandIntervals_cases:
  "expandIntervals f b is nb = Inr r \<Longrightarrow> r = nb @ map (\<lambda>i. appendToBounds f (istart i) (iend i) b) is"
  "expandIntervals f b is nb = Inl e \<Longrightarrow> e = Error (ErrorNo 17439)"
  by (induction f b "is" nb rule: expandIntervals.induct) (auto simp: rbind_Inr_iff rbind_Inl_iff)

lemma expandBuilders_cases:
  "expandBuilders f is bs nb = Inr r \<Longrightarrow>
    r = nb @ concat (map (\<lambda>b. map (\<lambda>i. appendToBounds f (istart i) (iend i) b) is) bs)"
  "expandBuilders f is bs nb = Inl e \<Longrightarrow> e = Error (ErrorNo 17439)"
proof (induction f "is" bs nb rule: expandBuilders.induct)
  case (2 f "is" b bs nb)
  note IH = 2
  {
    case 1
    then obtain nb' where nb': "expandIntervals f b is nb = Inr nb'" "expandBuilders f is bs nb' = Inr r"
      by (auto simp: rbind_Inr_iff)
    then show ?case
      using IH(1) [OF nb'] expandIntervals_cases(1) [OF nb'(1)] by simp
  next
    case 2
    then show ?case
      using IH(2) by (auto simp: rbind_Inl_iff dest: expandIntervals_cases(2))
  }
qed simp_all

definition brackets :: "bson_obj \<times> bson_obj \<Rightarrow> bson_obj \<Rightarrow> bool" where
  "brackets r key \<longleftrightarrow> list_all2 elem_le (fst r) key \<and> list_all2 elem_le key (snd r)"

definition bounds_hold :: "ordered_interval_list list \<Rightarrow> bson_obj \<Rightarrow> bool" where
  "bounds_hold oils key \<longleftrightarrow> list_all2 (\<lambda>oil e. \<exists>i\<in>set (intervals oil). holds i (snd e)) oils key"

definition bounds_ok :: "ordered_interval_list list \<Rightarrow> bool" where
  "bounds_ok oils \<longleftrightarrow> (\<forall>oil\<in>set oils. intervals oil \<noteq> [] \<and> oil_isValidFor (intervals oil) 1)"

lemma brackets_append:
  assumes "brackets b kp" "vkey s \<le> vkey v" "vkey v \<le> vkey e"
  shows "brackets (appendToBounds f s e b) (kp @ [(f, v)])"
  using assms by (simp add: brackets_def appendToBounds_def list_all2_appendI vkey_elem_le [of _ _ f])

lemma holds_between: "holds i v \<Longrightarrow> vkey (istart i) \<le> vkey v \<and> vkey v \<le> vkey (iend i)"
  by (auto simp: holds_def)

lemma flatten_cover:
  assumes "flattenFields eo pattern oils bs = Inr rs" "map fst ks = map fst pattern"
    "bounds_ok oils" "bounds_hold oils ks" "b \<in> set bs" "brackets b kp"
  shows "\<exists>r\<in>set rs. brackets r (kp @ ks)"
  using assms
proof (induction oils arbitrary: eo pattern bs b kp ks)
  case Nil
  then show ?case
    by (cases pattern) (auto simp: bounds_hold_def)
next
  case (Cons oil oils)
  obtain e v pat ks' where ks: "ks = (fst e, v) # ks'" "pattern = e # pat" "map fst ks' = map fst pat"
    using Cons.prems(2,4) by (cases ks; cases pattern) (auto simp: bounds_hold_def)
  let ?is = "intervals oil"
  have ok: "?is \<noteq> []" "oil_isValidFor ?is 1" "bounds_ok oils" "bounds_hold oils ks'"
    using Cons.prems(3,4) ks(1) by (auto simp: bounds_ok_def bounds_hold_def)
  obtain i where i: "i \<in> set ?is" "vkey (istart i) \<le> vkey v" "vkey v \<le> vkey (iend i)"
    using Cons.prems(4) ks(1) holds_between by (auto simp: bounds_hold_def)
  have "vkey (istart (hd ?is)) \<le> vkey v" "vkey v \<le> vkey (iend (last ?is))"
    using oil_hull [OF ok(2) i(1)] i(2,3) by order+
  then have hull: "brackets (appendToBounds (fst e) (istart (hd ?is)) (iend (last ?is)) b) (kp @ [(fst e, v)])"
    and one: "brackets (appendToBounds (fst e) (istart i) (iend i) b) (kp @ [(fst e, v)])"
    using brackets_append [OF Cons.prems(6)] i by blast+
  obtain eo' bs' b' where step: "flattenFields eo' pat oils bs' = Inr rs" "b' \<in> set bs'"
    "brackets b' (kp @ [(fst e, v)])"
  proof -
    consider (point) "eo" "length ?is = 1" "isPoint (hd ?is)" | (expand) "eo" "\<not> (length ?is = 1 \<and> isPoint (hd ?is))"
      | (hull) "\<not> eo"
      by blast
    then show thesis
    proof cases
      case point
      then have "?is = [i]"
        using i(1) by (cases ?is) auto
      then show thesis
        using that [of True "map (appendToBounds (fst e) (istart i) (iend i)) bs"
          "appendToBounds (fst e) (istart i) (iend i) b"] Cons.prems(1,5) one point ks(2) by (simp add: Let_def)
    next
      case expand
      then obtain nb where nb: "expandBuilders (fst e) ?is bs [] = Inr nb" "flattenFields False pat oils nb = Inr rs"
        using Cons.prems(1) ks(2) by (auto simp: rbind_Inr_iff Let_def)
      then show thesis
        using that [of False nb "appendToBounds (fst e) (istart i) (iend i) b"] one i(1) Cons.prems(5)
          expandBuilders_cases(1) [OF nb(1)] by auto
    next
      case hull
      then show thesis
        using that [of False "map (appendToBounds (fst e) (istart (hd ?is)) (iend (last ?is))) bs"
          "appendToBounds (fst e) (istart (hd ?is)) (iend (last ?is)) b"] Cons.prems(1,5)
          \<open>brackets (appendToBounds (fst e) (istart (hd ?is)) (iend (last ?is)) b) (kp @ [(fst e, v)])\<close> ks(2)
        by (simp add: Let_def)
    qed
  qed
  show ?case
    using Cons.IH [OF step(1) ks(3) ok(3,4) step(2,3)] ks(1) by simp
qed

lemma flatten_ordered:
  assumes "flattenFields eo pattern oils bs = Inr rs" "length oils = length pattern" "bounds_ok oils"
    "\<forall>b\<in>set bs. list_all2 elem_le (fst b) (snd b) \<and> map fst (snd b) = ns"
  shows "\<forall>r\<in>set rs. list_all2 elem_le (fst r) (snd r) \<and> map fst (snd r) = ns @ map fst pattern"
  using assms
proof (induction oils arbitrary: eo pattern bs ns)
  case (Cons oil oils)
  obtain e pat where pat: "pattern = e # pat" "length oils = length pat"
    using Cons.prems(2) by (cases pattern) auto
  let ?is = "intervals oil" and ?ok = "\<lambda>b. list_all2 elem_le (fst b) (snd b) \<and> map fst (snd b) = ns @ [fst e]"
  have ok: "?is \<noteq> []" "oil_isValidFor ?is 1" "bounds_ok oils"
    using Cons.prems(3) by (auto simp: bounds_ok_def)
  have app: "?ok (appendToBounds (fst e) s t b)" if "vkey s \<le> vkey t" "b \<in> set bs" for s t b
    using that Cons.prems(4) by (simp add: appendToBounds_def list_all2_appendI vkey_elem_le [of _ _ "fst e"])
  have each: "vkey (istart i) \<le> vkey (iend i)" if "i \<in> set ?is" for i
    using oil_oriented [OF ok(2) that] .
  have "vkey (istart (last ?is)) \<le> vkey (iend (last ?is))" "vkey (istart (hd ?is)) \<le> vkey (istart (last ?is))"
    using each [of "last ?is"] oil_hull(1) [OF ok(2), of "last ?is"] ok(1) by simp_all
  then have hull: "vkey (istart (hd ?is)) \<le> vkey (iend (last ?is))"
    by order
  have first: "vkey (istart (hd ?is)) \<le> vkey (iend (hd ?is))"
    using each ok(1) by simp
  obtain eo' bs' where step: "flattenFields eo' pat oils bs' = Inr rs" "\<forall>b\<in>set bs'. ?ok b"
  proof -
    consider (point) "eo" "length ?is = 1" "isPoint (hd ?is)" | (expand) "eo" "\<not> (length ?is = 1 \<and> isPoint (hd ?is))"
      | (hull) "\<not> eo"
      by blast
    then show thesis
    proof cases
      case point
      then show thesis
        using that [of True "map (appendToBounds (fst e) (istart (hd ?is)) (iend (hd ?is))) bs"] Cons.prems(1)
          app [OF first] pat(1) by (auto simp: Let_def)
    next
      case expand
      then obtain nb where nb: "expandBuilders (fst e) ?is bs [] = Inr nb" "flattenFields False pat oils nb = Inr rs"
        using Cons.prems(1) pat(1) by (auto simp: rbind_Inr_iff Let_def)
      then show thesis
        using that [of False nb] app each expandBuilders_cases(1) [OF nb(1)] by auto
    next
      case hull
      then show thesis
        using that [of False "map (appendToBounds (fst e) (istart (hd ?is)) (iend (last ?is))) bs"] Cons.prems(1)
          app [OF \<open>vkey (istart (hd ?is)) \<le> vkey (iend (last ?is))\<close>] pat(1) by (auto simp: Let_def)
    qed
  qed
  show ?case
    using Cons.IH [OF step(1) pat(2) ok(3) step(2)] pat(1) by simp
qed simp

lemma flattenFields_Inl: "flattenFields eo pattern oils bs = Inl f \<Longrightarrow> f = Error (ErrorNo 17439)"
  by (induction eo pattern oils bs rule: flattenFields.induct)
    (auto simp: Let_def rbind_Inl_iff split: if_splits dest: expandBuilders_cases(2))

lemma bounds_isValidFor_ok:
  assumes "bounds_isValidFor oils pattern 1" "\<forall>e\<in>set pattern. \<not> number_is_negative (snd e)"
  shows "length oils = length pattern \<and> (\<forall>oil\<in>set oils. oil_isValidFor (intervals oil) 1)"
  using assms
proof (induction oils arbitrary: pattern)
  case (Cons oil oils)
  then show ?case
    by (cases pattern) (simp_all split: if_splits)
qed simp

lemma flattenBounds_covers:
  assumes "bounds_isValidFor oils pattern 1" "\<forall>e\<in>set pattern. \<not> number_is_negative (snd e)"
    "map fst key = map fst pattern" "bounds_hold oils key"
  shows "case flattenBounds pattern oils of
      Inr rs \<Rightarrow> (\<exists>r\<in>set rs. keyOf (fst r) \<le> keyOf key \<and> keyOf key \<le> keyOf (snd r)) \<and>
        (\<forall>r\<in>set rs. keyOf (fst r) \<le> keyOf (snd r) \<and> map fst (snd r) = map fst pattern)
    | Inl f \<Rightarrow> f = Error (ErrorNo 17439)"
proof -
  have valid: "length oils = length pattern" "\<forall>oil\<in>set oils. oil_isValidFor (intervals oil) 1"
    using bounds_isValidFor_ok [OF assms(1,2)] by blast+
  have ok: "bounds_ok oils"
    using valid(2) assms(4)
    by (fastforce simp: bounds_ok_def bounds_hold_def list_all2_conv_all_nth in_set_conv_nth)
  have flat: "flattenBounds pattern oils = flattenFields True pattern oils [([], [])]"
    using ok valid(1) by (auto simp: flattenBounds_def nFields_def bounds_ok_def list_ex_iff)
  show ?thesis
  proof (cases "flattenFields True pattern oils [([], [])]")
    case (Inl f)
    then show ?thesis
      using flattenFields_Inl by (auto simp: flat)
  next
    case (Inr rs)
    have "\<exists>r\<in>set rs. brackets r ([] @ key)"
      using flatten_cover [OF Inr assms(3) ok assms(4), of "([], [])" "[]"] by (simp add: brackets_def)
    moreover have "\<forall>r\<in>set rs. list_all2 elem_le (fst r) (snd r) \<and> map fst (snd r) = [] @ map fst pattern"
      by (rule flatten_ordered [OF Inr valid(1) ok]) simp
    ultimately show ?thesis
      by (auto simp: flat Inr brackets_def intro!: componentwise_le)
  qed
qed

subsection \<open>Queries reach the owners of the documents they match\<close>

abbreviation owners :: "chunk_manager \<Rightarrow> bson_obj \<times> bson_obj \<Rightarrow> shard_id set" where
  "owners cm r \<equiv> shardId ` {c \<in> snd ` set (chunkMap cm).
     \<exists>k\<in>ivl (chunk_ivl c). keyOf (fst r) \<le> k \<and> k \<le> keyOf (snd r)}"

lemma targetRanges_exact:
  assumes "manager_of a b cm" "\<forall>r\<in>set rs. a \<le> keyOf (snd r) \<and> keyOf (fst r) \<le> keyOf (snd r)"
    "ids \<subseteq> getAllShardIds cm {}"
  shows "targetRanges cm rs ids = Inr (ids \<union> (\<Union>r\<in>set rs. owners cm r))"
  using assms(2,3)
proof (induction rs arbitrary: ids)
  case (Cons r rs)
  have r: "getShardIdsForRange cm (fst r) (snd r) ids = Inr (ids \<union> owners cm r)"
    using shards_for_range [OF assms(1), of "snd r" ids "fst r"] Cons.prems by (auto simp: not_less)
  have all: "getAllShardIds cm {} = shardId ` snd ` set (chunkMap cm)"
    using views_shards(1) [OF manager_of_views [OF assms(1)]] by (simp add: getAllShardIds_def)
  then have sub: "ids \<union> owners cm r \<subseteq> getAllShardIds cm {}" "(\<Union>r\<in>set rs. owners cm r) \<subseteq> getAllShardIds cm {}"
    using Cons.prems(2) by auto
  show ?case
  proof (cases "card (ids \<union> owners cm r) = length (shardVersions (chunkMapViews cm))")
    case True
    then have "ids \<union> owners cm r = getAllShardIds cm {}"
      using card_subset_eq [OF _ sub(1)] views_shards(2) [OF manager_of_views [OF assms(1)]]
      by (simp add: getAllShardIds_def)
    then show ?thesis
      using True sub(2) by (simp add: r) blast
  next
    case False
    then show ?thesis
      using Cons.IH [OF _ sub(1)] Cons.prems(1) by (simp add: r Un_assoc)
  qed
qed simp

lemma findIntersectingChunk_Inr:
  assumes "findIntersectingChunk cm k collation = Inr c"
  shows "\<exists>e\<in>set (chunkMap cm). snd e = c \<and> Chunk_containsKey c k"
proof -
  define it where "it = om_upper_bound woCompare k (chunkMap cm)"
  have "it < length (chunkMap cm)" "Chunk_containsKey (snd (chunkMap cm ! it)) k" "c = snd (chunkMap cm ! it)"
    using assms by (auto simp: findIntersectingChunk_def rbind_Inr_iff Let_def it_def split: if_splits)
  then show ?thesis
    using nth_mem by blast
qed

lemma findIntersectingChunk_Inl: "findIntersectingChunk cm k collation = Inl f \<Longrightarrow> f = Error ShardKeyNotFound"
  by (auto simp: findIntersectingChunk_def rbind_Inl_iff Let_def split: if_splits)

lemma chunk_of_key_unique:
  assumes "chunk_partition a b m" "e \<in> set m" "e' \<in> set m" "Chunk_containsKey (snd e) k"
    "Chunk_containsKey (snd e') k"
  shows "e = e'"
  using upper_bound_finds [OF assms(1)] assms(2-5) by (metis in_set_conv_nth)

lemma lowest_key:
  assumes "chunk_partition a b m" "loadable m" "map fst (getMin (snd (hd m))) = map fst key"
  shows "a \<le> keyOf key"
proof -
  have "a = keyOf (getMin (snd (hd m)))" "\<forall>f\<in>set (getMin (snd (hd m))). snd f = MinKey"
    using chunk_partition_ends(1) [OF assms(1)] assms(2) by (auto simp: loadable_def)
  moreover have "list_all2 elem_le xs ys" if "map fst xs = map fst ys" "\<forall>f\<in>set xs. snd f = MinKey" for xs ys
    using that
  proof (induction xs arbitrary: ys)
    case (Cons x xs)
    then obtain y ys' where "ys = y # ys'" "fst x = fst y" "x = (fst x, MinKey)"
      by (cases ys) (auto simp: prod_eq_iff)
    then show ?case
      using Cons elem_le_extreme(1) [of "fst x" "snd y"] by auto
  qed simp
  ultimately show ?thesis
    using assms(3) by (auto intro: componentwise_le)
qed

text \<open>
  C22: a query never misses a document. On a routing table that partitions the key space, when the
  index bounds of the query are valid for the shard key pattern and hold the shard key of a
  document, and the shard key the query fixes, if any, is the one of the document, the set of
  targeted shards contains the owner of the chunk the document is in; targeting fails only when
  the query is rejected or the bounds have more than four million combinations.
\<close>

theorem getShardIdsForQuery_complete:
  assumes "manager_of a b cm" "map fst (getMin (snd (hd (chunkMap cm)))) = map fst (cm_keyPattern cm)"
    "bounds_isValidFor bounds (cm_keyPattern cm) 1" "\<forall>e\<in>set (cm_keyPattern cm). \<not> number_is_negative (snd e)"
    "map fst key = map fst (cm_keyPattern cm)" "bounds_hold bounds key"
    "shardKeyToFind \<noteq> [] \<Longrightarrow> keyOf key = keyOf shardKeyToFind"
    "(getMax c, c) \<in> set (chunkMap cm)" "Chunk_containsKey c key" "ids \<subseteq> getAllShardIds cm {}"
  shows "case getShardIdsForQuery cm canonicalize hasGeoNear shardKeyToFind bounds collation ids of
      Inr shards \<Rightarrow> shardId c \<in> shards
    | Inl f \<Rightarrow> canonicalize = Inl f \<or> f = Error (ErrorNo 13501) \<or> f = Error (ErrorNo 17439)"
proof -
  have p: "chunk_partition a b (chunkMap cm)" and l: "loadable (chunkMap cm)"
    using assms(1) by (simp_all add: manager_of_def)
  have fast: "shardId c' = shardId c"
    if found: "findIntersectingChunk cm shardKeyToFind collation = Inr c'" "shardKeyToFind \<noteq> []" for c'
  proof -
    obtain e where e: "e \<in> set (chunkMap cm)" "snd e = c'" "Chunk_containsKey c' shardKeyToFind"
      using findIntersectingChunk_Inr [OF found(1)] by blast
    then have "Chunk_containsKey (snd e) key"
      using assms(7) found(2) by (simp add: Chunk_containsKey_ivl)
    then have "e = (getMax c, c)"
      using chunk_of_key_unique [OF p e(1) assms(8)] assms(9) by simp
    then show ?thesis
      using e(2) by auto
  qed
  have slow: "case rbind (flattenBounds (cm_keyPattern cm) bounds) (\<lambda>ranges.
        rbind (targetRanges cm ranges ids) (\<lambda>ids. Inr (if ids = {} then insert s ids else ids))) of
      Inr shards \<Rightarrow> shardId c \<in> shards | Inl f \<Rightarrow> f = Error (ErrorNo 17439)" for s
  proof (cases "flattenBounds (cm_keyPattern cm) bounds")
    case (Inr rs)
    note cover = flattenBounds_covers [OF assms(3,4,5,6), unfolded Inr, simplified]
    have "\<forall>r\<in>set rs. a \<le> keyOf (snd r) \<and> keyOf (fst r) \<le> keyOf (snd r)"
      using cover lowest_key [OF p l] assms(2) by fastforce
    then have "targetRanges cm rs ids = Inr (ids \<union> (\<Union>r\<in>set rs. owners cm r))"
      using targetRanges_exact [OF assms(1) _ assms(10)] by blast
    moreover obtain r where r: "r \<in> set rs" "keyOf (fst r) \<le> keyOf key" "keyOf key \<le> keyOf (snd r)"
      using cover by blast
    moreover have "c \<in> snd ` set (chunkMap cm)" "keyOf key \<in> ivl (chunk_ivl c)"
      using assms(8,9) by (auto simp: Chunk_containsKey_ivl intro: image_eqI [of _ _ "(getMax c, c)"])
    then have "shardId c \<in> owners cm r"
      using r by blast
    ultimately show ?thesis
      by (auto simp: Inr)
  qed (use flattenBounds_covers [OF assms(3,4,5,6)] in simp)
  let ?s = "sr_shardId (snd (hd (chunkRangeMap (chunkMapViews cm))))"
  define slow where "slow = rbind (flattenBounds (cm_keyPattern cm) bounds) (\<lambda>ranges.
    rbind (targetRanges cm ranges ids) (\<lambda>ids. Inr (if ids = {} then insert ?s ids else ids)))"
  have S: "case slow of Inr shards \<Rightarrow> shardId c \<in> shards | Inl f \<Rightarrow> f = Error (ErrorNo 17439)"
    unfolding slow_def by (rule slow)
  have Q: "getShardIdsForQuery cm canonicalize hasGeoNear shardKeyToFind bounds collation ids =
      rbind canonicalize (\<lambda>_. rbind (uassert (ErrorNo 13501) (\<not> hasGeoNear)) (\<lambda>_.
        if shardKeyToFind \<noteq> [] then
          (case findIntersectingChunk cm shardKeyToFind collation of
             Inr chunk \<Rightarrow> Inr (insert (shardId chunk) ids) | Inl (Error _) \<Rightarrow> slow | Inl f \<Rightarrow> Inl f)
        else slow))"
    by (simp only: getShardIdsForQuery_def slow_def Let_def)
  show ?thesis
  proof (cases "canonicalize = Inr () \<and> \<not> hasGeoNear")
    case False
    then show ?thesis
      unfolding Q by (cases canonicalize) (auto simp: uassert_def)
  next
    case True
    then have Q': "getShardIdsForQuery cm canonicalize hasGeoNear shardKeyToFind bounds collation ids =
        (if shardKeyToFind \<noteq> [] then
          (case findIntersectingChunk cm shardKeyToFind collation of
             Inr chunk \<Rightarrow> Inr (insert (shardId chunk) ids) | Inl (Error _) \<Rightarrow> slow | Inl f \<Rightarrow> Inl f)
         else slow)"
      unfolding Q by simp
    show ?thesis
    proof (cases "findIntersectingChunk cm shardKeyToFind collation")
      case (Inl f)
      then have "getShardIdsForQuery cm canonicalize hasGeoNear shardKeyToFind bounds collation ids = slow"
        using findIntersectingChunk_Inl [OF Inl] by (simp add: Q')
      then show ?thesis
        using S by (simp split: sum.splits)
    next
      case (Inr c')
      show ?thesis
        using S fast [OF Inr] unfolding Q' Inr by (cases "shardKeyToFind = []") (simp_all split: sum.splits)
    qed
  qed
qed

definition sample_bounds :: "ordered_interval_list list" where
  "sample_bounds = [\<lparr>intervals = [int_interval 3 True 7 False], oil_name = ''a''\<rparr>]"

theorem getShardIdsForQuery_complete_witness:
  "case getShardIdsForQuery sample_manager (Inr ()) False [] sample_bounds [] {} of
      Inr shards \<Rightarrow> ''s0'' \<in> shards
    | Inl f \<Rightarrow> f = Error (ErrorNo 13501) \<or> f = Error (ErrorNo 17439)"
proof -
  have c: "shardId (chunk_at (int_key 0) (int_key 10) ''s0'' 1) = ''s0''"
    "(getMax (chunk_at (int_key 0) (int_key 10) ''s0'' 1), chunk_at (int_key 0) (int_key 10) ''s0'' 1)
      \<in> set (chunkMap sample_manager)"
    "Chunk_containsKey (chunk_at (int_key 0) (int_key 10) ''s0'' 1) (int_key 5)"
    by (simp_all add: sample_manager_def sample_map_def Chunk_containsKey_ivl ivl_def) (simp_all add: chunk_at_def)
  have pat: "cm_keyPattern sample_manager = [(''a'', NumberInt 1)]" "chunkMap sample_manager = sample_map"
    by (simp_all add: sample_manager_def)
  have "map fst (getMin (snd (hd (chunkMap sample_manager)))) = map fst (cm_keyPattern sample_manager)"
    by (simp add: pat sample_map_def chunk_at_def)
  moreover have "bounds_isValidFor sample_bounds (cm_keyPattern sample_manager) 1"
    by (simp add: sample_bounds_def pat number_is_negative_def oil_isValidFor_def interval_oriented_iff int_interval_def)
  moreover have "\<forall>e\<in>set (cm_keyPattern sample_manager). \<not> number_is_negative (snd e)"
    by (simp add: pat number_is_negative_def)
  moreover have "map fst (int_key 5) = map fst (cm_keyPattern sample_manager)"
    by (simp add: pat)
  moreover have "bounds_hold sample_bounds (int_key 5)"
    by (simp add: bounds_hold_def sample_bounds_def int_key_def holds_def int_interval_def)
  ultimately show ?thesis
    using getShardIdsForQuery_complete [OF sample_manager_of _ _ _ _ _ _ c(2,3), of sample_bounds "[]" "{}"
      "Inr ()" False "[]", unfolded c(1)]
    by (simp split: sum.splits)
qed

end
