(* ===== verification/Hass_Split.thy ===== *)
theory Hass_Split
  imports Chunk_Manager Shard_Key_Pattern
begin

text \<open>
  The hotness-aware auto-split of the router (\<open>s/commands/cluster_write.cpp\<close>, built with
  \<open>DYNAMIC\<close>, and \<open>s/shard_util.cpp\<close>): a write adds the decimal prefix of its key to the sum of the
  chunk, and a chunk that has grown enough is split at points that are moved towards the average
  of the prefixes written to it. What the router learns from other servers and from its settings
  is in the record \<open>auto_split_env\<close>. The exception \<open>std::out_of_range\<close> is not a \<open>DBException\<close> and
  leaves the function; so do undefined behaviour and the abort of the process.
\<close>

subsection \<open>Strings\<close>

fun str_find :: "string \<Rightarrow> string \<Rightarrow> nat option" where
  "str_find pat s =
     (if take (length pat) s = pat then Some 0
      else case s of [] \<Rightarrow> None | _ # t \<Rightarrow> map_option Suc (str_find pat t))"

declare str_find.simps [simp del]

text \<open>\<open>s.replace(s.find(pat), n, "")\<close> and \<open>s.erase(s.end()-1)\<close>.\<close>

definition removeAt :: "string \<Rightarrow> nat \<Rightarrow> string \<Rightarrow> string result" where
  "removeAt pat n s =
     (case str_find pat s of None \<Rightarrow> Inl OutOfRange | Some i \<Rightarrow> Inr (take i s @ drop (i + n) s))"

definition eraseLast :: "string \<Rightarrow> string result" where
  "eraseLast s = (if s = [] then Inl UndefinedBehaviour else Inr (butlast s))"

subsection \<open>The key of a write\<close>

definition writeKey :: "bson_obj \<Rightarrow> string result" where
  "writeKey request =
     (case getField request ''documents'' of
        None \<Rightarrow> Inr []
      | Some documents \<Rightarrow>
          (case (case documents of Object a \<Rightarrow> getField a ''0'' | Array a \<Rightarrow> getField a ''0'' | _ \<Rightarrow> None) of
             None \<Rightarrow> Inr []
           | Some zero \<Rightarrow>
               (case (case zero of Object d \<Rightarrow> d | Array d \<Rightarrow> d | _ \<Rightarrow> []) of
                  [] \<Rightarrow> Inl UndefinedBehaviour
                | (n, v) # _ \<Rightarrow>
                    rbind (elementToString True False False 0 n v) (\<lambda>string_key.
                    rbind (removeAt ''_'' 10 string_key) eraseLast))))"

subsection \<open>Moving the split points\<close>

definition splitKeyDigits :: "bson_obj \<Rightarrow> string result" where
  "splitKeyDigits point =
     (case getField point ''_id'' of
        Some (String string_key) \<Rightarrow> rbind (removeAt ''user'' 4 string_key) eraseLast
      | _ \<Rightarrow> Inl (Error (ErrorNo 13111)))"

definition prefixValue :: "string \<Rightarrow> 64 word" where
  "prefixValue string_key = extract_u64 0 (take 10 string_key)"

fun countBelow :: "64 word \<Rightarrow> bson_obj list \<Rightarrow> nat result" where
  "countBelow average [] = Inr 0"
| "countBelow average (point # points) =
     rbind (splitKeyDigits point) (\<lambda>string_key.
     rbind (countBelow average points) (\<lambda>n.
       Inr (if prefixValue string_key \<le> average then n + 1 else n)))"

definition boundPrefix :: "64 word \<Rightarrow> bson_obj \<Rightarrow> 64 word result" where
  "boundPrefix uninit key =
     rbind (objToString False False False 0 key) (\<lambda>string_key.
     rbind (removeAt ''{'' 12 string_key) (\<lambda>string_key.
     rbind (eraseLast string_key) (\<lambda>string_key.
       Inr (extract_u64 uninit (take 10 string_key)))))"

text \<open>The double nearest to 0.1. The conversion of a double out of range of the type is undefined.\<close>

definition d0_1 :: rat where
  "d0_1 = 3602879701896397 / 36028797018963968"

definition double_to_u64 :: "rat \<Rightarrow> 64 word result" where
  "double_to_u64 q =
     (if - 1 < q \<and> q < 2 ^ 64 then Inr (word_of_int (rat_trunc q)) else Inl UndefinedBehaviour)"

definition u64_to_double :: "64 word \<Rightarrow> rat" where
  "u64_to_double w = dround (rat_of_nat (unat w))"

definition chunkShift :: "64 word \<Rightarrow> 64 word \<Rightarrow> 64 word result" where
  "chunkShift int_chunk_max int_chunk_min =
     rbind (double_to_u64 (dround (u64_to_double int_chunk_max - u64_to_double int_chunk_min))) (\<lambda>chunk_range.
       double_to_u64 (dround (u64_to_double chunk_range * d0_1)))"

definition shiftedKey :: "string \<Rightarrow> 64 word \<Rightarrow> bson_obj result" where
  "shiftedKey string_key k =
     (if length string_key < 10 then Inl UndefinedBehaviour
      else Inr [(''_id'', String (''user'' @ ItoA (unat k) @ drop 10 string_key))])"

definition shiftRight :: "64 word \<Rightarrow> bson_obj \<Rightarrow> bson_obj result" where
  "shiftRight right_shift point =
     rbind (splitKeyDigits point) (\<lambda>string_key. shiftedKey string_key (prefixValue string_key - right_shift))"

text \<open>The index of this loop has 8 bits, so it need not reach the number of points.\<close>

partial_function (option) rightLoop ::
    "8 word \<Rightarrow> 64 word \<Rightarrow> bson_obj list \<Rightarrow> bson_obj list result option" where
  "rightLoop i right_shift splitPoints =
     (if unat i < length splitPoints
      then (case shiftRight right_shift (splitPoints ! unat i) of
              Inl f \<Rightarrow> Some (Inl f)
            | Inr point \<Rightarrow> rightLoop (i + 1) (right_shift div 2) (splitPoints[unat i := point]))
      else Some (Inr splitPoints))"

declare rightLoop.simps [code]

text \<open>The point at \<open>i\<close> and the shift that is left for the points below it.\<close>

definition shiftLeft :: "64 word \<Rightarrow> 64 word \<Rightarrow> bson_obj \<Rightarrow> (bson_obj \<times> 64 word) result" where
  "shiftLeft average left_shift point =
     rbind (splitKeyDigits point) (\<lambda>string_key.
     let k = prefixValue string_key;
         (k', left_shift') = (if k \<noteq> average then (k + left_shift, left_shift div 2) else (k, left_shift))
     in rbind (shiftedKey string_key k') (\<lambda>point'. Inr (point', left_shift')))"

fun leftLoop :: "64 word \<Rightarrow> nat \<Rightarrow> 64 word \<Rightarrow> bson_obj list \<Rightarrow> bson_obj list result" where
  "leftLoop average 0 left_shift splitPoints = Inr splitPoints"
| "leftLoop average (Suc i) left_shift splitPoints =
     rbind (shiftLeft average left_shift (splitPoints ! i)) (\<lambda>(point, left_shift').
       leftLoop average i left_shift' (splitPoints[i := point]))"

definition tunePoints :: "64 word \<Rightarrow> 64 word \<Rightarrow> nat \<Rightarrow> bson_obj list \<Rightarrow> bson_obj list result option" where
  "tunePoints average shift n splitPoints =
     (case rightLoop (word_of_nat n) shift splitPoints of
        None \<Rightarrow> None
      | Some (Inl f) \<Rightarrow> Some (Inl f)
      | Some (Inr splitPoints') \<Rightarrow> Some (leftLoop average n shift splitPoints'))"

subsection \<open>Requests to the shard\<close>

record auto_split_env =
  env_maxChunkSizeBytes :: "64 word"
  env_shouldAutoSplit :: bool
  env_ticket :: bool
  env_refresh :: "(64 word \<times> bool) result"
  env_splitVector :: "64 word \<Rightarrow> bson_obj result"
  env_shard :: "unit result"
  env_cursor :: "bson_obj list option"
  env_findOne :: bson_obj
  env_hash64 :: "bson_value \<Rightarrow> 64 word"
  env_splitChunk :: "bson_obj list \<Rightarrow> bson_obj result"
  env_balanceForAutoSplit :: bool
  env_getCollection :: "bool result"
  env_reload :: "chunk_manager result"
  env_rebalanceChunk :: "unit result"
  env_uninit :: "64 word"

fun objectElements :: "bson_obj \<Rightarrow> bson_obj list result" where
  "objectElements [] = Inr []"
| "objectElements ((_, v) # es) =
     (case (case v of Object ob \<Rightarrow> Some ob | Array a \<Rightarrow> Some a | _ \<Rightarrow> None) of
        None \<Rightarrow> Inl (Error (ErrorNo 10065))
      | Some ob \<Rightarrow> rbind (objectElements es) (\<lambda>obs. Inr (ob # obs)))"

definition selectChunkSplitPoints :: "auto_split_env \<Rightarrow> 64 word \<Rightarrow> bson_obj list result" where
  "selectChunkSplitPoints env chunkSizeBytes =
     rbind (env_splitVector env chunkSizeBytes) (\<lambda>response.
       objectElements (case getField response ''splitKeys'' of
         Some (Object ob) \<Rightarrow> ob | Some (Array a) \<Rightarrow> a | _ \<Rightarrow> []))"

definition findExtremeKeyForShard :: "auto_split_env \<Rightarrow> shard_key_pattern \<Rightarrow> bool \<Rightarrow> bson_obj result" where
  "findExtremeKeyForShard env p doSplitAtLower =
     rbind (if doSplitAtLower then Inr ()
            else uassert (ErrorNo 10163) (list_all (\<lambda>e. isNumber (snd e)) (keyPattern p))) (\<lambda>_.
     rbind (env_shard env) (\<lambda>_.
     rbind (if doSplitAtLower
            then (case env_cursor env of
                    None \<Rightarrow> Inl (Error (ErrorNo 28736))
                  | Some docs \<Rightarrow> Inr (case docs of [] \<Rightarrow> [] | d # _ \<Rightarrow> d))
            else Inr (env_findOne env)) (\<lambda>end_doc.
       Inr (if end_doc = [] then [] else extractShardKeyFromDoc (env_hash64 env) p end_doc))))"

definition kMaxSplitPoints :: nat where
  "kMaxSplitPoints = 8192"

definition splitChunkAtMultiplePoints ::
    "auto_split_env \<Rightarrow> chunk_range \<Rightarrow> bson_obj list \<Rightarrow> chunk_range option result" where
  "splitChunkAtMultiplePoints env chunkRange splitPoints =
     rbind (invariant (splitPoints \<noteq> [])) (\<lambda>_.
     rbind (uassert BadValue (length splitPoints \<le> kMaxSplitPoints)) (\<lambda>_.
     rbind (uassert CannotSplit (woCompare (minKey chunkRange) (hd splitPoints) \<noteq> 0)) (\<lambda>_.
     rbind (uassert CannotSplit (woCompare (maxKey chunkRange) (last splitPoints) \<noteq> 0)) (\<lambda>_.
     rbind (env_splitChunk env splitPoints) (\<lambda>cmdResponse.
       case bsonExtractTypedField cmdResponse ''shouldMigrate'' TObject of
         Inl _ \<Rightarrow> Inr None
       | Inr (Object ob) \<Rightarrow> rbind (ChunkRange_fromBSON ob) (\<lambda>r. Inr (Some r))
       | Inr _ \<Rightarrow> Inl Fatal)))))"

subsection \<open>The auto-split\<close>

definition kTooManySplitPoints :: "64 word" where
  "kTooManySplitPoints = 4"

definition chunkSizeToUse :: "64 word \<Rightarrow> 64 word \<Rightarrow> 64 word \<Rightarrow> 64 word result" where
  "chunkSizeToUse chunkBytesWritten desiredChunkSize maxChunkSizeBytes =
     (if desiredChunkSize = 0 then Inl UndefinedBehaviour
      else Inr (let estNumSplitPoints = chunkBytesWritten div desiredChunkSize * 2
        in if kTooManySplitPoints \<le> estNumSplitPoints then min chunkBytesWritten maxChunkSizeBytes
           else desiredChunkSize))"

text \<open>The count is a signed 32-bit integer; the division converts it to 64 bits without sign.\<close>

definition averagePrefix :: "chunk \<Rightarrow> 64 word result" where
  "averagePrefix c = (if cnt c = 0 then Inl UndefinedBehaviour else Inr (split_sum c div scast (cnt c)))"

definition chunkPrefixes ::
    "auto_split_env \<Rightarrow> shard_key_pattern \<Rightarrow> chunk \<Rightarrow> bool \<Rightarrow> bool \<Rightarrow> (64 word \<times> 64 word) result" where
  "chunkPrefixes env p c minIsInf maxIsInf =
     rbind (if maxIsInf then findExtremeKeyForShard env p False else Inr (getMax c)) (\<lambda>max_key.
     rbind (boundPrefix (env_uninit env) max_key) (\<lambda>int_chunk_max.
     rbind (if minIsInf then findExtremeKeyForShard env p True else Inr (getMin c)) (\<lambda>min_key.
     rbind (boundPrefix (env_uninit env) min_key) (\<lambda>int_chunk_min.
       Inr (int_chunk_max, int_chunk_min)))))"

definition replaceExtreme ::
    "auto_split_env \<Rightarrow> shard_key_pattern \<Rightarrow> bool \<Rightarrow> bool \<Rightarrow> bson_obj list \<Rightarrow> bson_obj list result" where
  "replaceExtreme env p minIsInf maxIsInf splitPoints =
     (if \<not> isOrderedKeyPattern (keyPattern p) then Inr splitPoints
      else if minIsInf
      then rbind (findExtremeKeyForShard env p True) (\<lambda>key.
        Inr (if key = [] then splitPoints else splitPoints[0 := key]))
      else if maxIsInf
      then rbind (findExtremeKeyForShard env p False) (\<lambda>key.
        Inr (if key = [] then splitPoints else splitPoints[length splitPoints - 1 := key]))
      else Inr splitPoints)"

text \<open>
  The points the shard is asked to split at, or None inside the result when there are too few; None
  outside when the loop does not end.
\<close>

definition choosePoints ::
    "auto_split_env \<Rightarrow> shard_key_pattern \<Rightarrow> chunk \<Rightarrow> bool \<Rightarrow> bool \<Rightarrow> 64 word \<Rightarrow> 64 word
      \<Rightarrow> bson_obj list option result option" where
  "choosePoints env p c minIsInf maxIsInf desiredChunkSize maxChunkSizeBytes =
     (let plan =
        rbind (chunkSizeToUse (dataWrittenBytes c) desiredChunkSize maxChunkSizeBytes) (\<lambda>size.
        rbind (averagePrefix c) (\<lambda>average.
        rbind (selectChunkSplitPoints env size) (\<lambda>splitPoints.
          if length splitPoints \<le> 1 then Inr None
          else
            rbind (countBelow average splitPoints) (\<lambda>n.
            rbind (chunkPrefixes env p c minIsInf maxIsInf) (\<lambda>(int_chunk_max, int_chunk_min).
            rbind (chunkShift int_chunk_max int_chunk_min) (\<lambda>shift.
              Inr (Some (average, shift, n, splitPoints))))))))
      in case plan of
           Inl f \<Rightarrow> Some (Inl f)
         | Inr None \<Rightarrow> Some (Inr None)
         | Inr (Some (average, shift, n, splitPoints)) \<Rightarrow>
             map_option (\<lambda>r. rbind r (\<lambda>tuned.
               rbind (replaceExtreme env p minIsInf maxIsInf tuned) (\<lambda>pts. Inr (Some pts))))
               (tunePoints average shift n splitPoints))"

record auto_split_out =
  out_chunk :: chunk
  out_splitPoints :: "bson_obj list option"
  out_moved :: "chunk_type option"
  out_invalidated :: bool

definition isStaleShardingError :: "error_code \<Rightarrow> bool" where
  "isStaleShardingError code = (code \<in> {ErrorNo 13388, StaleShardVersion, StaleEpoch})"

definition shouldBalance :: "auto_split_env \<Rightarrow> bool" where
  "shouldBalance env =
     (env_balanceForAutoSplit env \<and> (case env_getCollection env of Inl _ \<Rightarrow> False | Inr allowBalance \<Rightarrow> allowBalance))"

definition chunkToMove :: "string \<Rightarrow> chunk \<Rightarrow> chunk_type result" where
  "chunkToMove nss c =
     rbind (setNS nss ChunkType_empty) (\<lambda>t1.
     rbind (setShard (shardId c) t1) (\<lambda>t2.
     rbind (setMin (getMin c) t2) (\<lambda>t3.
     rbind (setMax (getMax c) t3) (\<lambda>t4.
       setVersion (lastmod c) t4))))"

definition balanceAfterSplit ::
    "auto_split_env \<Rightarrow> string \<Rightarrow> chunk_range option \<Rightarrow> chunk_type option result" where
  "balanceAfterSplit env nss suggestedMigrateChunk =
     rbind (env_reload env) (\<lambda>cm.
       case suggestedMigrateChunk of
         None \<Rightarrow> Inr None
       | Some r \<Rightarrow>
           if \<not> shouldBalance env then Inr None
           else
             rbind (findIntersectingChunkWithSimpleCollation cm (minKey r)) (\<lambda>suggestedChunk.
             rbind (chunkToMove nss suggestedChunk) (\<lambda>t.
             rbind (env_rebalanceChunk env) (\<lambda>_. Inr (Some t)))))"

definition splitFailed :: "auto_split_out \<Rightarrow> fault \<Rightarrow> auto_split_out \<times> unit result" where
  "splitFailed out f =
     (case f of
        Error code \<Rightarrow>
          (out\<lparr>out_chunk := clearBytesWritten (out_chunk out), out_invalidated := isStaleShardingError code\<rparr>, Inr ())
      | _ \<Rightarrow> (out, Inl f))"

definition splitOut :: "chunk \<Rightarrow> bson_obj list option \<Rightarrow> chunk_type option \<Rightarrow> auto_split_out" where
  "splitOut c pts moved =
     \<lparr>out_chunk = c, out_splitPoints = pts, out_moved = moved, out_invalidated = (moved \<noteq> None)\<rparr>"

definition splitAtPoints ::
    "auto_split_env \<Rightarrow> chunk_manager \<Rightarrow> chunk \<Rightarrow> bool \<Rightarrow> bool \<Rightarrow> bson_obj list \<Rightarrow> auto_split_out \<times> unit result" where
  "splitAtPoints env manager c minIsInf maxIsInf splitPoints =
     (let c' = (if minIsInf \<or> maxIsInf then c else clearBytesWritten c)
      in case rbind (splitChunkAtMultiplePoints env (crange c) splitPoints)
             (balanceAfterSplit env (cm_nss manager)) of
           Inl f \<Rightarrow> splitFailed (splitOut c' (Some splitPoints) None) f
         | Inr moved \<Rightarrow> (splitOut c' (Some splitPoints) moved, Inr ()))"

definition tryAutoSplit ::
    "auto_split_env \<Rightarrow> chunk_manager \<Rightarrow> shard_key_pattern \<Rightarrow> chunk \<Rightarrow> bool \<Rightarrow> bool
      \<Rightarrow> (auto_split_out \<times> unit result) option" where
  "tryAutoSplit env manager p c minIsInf maxIsInf =
     (case env_refresh env of
        Inl f \<Rightarrow> Some (splitFailed (splitOut c None None) f)
      | Inr (maxChunkSizeBytes, shouldAutoSplit) \<Rightarrow>
          if \<not> shouldAutoSplit then Some (splitOut c None None, Inr ())
          else map_option (\<lambda>r.
            case r of
              Inl f \<Rightarrow> splitFailed (splitOut c None None) f
            | Inr None \<Rightarrow> (splitOut (clearBytesWritten c) None None, Inr ())
            | Inr (Some splitPoints) \<Rightarrow> splitAtPoints env manager c minIsInf maxIsInf splitPoints)
            (choosePoints env p c minIsInf maxIsInf (env_maxChunkSizeBytes env) maxChunkSizeBytes))"

definition updateChunkWriteStatsAndSplitIfNeeded ::
    "auto_split_env \<Rightarrow> chunk_manager \<Rightarrow> shard_key_pattern \<Rightarrow> chunk \<Rightarrow> 64 word
      \<Rightarrow> (auto_split_out \<times> unit result) option" where
  "updateChunkWriteStatsAndSplitIfNeeded env manager p c0 dataWritten =
     (case rbind (globalMin (keyPattern p)) (\<lambda>mn. rbind (globalMax (keyPattern p)) (\<lambda>mx.
           Inr (woCompare mn (getMin c0) = 0, woCompare mx (getMax c0) = 0))) of
        Inl f \<Rightarrow> Some (splitOut c0 None None, Inl f)
      | Inr (minIsInf, maxIsInf) \<Rightarrow>
          let c = addBytesWritten dataWritten c0
          in if \<not> shouldSplit c (env_maxChunkSizeBytes env) minIsInf maxIsInf \<or> \<not> env_shouldAutoSplit env
                \<or> \<not> env_ticket env
             then Some (splitOut c None None, Inr ())
             else tryAutoSplit env manager p c minIsInf maxIsInf)"

text \<open>Chunks are shared objects: the statistics of a chunk are written back to the routing table.\<close>

definition putChunk :: "chunk_manager \<Rightarrow> chunk \<Rightarrow> chunk_manager" where
  "putChunk cm c = cm\<lparr>chunkMap := map (\<lambda>(k, d). if k = getMax c then (k, c) else (k, d)) (chunkMap cm)\<rparr>"

fun splitIfNeeded ::
    "(nat \<Rightarrow> auto_split_env) \<Rightarrow> chunk_manager \<Rightarrow> shard_key_pattern \<Rightarrow> (bson_obj \<times> 64 word) list \<Rightarrow> string
      \<Rightarrow> (chunk_manager \<times> unit result) option" where
  "splitIfNeeded env cm p [] string_key = Some (cm, Inr ())"
| "splitIfNeeded env cm p ((key, delta) # deltas) string_key =
     (case findIntersectingChunkWithSimpleCollation cm key of
        Inl (Error _) \<Rightarrow> Some (cm, Inr ())
      | Inl f \<Rightarrow> Some (cm, Inl f)
      | Inr c \<Rightarrow>
          (case updateChunkWriteStatsAndSplitIfNeeded (env 0) cm p
              (add_split_sum (env_uninit (env 0)) string_key (add_cnt c)) delta of
             None \<Rightarrow> None
           | Some (out, Inl f) \<Rightarrow> Some (putChunk cm (out_chunk out), Inl f)
           | Some (out, Inr _) \<Rightarrow> splitIfNeeded (\<lambda>i. env (Suc i)) (putChunk cm (out_chunk out)) p deltas string_key))"

end
