(* ===== verification/Hass_Tuning.thy ===== *)
theory Hass_Tuning
  imports Hass_Split Routing
begin

text \<open>
  What the hotness-aware split does to its split points: the loops over the points against their
  arithmetic on the ten-digit key prefixes, when the points stay in order, when the loops end, the
  average the points are moved to, and which failures the auto-split keeps to itself.
\<close>

subsection \<open>Decimal prefixes\<close>

lemma atou_Cons: "atou (c # s) = digit_val c * 10 ^ length s + atou s"
proof (induction s rule: rev_induct)
  case Nil
  then show ?case
    by (simp add: atou_def)
next
  case (snoc x xs)
  then show ?case
    using atou_snoc [of "c # xs" x] by simp
qed

lemma atou_less:
  assumes "set s \<subseteq> digit ` {..<10}"
  shows "atou s < 10 ^ length s"
  using assms
proof (induction s rule: rev_induct)
  case (snoc x xs)
  then obtain d where "x = digit d" "d < 10"
    by auto
  then show ?case
    using snoc by simp
qed simp

lemma digits_less:
  assumes "length s = length t" "set s \<subseteq> digit ` {..<10}" "set t \<subseteq> digit ` {..<10}" "atou s < atou t"
  shows "s @ r < t @ r'"
  using assms
proof (induction s t rule: list_induct2)
  case (Cons x xs y ys)
  then obtain c d where cd: "x = digit c" "c < 10" "y = digit d" "d < 10"
    by auto
  show ?case
  proof (cases "c = d")
    case True
    then show ?thesis
      using Cons cd by (simp add: atou_Cons)
  next
    case False
    have "\<not> d < c"
    proof
      assume "d < c"
      then have "(d + 1) * 10 ^ length xs \<le> c * 10 ^ length xs"
        by (intro mult_right_mono) auto
      moreover have "atou ys < 10 ^ length xs"
        using atou_less [of ys] Cons by simp
      ultimately show False
        using Cons.prems(3) Cons.hyps cd by (simp add: atou_Cons algebra_simps)
    qed
    then have "x < y"
      using False cd by (simp add: less_char_def digit_def)
    then show ?thesis
      by simp
  qed
qed simp

definition ten_digits :: "nat \<Rightarrow> bool" where
  "ten_digits k \<longleftrightarrow> 10 ^ 9 \<le> k \<and> k < 10 ^ 10"

lemma length_ItoA: "\<lbrakk>v < 10 ^ k; 0 < k\<rbrakk> \<Longrightarrow> length (ItoA v) \<le> k"
  using length_ItoA_loop [of v k] by (cases "v = 0") (simp_all add: ItoA_eq_loop, simp add: ItoA_def)

lemma length_ItoA_ten [simp]:
  assumes "ten_digits k"
  shows "length (ItoA k) = 10"
proof -
  have "k < 10 ^ 10" "10 ^ 9 \<le> k"
    using assms by (auto simp: ten_digits_def)
  then have "length (ItoA k) \<le> 10"
    using length_ItoA [of k 10] by simp
  moreover have "(10 :: nat) ^ 9 < 10 ^ length (ItoA k)"
    using atou_less [OF set_ItoA, of k] \<open>10 ^ 9 \<le> k\<close> by simp
  then have "9 < length (ItoA k)"
    using power_less_imp_less_exp [of "10 :: nat" 9 "length (ItoA k)"] by simp
  ultimately show ?thesis
    by simp
qed

subsection \<open>One split point\<close>

definition user_point :: "nat \<Rightarrow> string \<Rightarrow> bson_obj" where
  "user_point k r = [(''_id'', String (''user'' @ ItoA k @ r))]"

lemma user_point_less:
  assumes "ten_digits k" "ten_digits k'" "k < k'"
  shows "keyOf (user_point k r) < keyOf (user_point k' r')"
proof -
  have "ItoA k @ r < ItoA k' @ r'"
    using digits_less [OF _ set_ItoA set_ItoA, of k k'] assms by simp
  then have "(''user'' @ ItoA k @ r) < ''user'' @ ItoA k' @ r'"
    by simp
  then have "sgn (compareElementStringValues (''user'' @ ItoA k @ r) (''user'' @ ItoA k' @ r')) = - 1"
    unfolding compareElementStringValues_cmp3 by (simp add: cmp3_def)
  then have "woCompare (user_point k r) (user_point k' r') < 0"
    by (simp add: user_point_def woCompareElement_def compareElements.simps sgn_if split: if_splits)
  then show ?thesis
    by (simp add: key_simps)
qed

lemma prefixValue_ten [simp]: "ten_digits k \<Longrightarrow> prefixValue (ItoA k @ r) = word_of_nat k"
  using extract_u64_ItoA [of k 0] by (simp add: prefixValue_def ten_digits_def [of k])

lemma splitKeyDigits_user: "r \<noteq> [] \<Longrightarrow> splitKeyDigits (user_point k r) = Inr (ItoA k @ butlast r)"
  by (simp add: splitKeyDigits_def user_point_def removeAt_def str_find.simps [of "''user''"] eraseLast_def butlast_append)

lemma shiftedKey_user: "ten_digits k \<Longrightarrow> shiftedKey (ItoA k @ r) w = Inr (user_point (unat w) r)"
  by (simp add: shiftedKey_def user_point_def)

lemma unat_diff:
  assumes "s \<le> k" "k < 2 ^ 64"
  shows "unat (word_of_nat k - word_of_nat s :: 64 word) = k - s"
  using assms by (simp add: unat_sub_if' unat_of_nat take_bit_nat_eq_self)

lemma unat_sum: "k + s < 2 ^ 64 \<Longrightarrow> unat (word_of_nat k + word_of_nat s :: 64 word) = k + s"
  by (simp add: unat_of_nat take_bit_nat_eq_self flip: of_nat_add)

lemma shiftRight_user:
  assumes "ten_digits k" "r \<noteq> []" "s \<le> k"
  shows "shiftRight (word_of_nat s) (user_point k r) = Inr (user_point (k - s) (butlast r))"
  using assms unat_diff [of s k]
  by (simp add: shiftRight_def splitKeyDigits_user shiftedKey_user ten_digits_def)

lemma shiftLeft_user:
  assumes "ten_digits k" "r \<noteq> []" "s < 10 ^ 10" "average < 10 ^ 10" "k \<noteq> average"
  shows "shiftLeft (word_of_nat average) (word_of_nat s) (user_point k r) =
    Inr (user_point (k + s) (butlast r), word_of_nat s div 2)"
proof -
  have "(word_of_nat k :: 64 word) \<noteq> word_of_nat average"
    using assms by (simp add: ten_digits_def word_of_nat_eq_iff take_bit_nat_eq_self)
  then show ?thesis
    using assms unat_sum [of k s] by (simp add: shiftLeft_def splitKeyDigits_user shiftedKey_user ten_digits_def)
qed

subsection \<open>The loops\<close>

fun rightSpec :: "64 word \<Rightarrow> bson_obj list \<Rightarrow> bson_obj list result" where
  "rightSpec s [] = Inr []"
| "rightSpec s (p # ps) =
     rbind (shiftRight s p) (\<lambda>q. rbind (rightSpec (s div 2) ps) (\<lambda>qs. Inr (q # qs)))"

fun leftSpec :: "64 word \<Rightarrow> 64 word \<Rightarrow> bson_obj list \<Rightarrow> bson_obj list result" where
  "leftSpec a s [] = Inr []"
| "leftSpec a s (p # ps) =
     rbind (shiftLeft a s p) (\<lambda>(q, s'). rbind (leftSpec a s' ps) (\<lambda>qs. Inr (q # qs)))"

lemma rbind_assoc: "rbind (rbind r f) g = rbind r (\<lambda>x. rbind (f x) g)"
  by (cases r) simp_all

lemma rightLoop_spec:
  assumes "length pts < 256" "n \<le> length pts"
  shows "rightLoop (word_of_nat n) s pts = Some (rbind (rightSpec s (drop n pts)) (\<lambda>qs. Inr (take n pts @ qs)))"
  using assms
proof (induction "length pts - n" arbitrary: n s pts)
  case 0
  then have "unat (word_of_nat n :: 8 word) = length pts"
    by (simp add: unat_of_nat take_bit_nat_eq_self)
  then show ?case
    using 0 by (subst rightLoop.simps) simp
next
  case (Suc m)
  then have n: "n < length pts" "unat (word_of_nat n :: 8 word) = n"
    by (simp_all add: unat_of_nat take_bit_nat_eq_self)
  have d: "drop n pts = pts ! n # drop (Suc n) pts"
    using n(1) by (simp add: Cons_nth_drop_Suc)
  have i: "(word_of_nat n + 1 :: 8 word) = word_of_nat (Suc n)"
    by simp
  show ?case
  proof (cases "shiftRight s (pts ! n)")
    case (Inl f)
    then show ?thesis
      using n d by (subst rightLoop.simps) simp
  next
    case (Inr p)
    have "rightLoop (word_of_nat (Suc n)) (s div 2) (pts[n := p]) =
        Some (rbind (rightSpec (s div 2) (drop (Suc n) (pts[n := p]))) (\<lambda>qs. Inr (take (Suc n) (pts[n := p]) @ qs)))"
      using Suc.hyps(1) [of "pts[n := p]" "Suc n"] Suc.hyps(2) Suc.prems n(1) by simp
    moreover have "take (Suc n) (pts[n := p]) = take n pts @ [p]"
      using n(1) by (simp add: take_Suc_conv_app_nth)
    ultimately show ?thesis
      using n d Inr i by (subst rightLoop.simps) (simp add: rbind_assoc add.commute)
  qed
qed

lemma leftLoop_spec:
  assumes "n \<le> length pts"
  shows "leftLoop a n s pts = rbind (leftSpec a s (rev (take n pts))) (\<lambda>qs. Inr (rev qs @ drop n pts))"
  using assms
proof (induction n arbitrary: s pts)
  case (Suc n)
  have t: "rev (take (Suc n) pts) = pts ! n # rev (take n pts)"
    using Suc.prems by (simp add: take_Suc_conv_app_nth)
  have "drop n (pts[n := q]) = q # drop (Suc n) pts" for q
    using Suc.prems by (metis Cons_nth_drop_Suc Suc_le_eq drop_update_cancel length_list_update lessI nth_list_update_eq)
  then show ?case
    using Suc unfolding t by (cases "shiftLeft a s (pts ! n)") (auto simp: rbind_assoc)
qed simp

text \<open>With fewer than 256 points the tuning ends; with more it never returns points.\<close>

lemma tunePoints_spec:
  assumes "length pts < 256" "n \<le> length pts"
  shows "tunePoints a s n pts = Some (rbind (rightSpec s (drop n pts)) (\<lambda>rs.
    rbind (leftSpec a s (rev (take n pts))) (\<lambda>ls. Inr (rev ls @ rs))))"
proof -
  have len: "length (take n pts) = n"
    using assms(2) by simp
  show ?thesis
    using rightLoop_spec [OF assms, of s] leftLoop_spec [of n "take n pts @ _" a s] len
    by (cases "rightSpec s (drop n pts)") (auto simp: tunePoints_def)
qed

lemma rightLoop_wraps: "\<lbrakk>rightLoop i s pts = Some r; 255 < length pts\<rbrakk> \<Longrightarrow> isl r"
proof (induction i s pts r rule: rightLoop.raw_induct [rotated, consumes 1])
  case (1 loop i s pts r)
  have "unat i < length pts"
    using 1(3) unsigned_less [of i, where ?'a = nat] by simp
  then show ?case
    using 1(1) [of "i + 1" "s div 2" "pts[unat i := _]" r] 1(2,3) by (auto split: sum.splits)
qed

subsection \<open>The arithmetic of the tuning\<close>

text \<open>
  Going up from the first point above the average, the points are moved down by the shift, half of
  it, a quarter of it, and so on; going down from the last point below, they are moved up likewise.
\<close>

fun rightKeys :: "nat \<Rightarrow> nat list \<Rightarrow> nat list" where
  "rightKeys s [] = []"
| "rightKeys s (k # ks) = (k - s) # rightKeys (s div 2) ks"

fun leftKeys :: "nat \<Rightarrow> nat list \<Rightarrow> nat list" where
  "leftKeys s [] = []"
| "leftKeys s (k # ks) = (k + s) # leftKeys (s div 2) ks"

definition tuned_keys :: "nat \<Rightarrow> nat \<Rightarrow> nat list \<Rightarrow> nat list" where
  "tuned_keys s n ks = rev (leftKeys s (rev (take n ks))) @ rightKeys s (drop n ks)"

lemma length_rightKeys [simp]: "length (rightKeys s ks) = length ks"
  by (induction s ks rule: rightKeys.induct) auto

lemma length_leftKeys [simp]: "length (leftKeys s ks) = length ks"
  by (induction s ks rule: leftKeys.induct) auto

lemma length_tuned_keys [simp]: "length (tuned_keys s n ks) = length ks"
  by (auto simp: tuned_keys_def)

lemma word_half: "s < 2 ^ 64 \<Longrightarrow> (word_of_nat s div 2 :: 64 word) = word_of_nat (s div 2)"
  by (simp add: word_unat_eq_iff unat_div_distrib unat_of_nat take_bit_nat_eq_self)

lemma rightSpec_user:
  assumes "\<forall>k\<in>set ks. ten_digits k \<and> s \<le> k" "\<forall>r\<in>set rs. r \<noteq> []" "length ks = length rs" "s < 10 ^ 10"
  shows "rightSpec (word_of_nat s) (map2 user_point ks rs) = Inr (map2 user_point (rightKeys s ks) (map butlast rs))"
  using assms
proof (induction s ks arbitrary: rs rule: rightKeys.induct)
  case (2 s k ks)
  then obtain r rs' where rs: "rs = r # rs'"
    by (cases rs) auto
  have "rightSpec (word_of_nat (s div 2)) (map2 user_point ks rs') =
      Inr (map2 user_point (rightKeys (s div 2) ks) (map butlast rs'))"
    using "2.prems" rs by (intro "2.IH") auto
  then show ?case
    using "2.prems" rs by (simp add: shiftRight_user word_half)
qed simp

lemma leftSpec_user:
  assumes "\<forall>k\<in>set ks. ten_digits k \<and> k \<noteq> a" "\<forall>r\<in>set rs. r \<noteq> []" "length ks = length rs" "s < 10 ^ 10" "a < 10 ^ 10"
  shows "leftSpec (word_of_nat a) (word_of_nat s) (map2 user_point ks rs) =
    Inr (map2 user_point (leftKeys s ks) (map butlast rs))"
  using assms
proof (induction s ks arbitrary: rs rule: leftKeys.induct)
  case (2 s k ks)
  then obtain r rs' where rs: "rs = r # rs'"
    by (cases rs) auto
  have "leftSpec (word_of_nat a) (word_of_nat (s div 2)) (map2 user_point ks rs') =
      Inr (map2 user_point (leftKeys (s div 2) ks) (map butlast rs'))"
    using "2.prems" rs by (intro "2.IH") auto
  then show ?case
    using "2.prems" rs by (simp add: shiftLeft_user word_half)
qed simp

lemma tunePoints_user:
  assumes ks: "\<forall>k\<in>set ks. ten_digits k \<and> s \<le> k \<and> k \<noteq> a" and rs: "\<forall>r\<in>set rs. r \<noteq> []" "length ks = length rs"
    and small: "length ks < 256" "n \<le> length ks" "s < 10 ^ 10" "a < 10 ^ 10"
  shows "tunePoints (word_of_nat a) (word_of_nat s) n (map2 user_point ks rs) =
    Some (Inr (map2 user_point (tuned_keys s n ks) (map butlast rs)))"
proof -
  have right: "rightSpec (word_of_nat s) (map2 user_point (drop n ks) (drop n rs)) =
      Inr (map2 user_point (rightKeys s (drop n ks)) (map butlast (drop n rs)))"
    using ks rs small by (intro rightSpec_user) (auto dest: in_set_dropD)
  have left: "leftSpec (word_of_nat a) (word_of_nat s) (map2 user_point (rev (take n ks)) (rev (take n rs))) =
      Inr (map2 user_point (leftKeys s (rev (take n ks))) (map butlast (rev (take n rs))))"
    using ks rs small by (intro leftSpec_user) (auto dest: in_set_takeD)
  have split: "map2 user_point (tuned_keys s n ks) (map butlast rs) =
      rev (map2 user_point (leftKeys s (rev (take n ks))) (map butlast (rev (take n rs))))
      @ map2 user_point (rightKeys s (drop n ks)) (map butlast (drop n rs))"
  proof -
    have "map butlast rs = rev (map butlast (rev (take n rs))) @ map butlast (drop n rs)"
      by (simp add: rev_map [symmetric] flip: map_append)
    moreover have "rev (zip L (map butlast (rev (take n rs)))) = zip (rev L) (map butlast (take n rs))"
      if "length L = n" for L :: "nat list"
      using that rs(2) small(2) by (subst zip_rev [symmetric]) (auto simp: rev_map)
    ultimately show ?thesis
      unfolding tuned_keys_def using rs(2) small(2)
      by (simp add: zip_append rev_map)
  qed
  show ?thesis
    using tunePoints_spec [of "map2 user_point ks rs" n "word_of_nat a" "word_of_nat s"] small(1,2) rs(2) right left split
    by (simp add: drop_map take_map drop_zip take_zip rev_map zip_rev)
qed

lemma rightKeys_mem: "x \<in> set (rightKeys s ks) \<Longrightarrow> \<exists>k\<in>set ks. k - s \<le> x \<and> x \<le> k"
proof (induction s ks rule: rightKeys.induct)
  case (2 s k ks)
  then consider "x = k - s" | "x \<in> set (rightKeys (s div 2) ks)"
    by auto
  then show ?case
  proof cases
    case 2
    then obtain k' where "k' \<in> set ks" "k' - s div 2 \<le> x" "x \<le> k'"
      using "2.IH" by blast
    moreover have "k' - s \<le> k' - s div 2"
      by (simp add: diff_le_mono2)
    ultimately show ?thesis
      by (meson le_trans list.set_intros(2))
  qed simp
qed simp

lemma leftKeys_mem: "x \<in> set (leftKeys s ks) \<Longrightarrow> \<exists>k\<in>set ks. k \<le> x \<and> x \<le> k + s"
proof (induction s ks rule: leftKeys.induct)
  case (2 s k ks)
  then consider "x = k + s" | "x \<in> set (leftKeys (s div 2) ks)"
    by auto
  then show ?case
  proof cases
    case 2
    then obtain k' where "k' \<in> set ks" "k' \<le> x" "x \<le> k' + s div 2"
      using "2.IH" by blast
    then show ?thesis
      by (intro bexI [of _ k']) auto
  qed simp
qed simp

lemma rightKeys_sorted:
  assumes "sorted_wrt (<) ks" "\<forall>k\<in>set ks. s \<le> k"
  shows "sorted_wrt (<) (rightKeys s ks)"
  using assms
proof (induction s ks rule: rightKeys.induct)
  case (2 s k ks)
  have "k - s < x" if x: "x \<in> set (rightKeys (s div 2) ks)" for x
  proof -
    obtain k' where "k' \<in> set ks" "k' - s div 2 \<le> x"
      using rightKeys_mem [OF x] by blast
    then show ?thesis
      using "2.prems" by auto
  qed
  moreover have "\<forall>k\<in>set ks. s div 2 \<le> k"
    using "2.prems"(2) by (auto intro: le_trans [OF div_le_dividend])
  ultimately show ?case
    using "2.IH" "2.prems"(1) by auto
qed simp

lemma leftKeys_sorted: "sorted_wrt (>) ks \<Longrightarrow> sorted_wrt (>) (leftKeys s ks)"
proof (induction s ks rule: leftKeys.induct)
  case (2 s k ks)
  have "x < k + s" if x: "x \<in> set (leftKeys (s div 2) ks)" for x
  proof -
    obtain k' where "k' \<in> set ks" "x \<le> k' + s div 2"
      using leftKeys_mem [OF x] by blast
    then show ?thesis
      using "2.prems" by auto
  qed
  then show ?case
    using "2.IH" "2.prems" by auto
qed simp

text \<open>The two groups stay apart when the gap around the average is more than twice the shift.\<close>

definition wide_gap :: "nat \<Rightarrow> nat \<Rightarrow> nat list \<Rightarrow> bool" where
  "wide_gap s n ks \<longleftrightarrow> (\<forall>k\<in>set (take n ks). \<forall>k'\<in>set (drop n ks). k + 2 * s < k')"

lemma tuned_keys_sorted:
  assumes "sorted_wrt (<) ks" "\<forall>k\<in>set ks. s \<le> k" "wide_gap s n ks"
  shows "sorted_wrt (<) (tuned_keys s n ks)"
proof -
  have "sorted_wrt (<) (take n ks @ drop n ks)"
    using assms(1) by simp
  then have parts: "sorted_wrt (<) (take n ks)" "sorted_wrt (<) (drop n ks)"
    unfolding sorted_wrt_append by blast+
  have "sorted_wrt (>) (rev (take n ks))"
    using parts(1) by (simp add: sorted_wrt_rev)
  then have "sorted_wrt (<) (rev (leftKeys s (rev (take n ks))))"
    using leftKeys_sorted [of "rev (take n ks)" s] by (simp add: sorted_wrt_rev)
  moreover have "sorted_wrt (<) (rightKeys s (drop n ks))"
    using rightKeys_sorted [OF parts(2)] assms(2) by (auto dest: in_set_dropD)
  moreover have "x < y" if xy: "x \<in> set (leftKeys s (rev (take n ks)))" "y \<in> set (rightKeys s (drop n ks))" for x y
  proof -
    obtain k k' where "k \<in> set (take n ks)" "x \<le> k + s" "k' \<in> set (drop n ks)" "k' - s \<le> y"
      using leftKeys_mem [OF xy(1)] rightKeys_mem [OF xy(2)] by auto
    moreover have "k + 2 * s < k'"
      using calculation assms(3) by (auto simp: wide_gap_def)
    ultimately show ?thesis
      by linarith
  qed
  ultimately show ?thesis
    by (auto simp: tuned_keys_def sorted_wrt_append)
qed

lemma countBelow_user:
  assumes "\<forall>k\<in>set ks. ten_digits k" "\<forall>r\<in>set rs. r \<noteq> []" "length ks = length rs" "a < 10 ^ 10"
  shows "countBelow (word_of_nat a) (map2 user_point ks rs) = Inr (length (filter (\<lambda>k. k \<le> a) ks))"
  using assms
proof (induction ks arbitrary: rs)
  case (Cons k ks)
  then obtain r rs' where rs: "rs = r # rs'"
    by (cases rs) auto
  have "(word_of_nat k :: 64 word) \<le> word_of_nat a \<longleftrightarrow> k \<le> a"
    using Cons.prems by (simp add: word_le_nat_alt unat_of_nat take_bit_nat_eq_self ten_digits_def)
  then show ?case
    using Cons.IH [of rs'] Cons.prems rs by (simp add: splitKeyDigits_user)
qed simp

lemma user_points_sorted:
  assumes "sorted_wrt (<) ks" "\<forall>k\<in>set ks. ten_digits k" "length ks = length rs"
  shows "sorted_wrt (\<lambda>p q. keyOf p < keyOf q) (map2 user_point ks rs)"
  using assms(3,1,2)
proof (induction ks rs rule: list_induct2)
  case (Cons k ks r rs)
  then show ?case
    by (auto simp: user_point_less dest!: set_zip_leftD)
qed simp

subsection \<open>The shift\<close>

lemma u64_to_double_nat: "k < 2 ^ 53 \<Longrightarrow> u64_to_double (word_of_nat k) = rat_of_nat k"
  by (simp add: u64_to_double_def unat_of_nat take_bit_nat_eq_self dround_nat)

lemma double_to_u64_floor:
  assumes "rat_of_nat a \<le> q" "q < rat_of_nat a + 1" "a < 2 ^ 53"
  shows "double_to_u64 q = Inr (word_of_nat a)"
proof -
  have "0 \<le> q"
    using assms(1) of_nat_0_le_iff order_trans by blast
  moreover have "rat_of_nat a + 1 \<le> rat_of_nat (2 ^ 53)"
    using assms(3) unfolding of_nat_Suc [symmetric] of_nat_le_iff by simp
  then have "q < 2 ^ 64"
    using assms(2) by simp
  moreover have "\<lfloor>q\<rfloor> = int a"
    using assms(1,2) by (simp add: floor_eq_iff)
  ultimately show ?thesis
    by (simp add: double_to_u64_def rat_trunc_def)
qed

lemma tenth_rounded:
  assumes "r < 10 ^ 10"
  shows "rat_of_nat (r div 10) \<le> dround (rat_of_nat r * d0_1)" "dround (rat_of_nat r * d0_1) < rat_of_nat (r div 10) + 1"
proof -
  define a b where "a = r div 10" and "b = r mod 10"
  have r: "r = 10 * a + b" "b < 10"
    by (simp_all add: a_def b_def)
  define q where "q = rat_of_nat r * d0_1"
  have rr: "rat_of_nat r = 10 * rat_of_nat a + rat_of_nat b"
    using r(1) by simp
  have b9: "rat_of_nat b \<le> 9"
    using r(2) of_nat_le_iff [of b 9, where ?'a = rat] by simp
  have small: "rat_of_nat r < 10 ^ 10"
    using assms of_nat_less_iff [of r "10 ^ 10", where ?'a = rat] by simp
  have q: "rat_of_nat a \<le> q" "q \<le> rat_of_nat r * (1 / 10 + 1 / 10 ^ 16)" "0 \<le> q"
  proof -
    have "rat_of_nat a \<le> rat_of_nat r * (1 / 10)"
      using rr by simp
    also have "\<dots> \<le> q"
      unfolding q_def by (rule mult_left_mono) (simp_all add: d0_1_def)
    finally show "rat_of_nat a \<le> q" .
    then show "0 \<le> q"
      by (rule order_trans [rotated]) simp
    show "q \<le> rat_of_nat r * (1 / 10 + 1 / 10 ^ 16)"
      unfolding q_def by (rule mult_left_mono) (simp_all add: d0_1_def)
  qed
  have "dround q \<le> q + q / 2 ^ 53"
    using dround_error [of q] q(3) by linarith
  moreover have "q < 2 ^ 53"
    using q(2) small by (simp add: field_simps)
  ultimately have "dround q < rat_of_nat a + 1"
    using q(2) small b9 rr by (simp add: field_simps)
  then show "dround (rat_of_nat r * d0_1) < rat_of_nat (r div 10) + 1"
    by (simp add: q_def a_def)
  show "rat_of_nat (r div 10) \<le> dround (rat_of_nat r * d0_1)"
  proof (cases "q = 0")
    case True
    then show ?thesis
      using q(1) by (simp add: q_def [symmetric] a_def [symmetric] dround_def)
  next
    case False
    have "q \<le> rat_of_nat (a + 1)"
      using q(2) small b9 rr by (simp add: field_simps)
    moreover have "0 < q"
      using False q(3) by simp
    ultimately show ?thesis
      using dround_between(1) [of q a "a + 1"] q(1) \<open>q < 2 ^ 53\<close> by (simp only: q_def a_def)
  qed
qed

lemma chunkShift_tenth:
  assumes "mn \<le> mx" "mx < 10 ^ 10"
  shows "chunkShift (word_of_nat mx) (word_of_nat mn) = Inr (word_of_nat ((mx - mn) div 10))"
proof -
  define r where "r = mx - mn"
  have r: "r < 10 ^ 10"
    using assms by (simp add: r_def)
  have "u64_to_double (word_of_nat mx) - u64_to_double (word_of_nat mn) = rat_of_nat r"
    using assms by (simp add: u64_to_double_nat of_nat_diff r_def)
  moreover have "double_to_u64 (dround (rat_of_nat r)) = Inr (word_of_nat r)"
    using r by (subst dround_nat) (auto intro!: double_to_u64_floor)
  moreover have "u64_to_double (word_of_nat r) = rat_of_nat r"
    using r by (intro u64_to_double_nat) auto
  moreover have "double_to_u64 (dround (rat_of_nat r * d0_1)) = Inr (word_of_nat (r div 10))"
    using tenth_rounded [OF r] r by (intro double_to_u64_floor) auto
  ultimately show ?thesis
    by (simp add: chunkShift_def r_def)
qed

subsection \<open>From the chunk to the tuned points\<close>

lemma boundPrefix_user:
  assumes "ten_digits k" "length r < 100"
  shows "boundPrefix u (user_point k r) = Inr (word_of_nat k)"
proof -
  let ?s = "''user'' @ ItoA k @ r"
  have "length ?s + 1 \<le> 160"
    using assms by simp
  then have "objToString False False False 0 (user_point k r) = Inr (''{ _id: '' @ [CHR 0x22] @ ?s @ [CHR 0x22] @ '' }'')"
    by (simp add: user_point_def elementToString.simps maxToStringRecursionDepth_def)
  moreover have "removeAt ''{'' 12 (''{ _id: '' @ [CHR 0x22] @ ?s @ [CHR 0x22] @ '' }'') = Inr (ItoA k @ r @ [CHR 0x22] @ '' }'')"
    by (simp add: removeAt_def str_find.simps [of "''{''"])
  moreover have "eraseLast (ItoA k @ r @ [CHR 0x22] @ '' }'') = Inr (ItoA k @ r @ [CHR 0x22] @ '' '')"
    by (simp add: eraseLast_def butlast_append)
  ultimately show ?thesis
    using extract_u64_ItoA [of k u] assms by (simp add: boundPrefix_def ten_digits_def [of k])
qed

definition split_keys_response :: "bson_obj list \<Rightarrow> bson_obj" where
  "split_keys_response pts = [(''splitKeys'', Array (map (\<lambda>p. (''0'', Object p)) pts))]"

lemma objectElements_map: "objectElements (map (\<lambda>p. (n, Object p)) pts) = Inr pts"
  by (induction pts) auto

lemma selectChunkSplitPoints_response:
  "env_splitVector env sz = Inr (split_keys_response pts) \<Longrightarrow> selectChunkSplitPoints env sz = Inr pts"
  by (simp add: selectChunkSplitPoints_def split_keys_response_def objectElements_map)

lemma choosePoints_user:
  assumes bounds: "getMin c = user_point kmin rmin" "getMax c = user_point kmax rmax" "ten_digits kmin" "ten_digits kmax"
      "length rmin < 100" "length rmax < 100" "kmin \<le> kmax"
    and size: "chunkSizeToUse (dataWrittenBytes c) d m = Inr sz" and avg: "averagePrefix c = Inr (word_of_nat a)" "a < 10 ^ 10"
    and points: "env_splitVector env sz = Inr (split_keys_response (map2 user_point ks rs))" "2 \<le> length ks" "length ks < 256"
      "length ks = length rs" "\<forall>r\<in>set rs. r \<noteq> []"
    and ks: "\<forall>k\<in>set ks. ten_digits k \<and> (kmax - kmin) div 10 \<le> k \<and> k \<noteq> a"
  shows "choosePoints env p c False False d m = Some (Inr (Some
    (map2 user_point (tuned_keys ((kmax - kmin) div 10) (length (filter (\<lambda>k. k \<le> a) ks)) ks) (map butlast rs))))"
proof -
  let ?s = "(kmax - kmin) div 10" and ?n = "length (filter (\<lambda>k. k \<le> a) ks)"
  have prefixes: "chunkPrefixes env p c False False = Inr (word_of_nat kmax, word_of_nat kmin)"
    using boundPrefix_user bounds by (simp add: chunkPrefixes_def)
  have shift: "chunkShift (word_of_nat kmax) (word_of_nat kmin) = Inr (word_of_nat ?s)"
    using bounds by (intro chunkShift_tenth) (auto simp: ten_digits_def)
  have "tunePoints (word_of_nat a) (word_of_nat ?s) ?n (map2 user_point ks rs) =
      Some (Inr (map2 user_point (tuned_keys ?s ?n ks) (map butlast rs)))"
    using ks points avg bounds(4) length_filter_le [of "\<lambda>k. k \<le> a" ks]
    by (intro tunePoints_user) (auto simp: ten_digits_def [of kmax])
  then show ?thesis
    using size avg selectChunkSplitPoints_response [OF points(1)] points prefixes shift
      countBelow_user [of ks rs a] ks by (simp add: choosePoints_def replaceExtreme_def)
qed

subsection \<open>The average\<close>

definition record_write :: "64 word \<Rightarrow> nat \<times> string \<Rightarrow> chunk \<Rightarrow> chunk" where
  "record_write u w c = add_split_sum u (ItoA (fst w) @ snd w) (add_cnt c)"

lemma record_writes:
  assumes "\<forall>w\<in>set ws. ten_digits (fst w)"
  shows "split_sum (fold (record_write u) ws c) = split_sum c + word_of_nat (sum_list (map fst ws))
    \<and> cnt (fold (record_write u) ws c) = cnt c + word_of_nat (length ws)"
  using assms
proof (induction ws arbitrary: c)
  case (Cons w ws)
  have "extract_u64 u (take 10 (ItoA (fst w) @ snd w)) = word_of_nat (fst w)"
    using extract_u64_ItoA [of "fst w" u] Cons.prems(1) by (simp add: ten_digits_def [of "fst w"])
  then show ?case
    using Cons by (simp add: record_write_def add_split_sum_def add_cnt_def algebra_simps)
qed simp

lemma average_of_writes:
  assumes "\<forall>w\<in>set ws. ten_digits (fst w)" "ws \<noteq> []" "length ws < 2 ^ 31" "sum_list (map fst ws) < 2 ^ 64"
    "split_sum c = 0" "cnt c = 0"
  shows "averagePrefix (fold (record_write u) ws c) = Inr (word_of_nat (sum_list (map fst ws) div length ws))"
proof -
  let ?c = "fold (record_write u) ws c"
  have c: "split_sum ?c = word_of_nat (sum_list (map fst ws))" "cnt ?c = word_of_nat (length ws)"
    using record_writes [OF assms(1), of u c] assms(5,6) by simp_all
  have "length ws < 2 ^ 32" "length ws < 2 ^ 64"
    using assms(3) by simp_all
  moreover have "sint (word_of_nat (length ws) :: 32 word) = int (length ws)"
    using assms(3) by (simp add: signed_of_nat signed_take_bit_int_eq_self)
  then have "(scast (word_of_nat (length ws) :: 32 word) :: 64 word) = word_of_nat (length ws)"
    by (metis of_int_of_nat_eq of_int_sint)
  moreover have "(word_of_nat (length ws) :: 32 word) \<noteq> 0"
    using assms(2) calculation(1) by (simp add: word_of_nat_eq_0_iff nat_dvd_not_less)
  ultimately show ?thesis
    using assms(4) by (simp add: averagePrefix_def c word_unat_eq_iff unat_div_distrib unat_of_nat take_bit_nat_eq_self
        le_less_trans [OF div_le_dividend])
qed

subsection \<open>Properties\<close>

definition sample_bounds :: "nat \<Rightarrow> nat \<Rightarrow> chunk" where
  "sample_bounds kmin kmax = \<lparr>crange = \<lparr>minKey = user_point kmin ''0'', maxKey = user_point kmax ''0''\<rparr>, shardId = ''s0'',
     lastmod = ChunkVersion 1 0 7, jumbo = False, dataWrittenBytes = 100, split_sum = 10000000000, split_average = 0, cnt = 2\<rparr>"

definition sample_env :: "bson_obj list \<Rightarrow> auto_split_env" where
  "sample_env pts = \<lparr>env_maxChunkSizeBytes = 100, env_shouldAutoSplit = True, env_ticket = True, env_refresh = Inr (100, True),
     env_splitVector = (\<lambda>_. Inr (split_keys_response pts)), env_shard = Inr (), env_cursor = None, env_findOne = [],
     env_hash64 = (\<lambda>_. 0), env_splitChunk = (\<lambda>_. Inr []), env_balanceForAutoSplit = False, env_getCollection = Inr False,
     env_reload = Inl (Error NamespaceNotFound), env_rebalanceChunk = Inr (), env_uninit = 0\<rparr>"

definition sample_pattern :: shard_key_pattern where
  "sample_pattern = \<lparr>keyPattern = [(''_id'', NumberInt 1)], keyPatternPaths = [[''_id'']], hasId = True\<rparr>"

lemma sample_average [simp]: "averagePrefix (sample_bounds kmin kmax) = Inr (word_of_nat 5000000000)"
  by (simp add: averagePrefix_def sample_bounds_def)

lemma sample_size [simp]: "chunkSizeToUse (dataWrittenBytes (sample_bounds kmin kmax)) 100 100 = Inr 100"
  by (simp add: chunkSizeToUse_def sample_bounds_def kTooManySplitPoints_def)

text \<open>
  C17: for a chunk between two user keys, with fewer than 256 split points whose ten-digit prefixes
  increase, none of them the average, the hotness-aware split moves the points above the average
  down by a tenth of the prefix range, half of that, a quarter and so on, and the points below it
  up likewise. When the gap around the average is more than twice the shift and the prefixes keep
  ten digits, the moved points are still strictly increasing under the order of shard keys.
\<close>

theorem tuned_points_ordered:
  assumes "getMin c = user_point kmin rmin" "getMax c = user_point kmax rmax" "ten_digits kmin" "ten_digits kmax"
      "length rmin < 100" "length rmax < 100" "kmin \<le> kmax"
      "chunkSizeToUse (dataWrittenBytes c) d m = Inr sz" "averagePrefix c = Inr (word_of_nat a)" "a < 10 ^ 10"
      "env_splitVector env sz = Inr (split_keys_response (map2 user_point ks rs))" "2 \<le> length ks" "length ks < 256"
      "length ks = length rs" "\<forall>r\<in>set rs. r \<noteq> []"
      "\<forall>k\<in>set ks. ten_digits k \<and> (kmax - kmin) div 10 \<le> k \<and> k \<noteq> a"
    and "sorted_wrt (<) ks" "s = (kmax - kmin) div 10" "n = length (filter (\<lambda>k. k \<le> a) ks)" "wide_gap s n ks"
      "\<forall>k\<in>set (tuned_keys s n ks). ten_digits k"
  shows "\<exists>pts. choosePoints env p c False False d m = Some (Inr (Some pts))
    \<and> pts = map2 user_point (tuned_keys s n ks) (map butlast rs)
    \<and> sorted_wrt (\<lambda>x y. keyOf x < keyOf y) pts"
proof -
  have "\<forall>k\<in>set ks. s \<le> k"
    using assms(16,18) by simp
  then have "sorted_wrt (<) (tuned_keys s n ks)"
    by (rule tuned_keys_sorted [OF assms(17) _ assms(20)])
  then show ?thesis
    using choosePoints_user [OF assms(1-16)] user_points_sorted [OF _ assms(21)] assms(14,18,19) by simp
qed

lemma sample_tuned: "tuned_keys 800000000 1 [2000000000, 8000000000] = [2800000000, 7200000000]"
  by (simp add: tuned_keys_def)

lemma sample_bounds_range [simp]:
  "getMin (sample_bounds kmin kmax) = user_point kmin ''0''" "getMax (sample_bounds kmin kmax) = user_point kmax ''0''"
  by (simp_all add: sample_bounds_def)

theorem tuned_points_ordered_witness:
  "choosePoints (sample_env (map2 user_point [2000000000, 8000000000] [''00'', ''00''])) sample_pattern
     (sample_bounds 1000000000 9000000000) False False 100 100 =
   Some (Inr (Some [user_point 2800000000 ''0'', user_point 7200000000 ''0'']))"
proof -
  have "\<exists>pts. choosePoints (sample_env (map2 user_point [2000000000, 8000000000] [''00'', ''00''])) sample_pattern
      (sample_bounds 1000000000 9000000000) False False 100 100 = Some (Inr (Some pts))
    \<and> pts = map2 user_point (tuned_keys 800000000 1 [2000000000, 8000000000]) (map butlast [''00'', ''00''])
    \<and> sorted_wrt (\<lambda>x y. keyOf x < keyOf y) pts"
  proof (rule tuned_points_ordered [OF sample_bounds_range _ _ _ _ _ sample_size sample_average])
    show "env_splitVector (sample_env (map2 user_point [2000000000, 8000000000] [''00'', ''00''])) 100 =
        Inr (split_keys_response (map2 user_point [2000000000, 8000000000] [''00'', ''00'']))"
      by (simp add: sample_env_def)
    show "\<forall>k\<in>set (tuned_keys 800000000 1 [2000000000, 8000000000]). ten_digits k"
      unfolding sample_tuned by (simp add: ten_digits_def)
  qed (simp_all add: ten_digits_def wide_gap_def)
  then show ?thesis
    unfolding sample_tuned by simp
qed

text \<open>
  C19: with at most 255 split points the tuning ends, whatever the points, the average and the
  shift are.
\<close>

theorem tuning_terminates:
  assumes "length pts \<le> 255" "countBelow average pts = Inr n"
  shows "\<exists>r. tunePoints average shift n pts = Some r"
proof -
  have "countBelow average pts = Inr n \<Longrightarrow> n \<le> length pts" for n
    by (induction pts arbitrary: n) (force simp: rbind_Inr_iff split: if_splits)+
  then show ?thesis
    using tunePoints_spec [of pts n average shift] assms by auto
qed

theorem tuning_terminates_witness:
  "\<exists>r. tunePoints 5000000000 100 1 [user_point 4000000000 ''0'', user_point 6000000000 ''0''] = Some r"
proof (rule tuning_terminates)
  show "countBelow 5000000000 [user_point 4000000000 ''0'', user_point 6000000000 ''0''] = Inr 1"
    using countBelow_user [of "[4000000000, 6000000000]" "[''0'', ''0'']" 5000000000] by (simp add: ten_digits_def)
qed simp

text \<open>
  C35: with more than 255 split points, which the splitVector command can return, the 8-bit index of
  the loop over the points above the average never reaches their number, and the tuning never
  returns split points.
\<close>

theorem tuning_of_many_points:
  assumes "255 < length pts"
  shows "tunePoints average shift n pts \<noteq> Some (Inr pts')"
proof
  assume "tunePoints average shift n pts = Some (Inr pts')"
  then obtain qs where "rightLoop (word_of_nat n) shift pts = Some (Inr qs)"
    by (auto simp: tunePoints_def split: option.splits sum.splits)
  then show False
    using rightLoop_wraps [OF _ assms] by fastforce
qed

theorem tuning_of_many_points_witness:
  "tunePoints 5000000000 100 0 (replicate 256 (user_point 6000000000 ''0'')) \<noteq> Some (Inr [])"
  by (rule tuning_of_many_points) simp



subsection \<open>Failures of the auto-split\<close>

definition contained :: "chunk \<Rightarrow> auto_split_out \<times> unit result \<Rightarrow> bool" where
  "contained c x \<longleftrightarrow> (\<nexists>code. snd x = Inl (Error code)) \<and> out_chunk (fst x) \<in> {c, clearBytesWritten c}"

lemma clearBytesWritten_twice [simp]: "clearBytesWritten (clearBytesWritten c) = clearBytesWritten c"
  by (simp add: clearBytesWritten_def)

lemma contained_splitFailed: "out_chunk out \<in> {c, clearBytesWritten c} \<Longrightarrow> contained c (splitFailed out f)"
  by (cases f) (auto simp: splitFailed_def contained_def)

lemma contained_splitAtPoints: "contained c (splitAtPoints env manager c minIsInf maxIsInf pts)"
  by (auto simp: splitAtPoints_def Let_def contained_def [of _ "(_, Inr ())"] splitOut_def
      intro!: contained_splitFailed split: sum.split)

lemma contained_done: "out_chunk out \<in> {c, clearBytesWritten c} \<Longrightarrow> contained c (out, Inr ())"
  by (auto simp: contained_def)

lemma contained_tryAutoSplit:
  assumes "tryAutoSplit env manager p c minIsInf maxIsInf = Some x"
  shows "contained c x"
proof (cases "env_refresh env")
  case (Inl f)
  then show ?thesis
    using assms by (auto simp: tryAutoSplit_def splitOut_def intro!: contained_splitFailed)
next
  case (Inr mb)
  obtain m b where mb: "mb = (m, b)"
    by (cases mb)
  show ?thesis
  proof (cases b)
    case True
    then obtain r where "choosePoints env p c minIsInf maxIsInf (env_maxChunkSizeBytes env) m = Some r"
      and x: "x = (case r of Inl f \<Rightarrow> splitFailed (splitOut c None None) f
        | Inr None \<Rightarrow> (splitOut (clearBytesWritten c) None None, Inr ())
        | Inr (Some splitPoints) \<Rightarrow> splitAtPoints env manager c minIsInf maxIsInf splitPoints)"
      using assms Inr mb by (auto simp: tryAutoSplit_def)
    show ?thesis
      unfolding x by (auto simp: splitOut_def split: sum.split option.split
          intro!: contained_splitFailed contained_splitAtPoints contained_done)
  qed (use assms Inr mb in \<open>auto simp: tryAutoSplit_def splitOut_def intro!: contained_done\<close>)
qed

text \<open>
  C18: the auto-split keeps every error status to itself: no \<open>DBException\<close> reaches the write that
  triggered it. It changes nothing of the chunk but its count of bytes written, which afterwards is
  zero or the old count plus the bytes of the write.
\<close>

theorem autosplit_contains_errors:
  assumes "updateChunkWriteStatsAndSplitIfNeeded env manager p c dataWritten = Some (out, r)"
  shows "(\<nexists>code. r = Inl (Error code)) \<and>
    out_chunk out \<in> {clearBytesWritten c, addBytesWritten dataWritten c}"
proof -
  let ?c = "addBytesWritten dataWritten c"
  have clear: "clearBytesWritten ?c = clearBytesWritten c"
    by (simp add: clearBytesWritten_def addBytesWritten_def)
  have "contained ?c (out, r)"
    using assms unfolding updateChunkWriteStatsAndSplitIfNeeded_def Let_def globalMin_def globalMax_def
    by (auto simp: contained_def [of _ "(_, Inr ())"] splitOut_def split: if_splits dest: contained_tryAutoSplit)
  then show ?thesis
    by (auto simp: contained_def clear)
qed

lemma sample_minmax:
  "woCompare (map (extendElement b) (keyPattern sample_pattern)) (user_point k r) \<noteq> 0"
  by (cases b) (simp_all add: sample_pattern_def user_point_def extendElement_def isNumber_def numberInt_def woCompareElement_def)

lemma sample_due:
  "updateChunkWriteStatsAndSplitIfNeeded ((sample_env pts)\<lparr>env_refresh := x\<rparr>) manager sample_pattern (sample_bounds kmin kmax) 0 =
     tryAutoSplit ((sample_env pts)\<lparr>env_refresh := x\<rparr>) manager sample_pattern (sample_bounds kmin kmax) False False"
  using sample_minmax [of False kmin "''0''"] sample_minmax [of True kmax "''0''"]
  by (simp add: updateChunkWriteStatsAndSplitIfNeeded_def globalMin_def globalMax_def sample_env_def sample_bounds_def
      addBytesWritten_def shouldSplit_def splitThreshold_def kSplitTestFactor_def)

definition sample_cm :: chunk_manager where
  "sample_cm = \<lparr>sequenceNumber = 0, cm_nss = ''d.c'', cm_keyPattern = [(''_id'', NumberInt 1)], cm_hasCollator = False, cm_unique = False,
     chunkMap = [], chunkMapViews = \<lparr>chunkRangeMap = [], shardVersions = []\<rparr>, collectionVersion = ChunkVersion 1 0 7\<rparr>"

theorem autosplit_contains_errors_witness:
  "\<exists>out r. updateChunkWriteStatsAndSplitIfNeeded ((sample_env [])\<lparr>env_refresh := Inl (Error BadValue)\<rparr>) sample_cm sample_pattern
     (sample_bounds 1000000000 9000000000) 0 = Some (out, r) \<and> (\<nexists>code. r = Inl (Error code))"
proof -
  let ?e = "(sample_env [])\<lparr>env_refresh := Inl (Error BadValue)\<rparr>" and ?c = "sample_bounds 1000000000 9000000000"
  have run: "updateChunkWriteStatsAndSplitIfNeeded ?e sample_cm sample_pattern ?c 0 =
      Some (splitOut (clearBytesWritten ?c) None None, Inr ())"
    unfolding sample_due by (simp add: tryAutoSplit_def splitFailed_def splitOut_def isStaleShardingError_def)
  show ?thesis
    using autosplit_contains_errors [OF run] run by blast
qed

text \<open>
  C34: the auto-split of a collection whose split points carry no string \<open>_id\<close> never splits: when a
  split is due and the shard returns at least two points, the first without a string \<open>_id\<close>, the
  router drops the split, resets the count of bytes written and reports nothing.
\<close>

theorem autosplit_without_string_ids:
  assumes "env_refresh env = Inr (m, True)" "env_maxChunkSizeBytes env \<noteq> 0" "cnt c \<noteq> 0"
    "\<And>n. env_splitVector env n = Inr (split_keys_response (pt # pt' # pts))" "\<nexists>s. getField pt ''_id'' = Some (String s)"
  shows "tryAutoSplit env manager p c minIsInf maxIsInf = Some (splitOut (clearBytesWritten c) None None, Inr ())"
proof -
  have bad: "splitKeyDigits pt = Inl (Error (ErrorNo 13111))"
    using assms(5) by (auto simp: splitKeyDigits_def split: option.splits bson_value.splits)
  obtain sz where sz: "chunkSizeToUse (dataWrittenBytes c) (env_maxChunkSizeBytes env) m = Inr sz"
    using assms(2) by (simp add: chunkSizeToUse_def)
  have "selectChunkSplitPoints env sz = Inr (pt # pt' # pts)"
    using selectChunkSplitPoints_response assms(4) by blast
  then have "choosePoints env p c minIsInf maxIsInf (env_maxChunkSizeBytes env) m = Some (Inl (Error (ErrorNo 13111)))"
    using sz assms(3) bad by (simp add: choosePoints_def averagePrefix_def)
  then show ?thesis
    using assms(1) by (auto simp: tryAutoSplit_def splitFailed_def splitOut_def isStaleShardingError_def)
qed

theorem autosplit_without_string_ids_witness:
  "tryAutoSplit (sample_env [[(''_id'', NumberInt 3)], [(''_id'', NumberInt 5)]]) sample_cm sample_pattern
     (sample_bounds 1000000000 9000000000) False False =
   Some (splitOut (clearBytesWritten (sample_bounds 1000000000 9000000000)) None None, Inr ())"
  by (rule autosplit_without_string_ids [of _ 100 _ "[(''_id'', NumberInt 3)]" "[(''_id'', NumberInt 5)]" "[]"])
    (simp_all add: sample_env_def sample_bounds_def)



text \<open>
  C36: when the gap around the average is less than twice the shift, the two points next to the
  average cross, and the points sent to the shard are not in increasing order.
\<close>

theorem tuned_points_cross:
  assumes "getMin c = user_point kmin rmin" "getMax c = user_point kmax rmax" "ten_digits kmin" "ten_digits kmax"
      "length rmin < 100" "length rmax < 100" "kmin \<le> kmax"
      "chunkSizeToUse (dataWrittenBytes c) d m = Inr sz" "averagePrefix c = Inr (word_of_nat a)" "a < 10 ^ 10"
      "env_splitVector env sz = Inr (split_keys_response (map2 user_point ks rs))" "2 \<le> length ks" "length ks < 256"
      "length ks = length rs" "\<forall>r\<in>set rs. r \<noteq> []"
      "\<forall>k\<in>set ks. ten_digits k \<and> (kmax - kmin) div 10 \<le> k \<and> k \<noteq> a"
    and "s = (kmax - kmin) div 10" "Suc n = length (filter (\<lambda>k. k \<le> a) ks)" "Suc n < length ks"
      "ks ! Suc n < ks ! n + 2 * s" "ten_digits (ks ! n + s)" "ten_digits (ks ! Suc n - s)"
  shows "\<exists>pts. choosePoints env p c False False d m = Some (Inr (Some pts)) \<and> keyOf (pts ! Suc n) < keyOf (pts ! n)"
proof -
  have n: "take (Suc n) ks = take n ks @ [ks ! n]" "drop (Suc n) ks = ks ! Suc n # drop (Suc (Suc n)) ks"
    using assms(19) by (simp_all add: take_Suc_conv_app_nth Cons_nth_drop_Suc)
  then have "tuned_keys s (Suc n) ks = rev (leftKeys (s div 2) (rev (take n ks))) @ (ks ! n + s) # (ks ! Suc n - s)
      # rightKeys (s div 2) (drop (Suc (Suc n)) ks)"
    by (simp add: tuned_keys_def)
  moreover have "length (rev (leftKeys (s div 2) (rev (take n ks)))) = n"
    using assms(19) by simp
  ultimately have t: "tuned_keys s (Suc n) ks ! n = ks ! n + s" "tuned_keys s (Suc n) ks ! Suc n = ks ! Suc n - s"
    by (simp_all add: nth_append)
  have less: "ks ! Suc n - s < ks ! n + s"
    using assms(20) by linarith
  have "map2 user_point (tuned_keys s (Suc n) ks) (map butlast rs) ! i = user_point (tuned_keys s (Suc n) ks ! i) (butlast (rs ! i))"
    if "i < length ks" for i
    using that assms(14) by simp
  then show ?thesis
    using choosePoints_user [OF assms(1-16), of p] user_point_less [OF assms(22,21) less] assms(17,18,19) t by simp
qed

theorem tuned_points_cross_witness:
  "\<exists>pts. choosePoints (sample_env (map2 user_point [4999999999, 5000000001] [''00'', ''00''])) sample_pattern
      (sample_bounds 1000000000 9000000000) False False 100 100 = Some (Inr (Some pts)) \<and> keyOf (pts ! Suc 0) < keyOf (pts ! 0)"
proof (rule tuned_points_cross [OF sample_bounds_range _ _ _ _ _ sample_size sample_average])
  show "env_splitVector (sample_env (map2 user_point [4999999999, 5000000001] [''00'', ''00''])) 100 =
      Inr (split_keys_response (map2 user_point [4999999999, 5000000001] [''00'', ''00'']))"
    by (simp add: sample_env_def)
  show "(800000000 :: nat) = (9000000000 - 1000000000) div 10"
    by simp
qed (simp_all add: ten_digits_def)

end
