(* ===== verification/Collection_Type.thy ===== *)
theory Collection_Type
  imports Chunk_Type
begin

text \<open>
  The entries of \<open>config.collections\<close> and \<open>config.databases\<close>
  (\<open>s/catalog/type_collection.cpp\<close>, \<open>type_database.cpp\<close>) with the namespaces
  (\<open>db/namespace_string-inl.h\<close>) and the UUIDs (\<open>util/uuid.cpp\<close>) they hold: parsing, validation,
  serialisation. A parse that throws is a parse that fails: no caller handles them differently.
\<close>

subsection \<open>Namespaces\<close>

definition nss_db :: "string \<Rightarrow> string" where
  "nss_db ns = (if CHR ''.'' \<in> set ns then takeWhile (\<lambda>c. c \<noteq> CHR ''.'') ns else [])"

definition nss_coll :: "string \<Rightarrow> string" where
  "nss_coll ns = tl (dropWhile (\<lambda>c. c \<noteq> CHR ''.'') ns)"

definition NamespaceString :: "string \<Rightarrow> string result" where
  "NamespaceString nsIn = rbind (uassert InvalidNamespace (CHR 0x00 \<notin> set nsIn)) (\<lambda>_. Inr nsIn)"

definition validDBName :: "string \<Rightarrow> bool \<Rightarrow> bool" where
  "validDBName db allowDollar =
     (0 < length db \<and> length db < 64 \<and>
      list_all (\<lambda>c. c \<notin> {CHR 0x00, CHR ''/'', CHR 0x5C, CHR ''.'', CHR '' '', CHR 0x22} \<and>
        (c = CHR ''$'' \<longrightarrow> allowDollar)) db)"

definition nss_isValid :: "string \<Rightarrow> bool" where
  "nss_isValid ns = (validDBName (nss_db ns) True \<and> nss_coll ns \<noteq> [])"

subsection \<open>UUIDs\<close>

text \<open>A UUID is its sixteen bytes; \<open>newUUID\<close> is the subtype 4 of binary data.\<close>

definition newUUID :: char where
  "newUUID = CHR 0x04"

definition UUID_parse :: "bson_value \<Rightarrow> string result" where
  "UUID_parse e =
     (case e of
        BinData t bytes \<Rightarrow> if t = newUUID \<and> length bytes = 16 then Inr bytes else Inl (Error InvalidUUID)
      | _ \<Rightarrow> Inl (Error InvalidUUID))"

definition UUID_append :: "string \<Rightarrow> string \<Rightarrow> bson_obj" where
  "UUID_append name bytes = [(name, BinData newUUID bytes)]"

subsection \<open>Collections\<close>

record collection_type =
  coll_fullNs :: "string option"
  coll_epoch :: "oid option"
  coll_updatedAt :: "64 word option"
  coll_dropped :: "bool option"
  coll_keyPattern :: "bson_obj option"
  coll_defaultCollation :: bson_obj
  coll_unique :: "bool option"
  coll_uuid :: "string option"
  coll_allowBalance :: "bool option"

definition getDropped :: "collection_type \<Rightarrow> bool" where
  "getDropped c = (case coll_dropped c of Some b \<Rightarrow> b | None \<Rightarrow> False)"

definition getUnique :: "collection_type \<Rightarrow> bool" where
  "getUnique c = (case coll_unique c of Some b \<Rightarrow> b | None \<Rightarrow> False)"

definition getAllowBalance :: "collection_type \<Rightarrow> bool" where
  "getAllowBalance c = (case coll_allowBalance c of Some b \<Rightarrow> b | None \<Rightarrow> True)"

text \<open>A field that may be missing: the code tests the status of the extraction for \<open>NoSuchKey\<close>.\<close>

definition optionalField :: "'a result \<Rightarrow> 'a option result" where
  "optionalField r =
     (case r of Inr x \<Rightarrow> Inr (Some x) | Inl (Error NoSuchKey) \<Rightarrow> Inr None | Inl f \<Rightarrow> Inl f)"

definition extractDate :: "bson_obj \<Rightarrow> string \<Rightarrow> 64 word result" where
  "extractDate source n =
     rbind (bsonExtractTypedField source n TDate) (\<lambda>e. case e of Date d \<Rightarrow> Inr d | _ \<Rightarrow> Inl Fatal)"

definition extractNonEmpty :: "error_code \<Rightarrow> bson_obj \<Rightarrow> string \<Rightarrow> bson_obj result" where
  "extractNonEmpty code source n =
     rbind (bsonExtractTypedField source n TObject) (\<lambda>e.
       case e of Object ob \<Rightarrow> if ob = [] then Inl (Error code) else Inr ob | _ \<Rightarrow> Inl Fatal)"

definition Collection_fromBSON :: "bson_obj \<Rightarrow> collection_type result" where
  "Collection_fromBSON source =
     rbind (bsonExtractStringField source ''_id'') (\<lambda>ns.
     rbind (NamespaceString ns) (\<lambda>fullNs.
     rbind (bsonExtractOIDFieldWithDefault source ''lastmodEpoch'' 0) (\<lambda>collEpoch.
     rbind (extractDate source ''lastmod'') (\<lambda>updated.
     rbind (optionalField (bsonExtractBooleanField source ''dropped'')) (\<lambda>dropped.
     rbind (optionalField (extractNonEmpty ShardKeyNotFound source ''key'')) (\<lambda>key.
     rbind (uassert NoSuchKey (key = None \<longrightarrow> dropped = Some True)) (\<lambda>_.
     rbind (optionalField (extractNonEmpty BadValue source ''defaultCollation'')) (\<lambda>collation.
     rbind (optionalField (bsonExtractBooleanField source ''unique'')) (\<lambda>unique.
     rbind (optionalField (bsonExtractField source ''uuid'')) (\<lambda>uuidElem.
     rbind (case uuidElem of None \<Rightarrow> Inr None | Some e \<Rightarrow> rbind (UUID_parse e) (\<lambda>u. Inr (Some u))) (\<lambda>uuid.
     rbind (optionalField (bsonExtractBooleanField source ''noBalance'')) (\<lambda>noBalance.
       Inr \<lparr>coll_fullNs = Some fullNs, coll_epoch = Some collEpoch, coll_updatedAt = Some updated,
         coll_dropped = dropped, coll_keyPattern = key,
         coll_defaultCollation = (case collation of Some ob \<Rightarrow> ob | None \<Rightarrow> []), coll_unique = unique,
         coll_uuid = uuid, coll_allowBalance = map_option Not noBalance\<rparr>))))))))))))"

definition Collection_validate :: "collection_type \<Rightarrow> unit result" where
  "Collection_validate c =
     (case coll_fullNs c of
        None \<Rightarrow> Inl (Error NoSuchKey)
      | Some ns \<Rightarrow>
          if \<not> nss_isValid ns then Inl (Error BadValue)
          else (case coll_epoch c of
              None \<Rightarrow> Inl (Error NoSuchKey)
            | Some e \<Rightarrow> (case coll_updatedAt c of
                None \<Rightarrow> Inl (Error NoSuchKey)
              | Some updated \<Rightarrow>
                  if getDropped c then Inr ()
                  else if e = 0 then Inl (Error BadValue)
                  else if updated = 0 then Inl (Error BadValue)
                  else (case coll_keyPattern c of
                      None \<Rightarrow> Inl (Error NoSuchKey)
                    | Some kp \<Rightarrow> invariant (kp \<noteq> [])))))"

definition Collection_toBSON :: "collection_type \<Rightarrow> bson_obj" where
  "Collection_toBSON c =
     opt_field ''_id'' String (coll_fullNs c) @
     [(''lastmodEpoch'', JstOID (case coll_epoch c of Some e \<Rightarrow> e | None \<Rightarrow> 0)),
      (''lastmod'', Date (case coll_updatedAt c of Some d \<Rightarrow> d | None \<Rightarrow> 0)),
      (''dropped'', Bool (getDropped c))] @
     opt_field ''key'' Object (coll_keyPattern c) @
     (if coll_defaultCollation c \<noteq> [] then [(''defaultCollation'', Object (coll_defaultCollation c))] else []) @
     opt_field ''unique'' Bool (coll_unique c) @
     (case coll_uuid c of Some u \<Rightarrow> UUID_append ''uuid'' u | None \<Rightarrow> []) @
     opt_field ''noBalance'' (\<lambda>b. Bool (\<not> b)) (coll_allowBalance c)"

definition hasSameOptions :: "collection_type \<Rightarrow> collection_type \<Rightarrow> bool result" where
  "hasSameOptions c other =
     (case (coll_fullNs c, coll_keyPattern c, coll_unique c, coll_fullNs other, coll_keyPattern other) of
        (Some ns, Some kp, Some u, Some ns', Some kp') \<Rightarrow>
          Inr (ns = ns' \<and> woCompare kp kp' = 0
            \<and> woCompare (coll_defaultCollation c) (coll_defaultCollation other) = 0 \<and> u = getUnique other)
      | (Some ns, Some kp, Some u, Some ns', None) \<Rightarrow> if ns = ns' then Inl UndefinedBehaviour else Inr False
      | (Some ns, Some kp, Some u, None, _) \<Rightarrow> Inl UndefinedBehaviour
      | _ \<Rightarrow> Inl Fatal)"

subsection \<open>Databases\<close>

record database_type =
  db_name :: "string option"
  db_primary :: "string option"
  db_sharded :: "bool option"

definition Database_fromBSON :: "bson_obj \<Rightarrow> database_type result" where
  "Database_fromBSON source =
     rbind (bsonExtractStringField source ''_id'') (\<lambda>dbtName.
     rbind (bsonExtractStringField source ''primary'') (\<lambda>dbtPrimary.
     rbind (bsonExtractBooleanFieldWithDefault source ''partitioned'' False) (\<lambda>dbtSharded.
       Inr \<lparr>db_name = Some dbtName, db_primary = Some dbtPrimary, db_sharded = Some dbtSharded\<rparr>)))"

definition Database_validate :: "database_type \<Rightarrow> unit result" where
  "Database_validate d =
     (if db_name d = None \<or> db_name d = Some [] then Inl (Error NoSuchKey)
      else if db_primary d = None \<or> db_primary d = Some [] then Inl (Error NoSuchKey)
      else if db_sharded d = None then Inl (Error NoSuchKey)
      else Inr ())"

definition Database_toBSON :: "database_type \<Rightarrow> bson_obj" where
  "Database_toBSON d =
     [(''_id'', String (case db_name d of Some n \<Rightarrow> n | None \<Rightarrow> [])),
      (''primary'', String (case db_primary d of Some p \<Rightarrow> p | None \<Rightarrow> [])),
      (''partitioned'', Bool (case db_sharded d of Some b \<Rightarrow> b | None \<Rightarrow> False))]"

subsection \<open>Round trips\<close>

lemma optionalField_simps [simp]:
  "optionalField (Inr x) = Inr (Some x)" "optionalField (Inl (Error NoSuchKey)) = Inr None"
  by (simp_all add: optionalField_def)

lemma getField_opt [simp]:
  "getField (opt_field n f x @ b) m = (if n = m \<and> x \<noteq> None then Some (f (the x)) else getField b m)"
  "getField (opt_field n f x) m = (if n = m then map_option f x else None)"
  by (cases x; auto simp: opt_field_def)+

lemma uuid_field: "(case x of Some u \<Rightarrow> UUID_append n u | None \<Rightarrow> []) = opt_field n (BinData newUUID) x"
  by (simp add: opt_field_def UUID_append_def split: option.split)

lemma optional_extracts:
  "getField b n = map_option Bool j \<Longrightarrow> optionalField (bsonExtractBooleanField b n) = Inr j"
  "\<lbrakk>getField b n = map_option Object k; k \<noteq> Some []\<rbrakk> \<Longrightarrow> optionalField (extractNonEmpty code b n) = Inr k"
  "optionalField (bsonExtractField b n) = Inr (getField b n)"
  by (cases j; cases k; cases "getField b n"; auto simp: bsonExtractBooleanField_def
      bsonExtractTypedField_def bsonExtractField_def extractNonEmpty_def)+

lemma Collection_fields:
  assumes "getField b ''_id'' = Some (String ns)" "CHR 0x00 \<notin> set ns" "getField b ''lastmodEpoch'' = Some (JstOID e)"
    "getField b ''lastmod'' = Some (Date d)" "getField b ''dropped'' = Some (Bool dr)"
    "getField b ''key'' = map_option Object key" "key \<noteq> Some []" "key = None \<longrightarrow> dr"
    "getField b ''defaultCollation'' = map_option Object coll" "coll \<noteq> Some []"
    "getField b ''unique'' = map_option Bool u" "getField b ''uuid'' = map_option (BinData newUUID) uuid"
    "\<forall>x. uuid = Some x \<longrightarrow> length x = 16" "getField b ''noBalance'' = map_option Bool nb"
  shows "Collection_fromBSON b = Inr \<lparr>coll_fullNs = Some ns, coll_epoch = Some e, coll_updatedAt = Some d,
    coll_dropped = Some dr, coll_keyPattern = key, coll_defaultCollation = (case coll of Some ob \<Rightarrow> ob | None \<Rightarrow> []),
    coll_unique = u, coll_uuid = uuid, coll_allowBalance = map_option Not nb\<rparr>"
proof -
  have "bsonExtractStringField b ''_id'' = Inr ns" "extractDate b ''lastmod'' = Inr d"
    "bsonExtractOIDFieldWithDefault b ''lastmodEpoch'' 0 = Inr e"
    using assms by (simp_all add: bsonExtractStringField_iff extractDate_def bsonExtractTypedField_def
        bsonExtractField_def bsonExtractOIDFieldWithDefault_def bsonExtractOIDField_def)
  moreover note optional_extracts(1) [OF assms(5) [folded option.map(2)]]
    optional_extracts(2) [OF assms(6,7)] optional_extracts(2) [OF assms(9,10)]
    optional_extracts(1) [OF assms(11)] optional_extracts(1) [OF assms(14)]
  ultimately show ?thesis
    using assms(2,8,12,13) unfolding Collection_fromBSON_def optional_extracts(3)
    by (cases uuid) (simp_all add: NamespaceString_def UUID_parse_def)
qed

text \<open>
  A collection entry that passes \<open>validate\<close>, with a shard key and a UUID of the right shape,
  survives persistence: its document parses back to the entry, with the dropped flag made explicit.
\<close>

theorem collection_roundtrip:
  assumes "Collection_validate c = Inr ()" "CHR 0x00 \<notin> set (the (coll_fullNs c))" "coll_keyPattern c \<noteq> Some []"
    "\<forall>u. coll_uuid c = Some u \<longrightarrow> length u = 16"
  shows "Collection_fromBSON (Collection_toBSON c) = Inr (c\<lparr>coll_dropped := Some (getDropped c)\<rparr>)"
proof -
  obtain ns e d where c: "coll_fullNs c = Some ns" "coll_epoch c = Some e" "coll_updatedAt c = Some d"
    "coll_keyPattern c = None \<longrightarrow> getDropped c"
    using assms(1) by (auto simp: Collection_validate_def split: option.splits if_splits)
  let ?coll = "if coll_defaultCollation c = [] then None else Some (coll_defaultCollation c)"
  have "Collection_fromBSON (Collection_toBSON c) = Inr \<lparr>coll_fullNs = Some ns, coll_epoch = Some e,
    coll_updatedAt = Some d, coll_dropped = Some (getDropped c), coll_keyPattern = coll_keyPattern c,
    coll_defaultCollation = (case ?coll of Some ob \<Rightarrow> ob | None \<Rightarrow> []),
    coll_unique = coll_unique c, coll_uuid = coll_uuid c,
    coll_allowBalance = map_option Not (map_option Not (coll_allowBalance c))\<rparr>"
    by (rule Collection_fields) (use assms c in \<open>auto simp: Collection_toBSON_def uuid_field option.map_comp comp_def\<close>)
  then show ?thesis
    using c by (cases c) (simp add: option.map_comp comp_def option.map_ident)
qed

definition sample_collection :: collection_type where
  "sample_collection = \<lparr>coll_fullNs = Some ''d.c'', coll_epoch = Some 7, coll_updatedAt = Some 1, coll_dropped = None,
     coll_keyPattern = Some [(''a'', NumberInt 1)], coll_defaultCollation = [], coll_unique = Some False,
     coll_uuid = None, coll_allowBalance = None\<rparr>"

theorem collection_roundtrip_witness:
  "Collection_fromBSON (Collection_toBSON sample_collection) = Inr (sample_collection\<lparr>coll_dropped := Some False\<rparr>)"
proof -
  have "Collection_validate sample_collection = Inr ()"
    by code_simp
  then show ?thesis
    using collection_roundtrip [of sample_collection] by (simp add: sample_collection_def getDropped_def)
qed

lemma database_roundtrip:
  "Database_validate d = Inr () \<Longrightarrow> Database_fromBSON (Database_toBSON d) = Inr d"
  by (cases d) (auto simp: Database_validate_def Database_fromBSON_def Database_toBSON_def bsonExtractStringField_def
      bsonExtractTypedField_def bsonExtractField_def bsonExtractBooleanFieldWithDefault_def trueValue_def split: if_splits)

end
