(* ===== verification/Config_Chunks.thy ===== *)
theory Config_Chunks
  imports Chunk_Type Shard_Key_Pattern Partition
begin

text \<open>
  The chunk operations of the config server
  (\<open>s/catalog/sharding_catalog_manager_chunk_operations.cpp\<close>) on the collection \<open>config.chunks\<close>:
  commit of a split, of a merge and of a migration, through \<open>applyOps\<close>
  (\<open>db/repl/apply_ops.cpp\<close>, \<open>db/repl/oplog.cpp\<close>). The collection is the list of its documents;
  it has the unique indexes of \<open>ShardingCatalogManager::_initConfigIndexes\<close>. The operations hold
  the chunk operation lock, so each is one step. Not modelled: the change log, fail points, write
  concerns and the loss of the connection to the config shard.
\<close>

type_synonym store = "bson_obj list"

subsection \<open>Queries\<close>

definition matchesQuery :: "bson_obj \<Rightarrow> bson_obj \<Rightarrow> bool" where
  "matchesQuery query doc =
     list_all (\<lambda>(n, v). case getField doc n of None \<Rightarrow> False | Some w \<Rightarrow> compareValues v w = 0) query"

definition findOnConfig :: "store \<Rightarrow> bson_obj \<Rightarrow> store" where
  "findOnConfig st query = filter (matchesQuery query) st"

text \<open>The first document of the result sorted by descending \<open>lastmod\<close>; a missing field sorts as null.\<close>

definition lastmodValue :: "bson_obj \<Rightarrow> bson_value" where
  "lastmodValue doc = (case getField doc ''lastmod'' of Some v \<Rightarrow> v | None \<Rightarrow> JstNULL)"

fun newest :: "store \<Rightarrow> bson_obj option" where
  "newest [] = None"
| "newest (d # ds) =
     (case newest ds of
        None \<Rightarrow> Some d
      | Some d' \<Rightarrow> if compareValues (lastmodValue d) (lastmodValue d') \<ge> 0 then Some d else Some d')"

definition findNewest :: "store \<Rightarrow> bson_obj \<Rightarrow> bson_obj option" where
  "findNewest st query = newest (findOnConfig st query)"

subsection \<open>Batches of updates\<close>

datatype config_op =
    UpdateOp bool bson_obj bson_obj
  | DeleteOp bson_obj

record precondition =
  pre_query :: bson_obj
  pre_res :: bson_obj

definition docHasId :: "bson_value \<Rightarrow> bson_obj \<Rightarrow> bool" where
  "docHasId i doc = (case getField doc ''_id'' of None \<Rightarrow> False | Some j \<Rightarrow> compareValues i j = 0)"

definition sameIn :: "string list \<Rightarrow> bson_obj \<Rightarrow> bson_obj \<Rightarrow> bool" where
  "sameIn names d e =
     list_all (\<lambda>n. compareValues (case getField d n of Some v \<Rightarrow> v | None \<Rightarrow> JstNULL)
       (case getField e n of Some v \<Rightarrow> v | None \<Rightarrow> JstNULL) = 0) names"

definition configIndexes :: "string list list" where
  "configIndexes = [[''ns'', ''min''], [''ns'', ''shard'', ''min''], [''ns'', ''lastmod'']]"

fun uniqueKeys :: "store \<Rightarrow> bool" where
  "uniqueKeys [] = True"
| "uniqueKeys (d # ds) = (list_all (\<lambda>e. list_all (\<lambda>ix. \<not> sameIn ix d e) configIndexes) ds \<and> uniqueKeys ds)"

definition alwaysUpsert :: bool where
  "alwaysUpsert = True"

text \<open>
  A replacement goes to the document with the identifier; with upsert it is inserted when there is
  none. Error 11000 is \<open>DuplicateKey\<close>, 218 is \<open>UpdateOperationFailed\<close>.
\<close>

fun applyOperation :: "store \<Rightarrow> config_op \<Rightarrow> store result" where
  "applyOperation st (UpdateOp b doc o2) =
     (case getField o2 ''_id'' of
        None \<Rightarrow> Inl (Error NoSuchKey)
      | Some i \<Rightarrow>
          let upsert = (b \<or> alwaysUpsert);
              found = list_ex (docHasId i) st;
              st' = (if found then map (\<lambda>d. if docHasId i d then doc else d) st else st @ [doc])
          in if \<not> found \<and> \<not> upsert then Inl (Error (ErrorNo 218))
             else rbind (uassert (ErrorNo 11000) (uniqueKeys st')) (\<lambda>_. Inr st'))"
| "applyOperation st (DeleteOp doc) =
     (case getField doc ''_id'' of
        None \<Rightarrow> Inl (Error NoSuchKey)
      | Some i \<Rightarrow> Inr (filter (\<lambda>d. \<not> docHasId i d) st))"

fun applyOperations :: "store \<Rightarrow> config_op list \<Rightarrow> store result" where
  "applyOperations st [] = Inr st"
| "applyOperations st (op # ops) = rbind (applyOperation st op) (\<lambda>st'. applyOperations st' ops)"

fun checkPrecondition :: "store \<Rightarrow> precondition list \<Rightarrow> unit result" where
  "checkPrecondition st [] = Inr ()"
| "checkPrecondition st (p # ps) =
     (let realres = (case findNewest st (pre_query p) of Some d \<Rightarrow> d | None \<Rightarrow> [])
      in if \<not> matchesQuery (pre_res p) realres then Inl (Error BadValue)
         else checkPrecondition st ps)"

definition applyOps :: "store \<Rightarrow> config_op list \<Rightarrow> precondition list \<Rightarrow> store result" where
  "applyOps st ops preCondition =
     rbind (checkPrecondition st preCondition) (\<lambda>_. applyOperations st ops)"

text \<open>When the batch fails, the operation still succeeds if the last version is in the collection.\<close>

definition applyChunkOpsDeprecated ::
    "store \<Rightarrow> config_op list \<Rightarrow> precondition list \<Rightarrow> string \<Rightarrow> chunk_version \<Rightarrow> store \<times> unit result" where
  "applyChunkOpsDeprecated st updateOps preCondition nss lastChunkVersion =
     (case applyOps st updateOps preCondition of
        Inr st' \<Rightarrow> (st', Inr ())
      | Inl status \<Rightarrow>
          (st, case addToBSON lastChunkVersion [] ''lastmod'' of
             Inl f \<Rightarrow> Inl f
           | Inr query \<Rightarrow>
               (case findOnConfig st (query @ [(''ns'', String nss)]) of
                  [] \<Rightarrow> Inl status
                | d # _ \<Rightarrow> (case fromConfigBSON d of Inl _ \<Rightarrow> Inl status | Inr _ \<Rightarrow> Inr ()))))"

subsection \<open>Splits\<close>

definition getMaxChunkVersionFromQueryResponse :: "bson_obj option \<Rightarrow> chunk_version result" where
  "getMaxChunkVersionFromQueryResponse doc =
     (case doc of
        None \<Rightarrow> Inl (Error IllegalOperation)
      | Some d \<Rightarrow> Inr (fst (fromBSON d ''lastmod'')))"

definition chunkDocument ::
    "string \<Rightarrow> chunk_version \<Rightarrow> string \<Rightarrow> bson_obj \<Rightarrow> bson_obj \<Rightarrow> string \<Rightarrow> bson_obj result" where
  "chunkDocument name version nss mn mx shard =
     rbind (addToBSON version [(''_id'', String name)] ''lastmod'') (\<lambda>n.
       Inr (n @ [(''ns'', String nss), (''min'', Object mn), (''max'', Object mx), (''shard'', String shard)]))"

text \<open>The entry of a new chunk for the change log, whose setters abort the process on empty bounds.\<close>

definition newChunk :: "bson_obj \<Rightarrow> bson_obj \<Rightarrow> chunk_version \<Rightarrow> chunk_type result" where
  "newChunk startKey endKey version =
     rbind (setMin startKey ChunkType_empty) (\<lambda>c. rbind (setMax endKey c) (setVersion version))"

fun splitUpdates ::
    "string \<Rightarrow> chunk_range \<Rightarrow> string \<Rightarrow> bson_obj \<Rightarrow> chunk_version \<Rightarrow> bson_obj list
      \<Rightarrow> (config_op list \<times> chunk_version) result" where
  "splitUpdates nss rng shardName startKey version [] = Inr ([], version)"
| "splitUpdates nss rng shardName startKey version (endKey # newChunkBounds) =
     rbind (uassert InvalidOptions
       (\<not> (woCompare endKey (maxKey rng) \<noteq> 0 \<and> \<not> containsKey rng endKey))) (\<lambda>_.
     rbind (uassert InvalidOptions (\<not> woCompare endKey startKey < 0)) (\<lambda>_.
     rbind (uassert InvalidOptions (woCompare endKey startKey \<noteq> 0)) (\<lambda>_.
     rbind (checkShardKeySize endKey) (\<lambda>_.
     rbind (checkShardKeyIsValidForMetadataStorage endKey) (\<lambda>_.
     rbind (incMinor version) (\<lambda>version'.
     rbind (genID nss startKey) (\<lambda>name.
     rbind (chunkDocument name version' nss startKey endKey shardName) (\<lambda>n.
     rbind (newChunk startKey endKey version') (\<lambda>chunk.
     rbind (splitUpdates nss rng shardName endKey version' newChunkBounds) (\<lambda>(ops, final).
       Inr (UpdateOp True n [(''_id'', String name)] # ops, final)))))))))))"

definition commitChunkSplit ::
    "store \<Rightarrow> string \<Rightarrow> oid \<Rightarrow> chunk_range \<Rightarrow> bson_obj list \<Rightarrow> string \<Rightarrow> store \<times> unit result" where
  "commitChunkSplit st nss requestEpoch rng splitPoints shardName =
     (let plan =
        rbind (getMaxChunkVersionFromQueryResponse (findNewest st [(''ns'', String nss)])) (\<lambda>collVersion.
        rbind (uassert StaleEpoch (epoch collVersion = requestEpoch)) (\<lambda>_.
        rbind (getMaxChunkVersionFromQueryResponse
          (findNewest st [(''ns'', String nss), (''shard'', String shardName)])) (\<lambda>shardVersion.
        rbind (if version_equals shardVersion collVersion then incMajor collVersion else Inr collVersion)
          (\<lambda>currentMaxVersion.
        splitUpdates nss rng shardName (minKey rng) currentMaxVersion (splitPoints @ [maxKey rng])))))
      in case plan of
           Inl f \<Rightarrow> (st, Inl f)
         | Inr (updates, currentMaxVersion) \<Rightarrow>
             applyChunkOpsDeprecated st updates
               [\<lparr>pre_query = [(''ns'', String nss), (''min'', Object (minKey rng)), (''max'', Object (maxKey rng))],
                 pre_res = [(''lastmodEpoch'', JstOID requestEpoch), (''shard'', String shardName)]\<rparr>]
               nss currentMaxVersion)"

subsection \<open>Merges\<close>

fun chunksToMerge :: "chunk_type \<Rightarrow> bson_obj list \<Rightarrow> chunk_type list result" where
  "chunksToMerge itChunk [] = Inr []"
| "chunksToMerge itChunk (bound # bounds) =
     rbind (setMin (the (chunk_max itChunk)) itChunk) (\<lambda>c.
     rbind (uassert InvalidOptions (\<not> woCompare bound (the (chunk_min c)) \<le> 0)) (\<lambda>_.
     rbind (setMax bound c) (\<lambda>c'.
     rbind (chunksToMerge c' bounds) (\<lambda>cs. Inr (c' # cs)))))"

fun deleteOps :: "chunk_type list \<Rightarrow> config_op list result" where
  "deleteOps [] = Inr []"
| "deleteOps (c # cs) =
     rbind (getName c) (\<lambda>name.
     rbind (deleteOps cs) (\<lambda>ops. Inr (DeleteOp [(''_id'', String name)] # ops)))"

definition buildMergeChunksApplyOpsUpdates :: "chunk_type list \<Rightarrow> chunk_version \<Rightarrow> config_op list result" where
  "buildMergeChunksApplyOpsUpdates chunks mergeVersion =
     (case chunks of
        [] \<Rightarrow> Inl UndefinedBehaviour
      | c # cs \<Rightarrow>
          rbind (setMax (the (chunk_max (last chunks))) c) (\<lambda>c1.
          rbind (setVersion mergeVersion c1) (\<lambda>mergedChunk.
          rbind (toConfigBSON mergedChunk) (\<lambda>doc.
          rbind (getName mergedChunk) (\<lambda>name.
          rbind (deleteOps cs) (\<lambda>ops.
            Inr (UpdateOp False doc [(''_id'', String name)] # ops)))))))"

definition buildMergeChunksApplyOpsPrecond :: "chunk_type list \<Rightarrow> chunk_version \<Rightarrow> precondition list" where
  "buildMergeChunksApplyOpsPrecond chunks collVersion =
     map (\<lambda>c. \<lparr>pre_query = [(''ns'', String (the (chunk_ns c))), (''min'', Object (the (chunk_min c))),
         (''max'', Object (the (chunk_max c)))],
       pre_res = [(''lastmodEpoch'', JstOID (epoch collVersion)), (''shard'', String (the (chunk_shard c)))]\<rparr>) chunks"

definition commitChunkMerge ::
    "store \<Rightarrow> string \<Rightarrow> oid \<Rightarrow> bson_obj list \<Rightarrow> string \<Rightarrow> store \<times> unit result" where
  "commitChunkMerge st ns requestEpoch chunkBoundaries shardName =
     (let plan =
        rbind (invariant (chunkBoundaries \<noteq> [])) (\<lambda>_.
        rbind (getMaxChunkVersionFromQueryResponse (findNewest st [(''ns'', String ns)])) (\<lambda>collVersion.
        rbind (uassert StaleEpoch (epoch collVersion = requestEpoch)) (\<lambda>_.
        rbind (setMax (hd chunkBoundaries) ChunkType_empty) (\<lambda>c1.
        rbind (setNS ns c1) (\<lambda>c2.
        rbind (setShard shardName c2) (\<lambda>itChunk.
        rbind (chunksToMerge itChunk (tl chunkBoundaries)) (\<lambda>chunks.
        rbind (incMinor collVersion) (\<lambda>mergeVersion.
        rbind (buildMergeChunksApplyOpsUpdates chunks mergeVersion) (\<lambda>updates.
          Inr (updates, buildMergeChunksApplyOpsPrecond chunks collVersion, mergeVersion))))))))))
      in case plan of
           Inl f \<Rightarrow> (st, Inl f)
         | Inr (updates, preCond, mergeVersion) \<Rightarrow>
             applyChunkOpsDeprecated st updates preCond ns mergeVersion)"

subsection \<open>Migrations\<close>

definition checkChunkIsOnShard :: "store \<Rightarrow> string \<Rightarrow> bson_obj \<Rightarrow> bson_obj \<Rightarrow> string \<Rightarrow> unit result" where
  "checkChunkIsOnShard st nss mn mx shard =
     (case findOnConfig st [(''ns'', String nss), (''min'', Object mn), (''max'', Object mx), (''shard'', String shard)] of
        [] \<Rightarrow> Inl (Error (ErrorNo 40165))
      | _ \<Rightarrow> Inr ())"

definition makeCommitChunkApplyOpsCommand ::
    "string \<Rightarrow> chunk_type \<Rightarrow> chunk_type option \<Rightarrow> string \<Rightarrow> string \<Rightarrow> config_op list result" where
  "makeCommitChunkApplyOpsCommand nss migratedChunk controlChunk fromShard toShard =
     rbind (genID nss (the (chunk_min migratedChunk))) (\<lambda>name.
     rbind (chunkDocument name (the (chunk_version migratedChunk)) nss (the (chunk_min migratedChunk))
       (the (chunk_max migratedChunk)) toShard) (\<lambda>n.
     let op = UpdateOp False n [(''_id'', String name)]
     in case controlChunk of
          None \<Rightarrow> Inr [op]
        | Some c \<Rightarrow>
            rbind (genID nss (the (chunk_min c))) (\<lambda>name'.
            rbind (chunkDocument name' (the (chunk_version c)) nss (the (chunk_min c)) (the (chunk_max c)) fromShard)
              (\<lambda>n'. Inr [op, UpdateOp False (n' @ [(''jumbo'', Bool (getJumbo c))]) [(''_id'', String name')]]))))"

definition commitChunkMigration ::
    "store \<Rightarrow> string \<Rightarrow> chunk_type \<Rightarrow> chunk_type option \<Rightarrow> oid \<Rightarrow> string \<Rightarrow> string
      \<Rightarrow> store \<times> bson_obj result" where
  "commitChunkMigration st nss migratedChunk controlChunk collectionEpoch fromShard toShard =
     (let plan =
        (case findNewest st [(''ns'', String nss)] of
           None \<Rightarrow> Inl (Error IncompatibleShardingMetadata)
         | Some doc \<Rightarrow>
             rbind (fromConfigBSON doc) (\<lambda>chunk.
             let currentCollectionVersion = the (chunk_version chunk);
                 major = majorVersion currentCollectionVersion + 1
             in
             rbind (uassert StaleEpoch (epoch currentCollectionVersion = collectionEpoch)) (\<lambda>_.
             rbind (checkChunkIsOnShard st nss (the (chunk_min migratedChunk)) (the (chunk_max migratedChunk)) fromShard) (\<lambda>_.
             rbind (case controlChunk of None \<Rightarrow> Inr ()
                    | Some c \<Rightarrow> checkChunkIsOnShard st nss (the (chunk_min c)) (the (chunk_max c)) fromShard) (\<lambda>_.
             rbind (setVersion (ChunkVersion major 0 (epoch currentCollectionVersion)) migratedChunk) (\<lambda>newMigratedChunk.
             rbind (case controlChunk of None \<Rightarrow> Inr None
                    | Some c \<Rightarrow> rbind (setVersion (ChunkVersion major 1 (epoch currentCollectionVersion)) c) (\<lambda>c'. Inr (Some c')))
               (\<lambda>newControlChunk.
             rbind (makeCommitChunkApplyOpsCommand nss newMigratedChunk newControlChunk fromShard toShard) (\<lambda>ops.
               Inr (ops, newMigratedChunk, newControlChunk)))))))))
      in case plan of
           Inl f \<Rightarrow> (st, Inl f)
         | Inr (ops, newMigratedChunk, newControlChunk) \<Rightarrow>
             (case applyOps st ops [] of
                Inl f \<Rightarrow> (st, Inl f)
              | Inr st' \<Rightarrow>
                  (st', Inr (let result = appendWithFieldForCommands (the (chunk_version newMigratedChunk)) [] ''migratedChunkVersion''
                     in case newControlChunk of None \<Rightarrow> result
                        | Some c \<Rightarrow> appendWithFieldForCommands (the (chunk_version c)) result ''controlChunkVersion''))))"

end
