(* ===== verification/Config_Invariant.thy ===== *)
theory Config_Invariant
  imports Config_Chunks
begin

text \<open>
  The metadata invariant of the config server: the chunk documents of a collection cover every key
  of its key space exactly once, with well-formed documents of one epoch. The theory shows what
  the commit of a split, of a merge and of a migration does to the documents, that each keeps the
  invariant and that the collection version never decreases.
\<close>

subsection \<open>Chunk documents\<close>

definition did :: "bson_obj \<Rightarrow> string" where
  "did d = (case getField d ''_id'' of Some (String s) \<Rightarrow> s | _ \<Rightarrow> [])"

definition dmin :: "bson_obj \<Rightarrow> bson_obj" where
  "dmin d = (case getField d ''min'' of Some (Object x) \<Rightarrow> x | _ \<Rightarrow> [])"

definition dmax :: "bson_obj \<Rightarrow> bson_obj" where
  "dmax d = (case getField d ''max'' of Some (Object x) \<Rightarrow> x | _ \<Rightarrow> [])"

definition dshard :: "bson_obj \<Rightarrow> string" where
  "dshard d = (case getField d ''shard'' of Some (String x) \<Rightarrow> x | _ \<Rightarrow> [])"

definition dlastmod :: "bson_obj \<Rightarrow> 64 word" where
  "dlastmod d = (case getField d ''lastmod'' of Some (Timestamp x) \<Rightarrow> x | _ \<Rightarrow> 0)"

definition doc_ok :: "string \<Rightarrow> oid \<Rightarrow> bson_obj \<Rightarrow> bool" where
  "doc_ok ns ep d \<longleftrightarrow> getField d ''_id'' = Some (String (did d)) \<and> genID ns (dmin d) = Inr (did d)
     \<and> getField d ''lastmod'' = Some (Timestamp (dlastmod d)) \<and> getField d ''lastmodEpoch'' = Some (JstOID ep)
     \<and> getField d ''ns'' = Some (String ns) \<and> getField d ''min'' = Some (Object (dmin d))
     \<and> getField d ''max'' = Some (Object (dmax d)) \<and> getField d ''shard'' = Some (String (dshard d))"

abbreviation doc_ivl :: "bson_obj \<Rightarrow> bson_key \<times> bson_key" where
  "doc_ivl d \<equiv> (keyOf (dmin d), keyOf (dmax d))"

lemma compareElementStringValues_eq: "compareElementStringValues s t = 0 \<longleftrightarrow> s = t"
  using compareElementStringValues_cmp3 [of s t] by (auto simp: sgn_if cmp3_def split: if_splits)

lemma compareValues_simps [simp]:
  "compareValues (String s) (String t) = 0 \<longleftrightarrow> s = t"
  "compareValues (JstOID i) (JstOID j) = 0 \<longleftrightarrow> i = j"
  "compareValues (Timestamp x) (Timestamp y) = 0 \<longleftrightarrow> x = y"
  "compareValues (Timestamp x) (Timestamp y) \<ge> 0 \<longleftrightarrow> x \<ge> y"
  "compareValues (Object p) (Object q) = 0 \<longleftrightarrow> keyOf p = keyOf q"
  by (auto simp: compareValues_def woCompareElement_def compareElements.simps compareElementStringValues_eq
      cmp3_def key_simps simp flip: woCompare_nested)

definition in_ns :: "string \<Rightarrow> bson_obj \<Rightarrow> bool" where
  "in_ns ns d \<longleftrightarrow> matchesQuery [(''ns'', String ns)] d"

definition ns_docs :: "string \<Rightarrow> store \<Rightarrow> bson_obj set" where
  "ns_docs ns st = {d \<in> set st. in_ns ns d}"

definition covers_once :: "('d \<Rightarrow> 'k \<times> 'k) \<Rightarrow> 'd set \<Rightarrow> 'k::linorder \<Rightarrow> 'k \<Rightarrow> bool" where
  "covers_once f D a b \<longleftrightarrow> (\<forall>d\<in>D. a \<le> fst (f d) \<and> fst (f d) < snd (f d) \<and> snd (f d) \<le> b) \<and>
     (\<forall>k. a \<le> k \<and> k < b \<longrightarrow> (\<exists>!d. d \<in> D \<and> k \<in> ivl (f d)))"

definition ids_unique :: "store \<Rightarrow> bool" where
  "ids_unique st \<longleftrightarrow> sorted_wrt (\<lambda>d e. \<forall>i. docHasId i d \<longrightarrow> \<not> docHasId i e) st"

definition config_ok :: "string \<Rightarrow> oid \<Rightarrow> bson_key \<Rightarrow> bson_key \<Rightarrow> store \<Rightarrow> bool" where
  "config_ok ns ep a b st \<longleftrightarrow> uniqueKeys st \<and> ids_unique st \<and> (\<forall>d\<in>ns_docs ns st. doc_ok ns ep d)
     \<and> covers_once doc_ivl (ns_docs ns st) a b"

text \<open>Replacing the documents of a tiled range by other documents that tile it keeps the cover.\<close>

lemma tiles_ex1_map:
  assumes "tiles l (map f ds) h" "l \<le> k" "k < h"
  shows "\<exists>!d. d \<in> set ds \<and> k \<in> ivl (f d)"
proof -
  obtain p where p: "p \<in> set (map f ds)" "k \<in> ivl p" "\<And>q. \<lbrakk>q \<in> set (map f ds); k \<in> ivl q\<rbrakk> \<Longrightarrow> q = p"
    using tiles_ex1 [OF assms] by blast
  have "sorted_wrt (\<lambda>x y. snd (f x) < snd (f y)) ds"
    using tiles_distinct_snd [OF assms(1)] by (simp add: sorted_wrt_map)
  then have inj: "\<lbrakk>d \<in> set ds; e \<in> set ds; f d = f e\<rbrakk> \<Longrightarrow> d = e" for d e
    by (induction ds) auto
  show ?thesis
    using p inj by (metis (no_types, lifting) imageE image_eqI list.set_map)
qed

lemma tiles_outside: "\<lbrakk>tiles l xs h; p \<in> set xs; k \<in> ivl p\<rbrakk> \<Longrightarrow> l \<le> k \<and> k < h"
  using tiles_mem [of l xs h p] by (auto simp: ivl_def)

lemma covers_once_replace:
  assumes "covers_once f D a b" "set old \<subseteq> D" "tiles l (map f old) h" "tiles l (map f new) h"
    "old \<noteq> []"
  shows "covers_once f ((D - set old) \<union> set new) a b"
proof -
  have D: "d \<in> D \<Longrightarrow> a \<le> fst (f d) \<and> fst (f d) < snd (f d) \<and> snd (f d) \<le> b"
    "\<lbrakk>a \<le> k; k < b\<rbrakk> \<Longrightarrow> \<exists>!d. d \<in> D \<and> k \<in> ivl (f d)" for d k
    using assms(1) by (auto simp: covers_once_def)
  have "fst (f (hd old)) = l" "snd (f (last old)) = h"
    using tiles_ends [OF assms(3)] assms(5) by (simp_all add: hd_map last_map)
  then have lh: "a \<le> l" "h \<le> b"
    using D(1) [of "hd old"] D(1) [of "last old"] assms(2,5) by (auto simp: subset_iff)
  have "\<forall>d\<in>(D - set old) \<union> set new. a \<le> fst (f d) \<and> fst (f d) < snd (f d) \<and> snd (f d) \<le> b"
  proof
    fix d
    assume "d \<in> (D - set old) \<union> set new"
    then consider "d \<in> D" | "d \<in> set new"
      by blast
    then show "a \<le> fst (f d) \<and> fst (f d) < snd (f d) \<and> snd (f d) \<le> b"
    proof cases
      case 2
      then have "l \<le> fst (f d)" "fst (f d) < snd (f d)" "snd (f d) \<le> h"
        using tiles_mem [OF assms(4), of "f d"] by simp_all
      then show ?thesis
        using lh by (meson order_trans)
    qed (rule D(1))
  qed
  moreover have "\<exists>!d. d \<in> (D - set old) \<union> set new \<and> k \<in> ivl (f d)" if k: "a \<le> k" "k < b" for k
  proof (cases "l \<le> k \<and> k < h")
    case True
    obtain o1 where "o1 \<in> set old" "k \<in> ivl (f o1)"
      using tiles_ex1_map [OF assms(3), of k] True by blast
    then have "\<And>d. \<lbrakk>d \<in> D - set old; k \<in> ivl (f d)\<rbrakk> \<Longrightarrow> False"
      using D(2) [OF k] assms(2) by blast
    then show ?thesis
      using tiles_ex1_map [OF assms(4), of k] True by blast
  next
    case False
    then have "\<And>d. \<lbrakk>d \<in> set new; k \<in> ivl (f d)\<rbrakk> \<Longrightarrow> False" "\<And>d. \<lbrakk>d \<in> set old; k \<in> ivl (f d)\<rbrakk> \<Longrightarrow> False"
      using tiles_outside [OF assms(4), of "f d" k for d] tiles_outside [OF assms(3), of "f d" k for d] by auto
    then show ?thesis
      using D(2) [OF k] by blast
  qed
  ultimately show ?thesis
    by (simp add: covers_once_def)
qed


subsection \<open>Unique keys\<close>

definition conflict :: "bson_obj \<Rightarrow> bson_obj \<Rightarrow> bool" where
  "conflict d e \<longleftrightarrow> (\<exists>ix\<in>set configIndexes. sameIn ix d e)"

lemma uniqueKeys_sorted: "uniqueKeys st \<longleftrightarrow> sorted_wrt (\<lambda>d e. \<not> conflict d e) st"
  by (induction st) (auto simp: conflict_def list_all_iff)

definition fieldOrNull :: "string \<Rightarrow> bson_obj \<Rightarrow> bson_value" where
  "fieldOrNull n d = (case getField d n of Some v \<Rightarrow> v | None \<Rightarrow> JstNULL)"

lemma sameIn_key: "sameIn names d e \<longleftrightarrow> (\<forall>n\<in>set names. vkey (fieldOrNull n d) = vkey (fieldOrNull n e))"
  by (auto simp: sameIn_def list_all_iff fieldOrNull_def key_simps)

lemma conflict_sym: "conflict d e \<longleftrightarrow> conflict e d"
  by (simp add: conflict_def sameIn_key eq_commute)

lemma conflict_refl [simp]: "conflict d d"
  by (auto simp: conflict_def sameIn_key configIndexes_def)

lemma vkey_values [simp]:
  "vkey (String s) = vkey (String t) \<longleftrightarrow> s = t" "vkey (Timestamp x) = vkey (Timestamp y) \<longleftrightarrow> x = y"
  "vkey (Object p) = vkey (Object q) \<longleftrightarrow> keyOf p = keyOf q" "vkey JstNULL \<noteq> vkey (String s)"
  using compareValues_simps(1) [of s t] compareValues_simps(3) [of x y] compareValues_simps(5) [of p q]
  by (simp_all only: flip: compareValues_key(3)) (simp add: compareValues_def woCompareElement_def)

lemma doc_fields:
  assumes "doc_ok ns ep d"
  shows "fieldOrNull ''ns'' d = String ns" "fieldOrNull ''min'' d = Object (dmin d)"
    "fieldOrNull ''shard'' d = String (dshard d)" "fieldOrNull ''lastmod'' d = Timestamp (dlastmod d)"
  using assms by (simp_all add: doc_ok_def fieldOrNull_def)

lemma conflict_docs:
  assumes "doc_ok ns ep d" "doc_ok ns ep' e"
  shows "conflict d e \<longleftrightarrow> keyOf (dmin d) = keyOf (dmin e) \<or> dlastmod d = dlastmod e"
  using doc_fields [OF assms(1)] doc_fields [OF assms(2)]
  by (auto simp: conflict_def sameIn_key configIndexes_def)

lemma in_ns_key: "in_ns ns d \<longleftrightarrow> vkey (fieldOrNull ''ns'' d) = vkey (String ns)"
  by (cases "getField d ''ns''") (auto simp: in_ns_def matchesQuery_def fieldOrNull_def key_simps)

lemma conflict_other: "\<lbrakk>in_ns ns d; \<not> in_ns ns e\<rbrakk> \<Longrightarrow> \<not> conflict d e"
  by (auto simp: conflict_def sameIn_key configIndexes_def in_ns_key)

lemma doc_ok_in_ns: "doc_ok ns ep d \<Longrightarrow> in_ns ns d"
  by (simp add: in_ns_key doc_fields)

lemma docHasId_doc: "doc_ok ns ep d \<Longrightarrow> docHasId (String s) d \<longleftrightarrow> s = did d"
  by (simp add: docHasId_def doc_ok_def)

lemma ids_uniqueD:
  assumes "ids_unique st" "d \<in> set st" "e \<in> set st" "docHasId i d" "docHasId i e"
  shows "d = e"
  using assms by (induction st) (auto simp: ids_unique_def)

lemma newest_max:
  assumes "ds \<noteq> []" "\<forall>d\<in>set ds. getField d ''lastmod'' = Some (Timestamp (dlastmod d))"
  shows "\<exists>d\<in>set ds. newest ds = Some d \<and> (\<forall>e\<in>set ds. dlastmod e \<le> dlastmod d)"
  using assms
proof (induction ds)
  case (Cons x ds)
  show ?case
  proof (cases "ds = []")
    case False
    then obtain d where d: "d \<in> set ds" "newest ds = Some d" "\<forall>e\<in>set ds. dlastmod e \<le> dlastmod d"
      using Cons by auto
    have "compareValues (lastmodValue x) (lastmodValue d) \<ge> 0 \<longleftrightarrow> dlastmod x \<ge> dlastmod d"
      using Cons.prems(2) d(1) by (simp add: lastmodValue_def)
    then show ?thesis
      using d by (cases "dlastmod x \<ge> dlastmod d") (auto intro: order_trans)
  qed simp
qed simp

lemma findOnConfig_ns: "set (findOnConfig st [(''ns'', String ns)]) = ns_docs ns st"
  by (auto simp: findOnConfig_def ns_docs_def in_ns_def)

lemma fromBSON_doc: "doc_ok ns ep d \<Longrightarrow> fromBSON d ''lastmod'' = (\<lparr>combined = dlastmod d, epoch = ep\<rparr>, True)"
  by (simp add: doc_ok_def fromBSON_def fromDeprecatedLong_def ChunkVersion_def)


subsection \<open>Batches\<close>

definition upsertDoc :: "bool \<Rightarrow> bson_obj \<Rightarrow> config_op" where
  "upsertDoc b d = UpdateOp b d [(''_id'', String (did d))]"

definition fresh_id :: "store \<Rightarrow> string \<Rightarrow> bool" where
  "fresh_id st s \<longleftrightarrow> (\<forall>d\<in>set st. \<not> docHasId (String s) d)"

lemma applyOperation_fresh:
  assumes "fresh_id st (did d)"
  shows "applyOperation st (upsertDoc b d) =
    (if uniqueKeys (st @ [d]) then Inr (st @ [d]) else Inl (Error (ErrorNo 11000)))"
proof -
  have "\<not> list_ex (docHasId (String (did d))) st"
    using assms by (auto simp: fresh_id_def list_ex_iff)
  then show ?thesis
    by (auto simp: upsertDoc_def alwaysUpsert_def uassert_def)
qed

lemma applyOperation_found:
  assumes "d0 \<in> set st" "docHasId (String (did d)) d0"
  shows "applyOperation st (upsertDoc b d) =
    (let st' = map (\<lambda>e. if docHasId (String (did d)) e then d else e) st
     in if uniqueKeys st' then Inr st' else Inl (Error (ErrorNo 11000)))"
proof -
  have "list_ex (docHasId (String (did d))) st"
    using assms by (auto simp: list_ex_iff)
  then show ?thesis
    by (auto simp: upsertDoc_def uassert_def Let_def)
qed

lemma uniqueKeys_append: "uniqueKeys (xs @ ys) \<Longrightarrow> uniqueKeys xs"
  by (simp add: uniqueKeys_sorted sorted_wrt_append)

lemma applyOperations_fresh:
  assumes "uniqueKeys (st @ ds)" "\<forall>d\<in>set ds. fresh_id st (did d)" "distinct (map did ds)"
    "\<forall>d\<in>set ds. doc_ok ns ep d"
  shows "applyOperations st (map (upsertDoc True) ds) = Inr (st @ ds)"
  using assms
proof (induction ds arbitrary: st)
  case (Cons d ds)
  have st: "st @ d # ds = (st @ [d]) @ ds"
    by simp
  have "uniqueKeys (st @ [d])"
    using Cons.prems(1) uniqueKeys_append unfolding st by blast
  then have "applyOperation st (upsertDoc True d) = Inr (st @ [d])"
    using applyOperation_fresh [of st d True] Cons.prems(2) by simp
  moreover have "\<forall>e\<in>set ds. fresh_id (st @ [d]) (did e)"
    using Cons.prems(2-4) by (auto simp: fresh_id_def docHasId_doc) (metis imageI)
  ultimately show ?case
    using Cons.IH [of "st @ [d]"] Cons.prems by simp
qed simp

lemma chunkDocument_ok:
  assumes "chunkDocument name v ns mn mx sh = Inr d" "genID ns mn = Inr name"
  shows "doc_ok ns (epoch v) d" "did d = name" "dmin d = mn" "dmax d = mx" "dshard d = sh"
    "dlastmod d = combined v"
  using assms
  by (auto simp: chunkDocument_def addToBSON_def toBSONWithPrefix_def doc_ok_def did_def dmin_def dmax_def
      dshard_def dlastmod_def)

lemma word_less_Suc: "w \<noteq> 0xFFFFFFFF \<Longrightarrow> w < w + (1 :: 32 word)"
  using unat_Suc_bounded [of w] by (simp add: word_less_nat_alt)

lemma incMinor_Inr:
  assumes "incMinor v = Inr w"
  shows "combined v < combined w" "epoch w = epoch v"
proof -
  have w: "minorVersion v \<noteq> 0xFFFFFFFF" "w = ChunkVersion (majorVersion v) (minorVersion v + 1) (epoch v)"
    using assms by (simp_all add: incMinor_eq split: if_splits)
  show "combined v < combined w" "epoch w = epoch v"
    unfolding w(2) combined_less_iff using word_less_Suc [OF w(1)] by simp_all
qed

lemma incMajor_Inr:
  assumes "incMajor v = Inr w"
  shows "combined v < combined w" "epoch w = epoch v"
proof -
  have w: "majorVersion v \<noteq> 0xFFFFFFFF" "w = ChunkVersion (majorVersion v + 1) 0 (epoch v)"
    using assms by (simp_all add: incMajor_eq split: if_splits)
  show "combined v < combined w" "epoch w = epoch v"
    unfolding w(2) combined_less_iff using word_less_Suc [OF w(1)] by simp_all
qed

lemma splitUpdates_Inr:
  assumes "splitUpdates nss rng shard start v ends = Inr (ops, final)"
  shows "\<exists>ds. ops = map (upsertDoc True) ds
    \<and> tiles (keyOf start) (map doc_ivl ds) (keyOf (last (start # ends)))
    \<and> map dmin ds = butlast (start # ends) \<and> map dmax ds = ends
    \<and> (\<forall>d\<in>set ds. doc_ok nss (epoch v) d \<and> dshard d = shard \<and> combined v < dlastmod d)
    \<and> sorted_wrt (\<lambda>d e. dlastmod d < dlastmod e) ds
    \<and> combined final = (if ds = [] then combined v else dlastmod (last ds)) \<and> epoch final = epoch v"
  using assms
proof (induction nss rng shard start v ends arbitrary: ops rule: splitUpdates.induct)
  case (2 nss rng shard start v endKey ends)
  from "2.prems" obtain v' name n c ops' where
    order: "\<not> woCompare endKey start < 0" "woCompare endKey start \<noteq> 0"
    and v': "incMinor v = Inr v'" and name: "genID nss start = Inr name"
    and n: "chunkDocument name v' nss start endKey shard = Inr n" and c: "newChunk start endKey v' = Inr c"
    and rest: "splitUpdates nss rng shard endKey v' ends = Inr (ops', final)"
    and ops: "ops = UpdateOp True n [(''_id'', String name)] # ops'"
    and pre: "checkShardKeySize endKey = Inr ()" "checkShardKeyIsValidForMetadataStorage endKey = Inr ()"
      "\<not> (woCompare endKey (maxKey rng) \<noteq> 0 \<and> \<not> containsKey rng endKey)"
    by (auto simp: rbind_Inr_iff)
  obtain ds where ds: "ops' = map (upsertDoc True) ds"
    "tiles (keyOf endKey) (map doc_ivl ds) (keyOf (last (endKey # ends)))"
    "map dmin ds = butlast (endKey # ends)" "map dmax ds = ends"
    "\<forall>d\<in>set ds. doc_ok nss (epoch v') d \<and> dshard d = shard \<and> combined v' < dlastmod d"
    "sorted_wrt (\<lambda>d e. dlastmod d < dlastmod e) ds"
    "combined final = (if ds = [] then combined v' else dlastmod (last ds))" "epoch final = epoch v'"
    using "2.IH" [OF _ _ _ _ _ v' name n c rest] order pre by auto
  note doc = chunkDocument_ok [OF n name]
  have less: "keyOf start < keyOf endKey"
    using order by (simp add: key_simps)
  have "ops = map (upsertDoc True) (n # ds)"
    using ops ds(1) doc(2) by (simp add: upsertDoc_def)
  moreover have "tiles (keyOf start) (map doc_ivl (n # ds)) (keyOf (last (start # endKey # ends)))"
    using ds(2) less doc by simp
  moreover have "\<forall>d\<in>set (n # ds). doc_ok nss (epoch v) d \<and> dshard d = shard \<and> combined v < dlastmod d"
    using ds(5) doc incMinor_Inr [OF v'] by auto
  ultimately show ?case
    using ds doc incMinor_Inr [OF v'] by (intro exI [of _ "n # ds"]) auto
qed simp


lemma newest_mem: "newest ds = Some d \<Longrightarrow> d \<in> set ds"
  by (induction ds arbitrary: d) (auto split: option.splits if_splits)

lemma findNewest_doc:
  assumes "config_ok ns ep a b st" "findNewest st [(''ns'', String ns)] = Some d"
  shows "d \<in> ns_docs ns st" "doc_ok ns ep d" "\<forall>e\<in>ns_docs ns st. dlastmod e \<le> dlastmod d"
proof -
  let ?ds = "findOnConfig st [(''ns'', String ns)]"
  have docs: "\<forall>d\<in>set ?ds. doc_ok ns ep d"
    using assms(1) by (simp add: findOnConfig_ns config_ok_def)
  have "?ds \<noteq> []"
    using assms(2) by (auto simp: findNewest_def)
  moreover have "\<forall>d\<in>set ?ds. getField d ''lastmod'' = Some (Timestamp (dlastmod d))"
    using docs by (simp add: doc_ok_def)
  ultimately have "d \<in> set ?ds \<and> (\<forall>e\<in>set ?ds. dlastmod e \<le> dlastmod d)"
    using newest_max [of ?ds] assms(2) by (auto simp: findNewest_def)
  then show "d \<in> ns_docs ns st" "doc_ok ns ep d" "\<forall>e\<in>ns_docs ns st. dlastmod e \<le> dlastmod d"
    using docs by (auto simp: findOnConfig_ns)
qed

lemma config_version:
  assumes "config_ok ns ep a b st" "getMaxChunkVersionFromQueryResponse (findNewest st [(''ns'', String ns)]) = Inr v"
  shows "epoch v = ep" "\<forall>d\<in>ns_docs ns st. dlastmod d \<le> combined v" "combined v \<in> dlastmod ` ns_docs ns st"
proof -
  obtain d where d: "findNewest st [(''ns'', String ns)] = Some d" "v = fst (fromBSON d ''lastmod'')"
    using assms(2) by (auto simp: getMaxChunkVersionFromQueryResponse_def split: option.splits)
  note n = findNewest_doc [OF assms(1) d(1)]
  show "epoch v = ep" "\<forall>d\<in>ns_docs ns st. dlastmod d \<le> combined v" "combined v \<in> dlastmod ` ns_docs ns st"
    using d(2) n fromBSON_doc [OF n(2)] by auto
qed

lemma uniqueKeysD: "\<lbrakk>uniqueKeys st; d \<in> set st; e \<in> set st; conflict d e\<rbrakk> \<Longrightarrow> d = e"
  unfolding uniqueKeys_sorted by (induction st) (auto simp: conflict_sym)

lemma applyOperations_append:
  assumes "applyOperations st (map (upsertDoc True) ds) = Inr st'" "uniqueKeys st"
    "\<forall>d\<in>set ds. fresh_id st (did d) \<and> doc_ok ns ep d" "distinct (map did ds)"
  shows "st' = st @ ds \<and> uniqueKeys st'"
  using assms
proof (induction ds arbitrary: st)
  case (Cons d ds)
  have "applyOperation st (upsertDoc True d) = Inr (st @ [d]) \<and> uniqueKeys (st @ [d])"
    using Cons.prems(1,3) applyOperation_fresh [of st d True] by (auto simp: rbind_Inr_iff split: if_splits)
  moreover have "\<forall>e\<in>set ds. fresh_id (st @ [d]) (did e)"
    using Cons.prems(3,4) by (auto simp: fresh_id_def docHasId_doc) (metis imageI)
  moreover have "applyOperations (st @ [d]) (map (upsertDoc True) ds) = Inr st'"
    using Cons.prems(1) calculation(1) by simp
  ultimately show ?case
    using Cons.IH [of "st @ [d]"] Cons.prems(3,4) by auto
qed simp

definition replaceDoc :: "bson_obj \<Rightarrow> bson_obj \<Rightarrow> store \<Rightarrow> store" where
  "replaceDoc d0 n st = map (\<lambda>e. if e = d0 then n else e) st"

lemma ids_unique_replace:
  assumes "ids_unique st" "doc_ok ns ep d0" "doc_ok ns ep' n" "did n = did d0"
  shows "ids_unique (replaceDoc d0 n st)"
proof -
  have "docHasId i (if e = d0 then n else e) \<longleftrightarrow> docHasId i e" for i e
    using assms(2-4) by (auto simp: docHasId_def doc_ok_def)
  then show ?thesis
    using assms(1) by (simp add: ids_unique_def replaceDoc_def sorted_wrt_map)
qed

lemma ids_unique_append:
  assumes "ids_unique st" "\<forall>d\<in>set ds. fresh_id st (did d) \<and> doc_ok ns ep d" "distinct (map did ds)"
  shows "ids_unique (st @ ds)"
proof -
  have i: "docHasId i d \<longleftrightarrow> vkey i = vkey (String (did d))" if "d \<in> set ds" for i d
    using assms(2) that by (auto simp: docHasId_def doc_ok_def key_simps)
  have "sorted_wrt (\<lambda>d e. did d \<noteq> did e) ds"
    using assms(3) by (induction ds) auto
  then have "sorted_wrt (\<lambda>d e. \<forall>i. docHasId i d \<longrightarrow> \<not> docHasId i e) ds"
    by (rule sorted_wrt_mono_rel [rotated]) (auto simp: i)
  moreover have "\<not> docHasId i d" if "e \<in> set st" "docHasId i e" "d \<in> set ds" for i e d
  proof
    assume "docHasId i d"
    then have "docHasId (String (did d)) e"
      using that i [OF that(3)] by (auto simp: docHasId_def key_simps split: option.splits)
    then show False
      using assms(2) that by (auto simp: fresh_id_def)
  qed
  ultimately show ?thesis
    using assms(1) by (auto simp: ids_unique_def sorted_wrt_append)
qed

text \<open>A batch whose first document carries the lower bound of an existing chunk replaces that chunk.\<close>

lemma applyOperation_replaces:
  assumes "applyOperation st (upsertDoc b n) = Inr st1" "config_ok ns ep a b' st" "doc_ok ns ep' n"
    "d0 \<in> ns_docs ns st" "keyOf (dmin n) = keyOf (dmin d0)"
  shows "st1 = replaceDoc d0 n st" "uniqueKeys st1" "did n = did d0"
proof -
  have d0: "d0 \<in> set st" "doc_ok ns ep d0"
    using assms(2,4) by (auto simp: ns_docs_def config_ok_def)
  have conf: "conflict d0 n"
    using conflict_docs [OF d0(2) assms(3)] assms(5) by simp
  have notfresh: "\<not> fresh_id st (did n)"
  proof
    assume f: "fresh_id st (did n)"
    then have "uniqueKeys (st @ [n])"
      using applyOperation_fresh [OF f, of b] assms(1) by (simp split: if_splits)
    then have "d0 = n"
      using uniqueKeysD [OF _ _ _ conf] d0(1) by simp
    then show False
      using f d0 docHasId_doc [OF assms(3)] by (auto simp: fresh_id_def)
  qed
  then obtain e where "e \<in> set st" "docHasId (String (did n)) e"
    by (auto simp: fresh_id_def)
  then have st1: "st1 = map (\<lambda>e. if docHasId (String (did n)) e then n else e) st" and u: "uniqueKeys st1"
    using assms(1) applyOperation_found [of e st n b] by (auto simp: Let_def split: if_splits)
  have "docHasId (String (did n)) d0"
  proof (rule ccontr)
    assume nid: "\<not> docHasId (String (did n)) d0"
    then have "d0 \<in> set st1" "n \<in> set st1"
      using d0(1) \<open>e \<in> set st\<close> \<open>docHasId (String (did n)) e\<close> by (auto simp: st1 image_iff)
    then have "d0 = n"
      using uniqueKeysD [OF u _ _ conf] by blast
    then show False
      using nid docHasId_doc [OF assms(3)] by simp
  qed
  moreover have "ids_unique st"
    using assms(2) by (simp add: config_ok_def)
  ultimately have "docHasId (String (did n)) e \<longleftrightarrow> e = d0" if "e \<in> set st" for e
    using ids_uniqueD that d0(1) by blast
  then show "st1 = replaceDoc d0 n st"
    by (simp add: st1 replaceDoc_def)
  show "uniqueKeys st1"
    by (rule u)
  show "did n = did d0"
    using \<open>docHasId (String (did n)) d0\<close> docHasId_doc [OF d0(2)] by simp
qed

subsection \<open>Splits\<close>

lemma doc_matches:
  assumes "doc_ok ns ep d"
  shows "matchesQuery [(''ns'', String ns'), (''min'', Object mn), (''max'', Object mx)] d \<longleftrightarrow>
      ns' = ns \<and> keyOf mn = keyOf (dmin d) \<and> keyOf mx = keyOf (dmax d)"
    "matchesQuery [(''lastmodEpoch'', JstOID ep'), (''shard'', String sh)] d \<longleftrightarrow> ep' = ep \<and> sh = dshard d"
    "matchesQuery [(''ns'', String ns'), (''min'', Object mn), (''max'', Object mx), (''shard'', String sh)] d \<longleftrightarrow>
      ns' = ns \<and> keyOf mn = keyOf (dmin d) \<and> keyOf mx = keyOf (dmax d) \<and> sh = dshard d"
    "matchesQuery [(''lastmod'', Timestamp t), (''lastmodEpoch'', JstOID ep'), (''ns'', String ns')] d \<longleftrightarrow>
      t = dlastmod d \<and> ep' = ep \<and> ns' = ns"
  using assms by (auto simp: matchesQuery_def doc_ok_def)

lemma matchesQuery_ns: "\<lbrakk>matchesQuery q d; (''ns'', String ns) \<in> set q\<rbrakk> \<Longrightarrow> in_ns ns d"
  by (auto simp: matchesQuery_def in_ns_def list_all_iff)

lemma precondition_doc:
  assumes "checkPrecondition st [\<lparr>pre_query = [(''ns'', String ns), (''min'', Object mn), (''max'', Object mx)],
      pre_res = [(''lastmodEpoch'', JstOID ep'), (''shard'', String sh)]\<rparr>] = Inr ()" "config_ok ns ep a b st"
  obtains d0 where "d0 \<in> ns_docs ns st" "keyOf (dmin d0) = keyOf mn" "keyOf (dmax d0) = keyOf mx"
    "dshard d0 = sh" "ep' = ep"
proof -
  let ?q = "[(''ns'', String ns), (''min'', Object mn), (''max'', Object mx)]"
  obtain d0 where d0: "findNewest st ?q = Some d0"
    "matchesQuery [(''lastmodEpoch'', JstOID ep'), (''shard'', String sh)] d0"
    using assms(1) by (cases "findNewest st ?q") (auto simp: matchesQuery_def split: if_splits)
  then have "d0 \<in> set st" "matchesQuery ?q d0"
    using newest_mem by (fastforce simp: findNewest_def findOnConfig_def)+
  then have "d0 \<in> ns_docs ns st"
    using matchesQuery_ns [of ?q d0 ns] by (simp add: ns_docs_def)
  then show thesis
    using that d0(2) \<open>matchesQuery ?q d0\<close> assms(2) doc_matches(1,2) [of ns ep d0] by (auto simp: config_ok_def)
qed

lemma no_such_version:
  assumes "config_ok ns ep a b st" "\<forall>d\<in>ns_docs ns st. dlastmod d \<noteq> combined v"
  shows "applyChunkOpsDeprecated st ops pre ns v =
    (case applyOps st ops pre of Inr st' \<Rightarrow> (st', Inr ()) | Inl f \<Rightarrow> (st, Inl f))"
proof -
  let ?q = "[(''lastmod'', Timestamp (combined v)), (''lastmodEpoch'', JstOID (epoch v)), (''ns'', String ns)]"
  have "\<not> matchesQuery ?q d" if "d \<in> set st" for d
  proof
    assume m: "matchesQuery ?q d"
    then have d: "d \<in> ns_docs ns st"
      using matchesQuery_ns [OF m] that by (simp add: ns_docs_def)
    then show False
      using m doc_matches(4) [of ns ep d] assms by (auto simp: config_ok_def)
  qed
  then have "findOnConfig st ?q = []"
    by (auto simp: findOnConfig_def)
  then show ?thesis
    by (auto simp: applyChunkOpsDeprecated_def addToBSON_def toBSONWithPrefix_def split: sum.splits)
qed

lemma split_plan:
  assumes "config_ok ns ep a b st" "commitChunkSplit st ns requestEpoch rng pts sh = (st', Inr ())"
  obtains v ops final where "epoch v = ep" "\<forall>d\<in>ns_docs ns st. dlastmod d \<le> combined v"
    "splitUpdates ns rng sh (minKey rng) v (pts @ [maxKey rng]) = Inr (ops, final)"
    "applyChunkOpsDeprecated st ops
       [\<lparr>pre_query = [(''ns'', String ns), (''min'', Object (minKey rng)), (''max'', Object (maxKey rng))],
         pre_res = [(''lastmodEpoch'', JstOID requestEpoch), (''shard'', String sh)]\<rparr>] ns final = (st', Inr ())"
proof -
  define plan where "plan = rbind (getMaxChunkVersionFromQueryResponse (findNewest st [(''ns'', String ns)])) (\<lambda>collVersion.
        rbind (uassert StaleEpoch (epoch collVersion = requestEpoch)) (\<lambda>_.
        rbind (getMaxChunkVersionFromQueryResponse
          (findNewest st [(''ns'', String ns), (''shard'', String sh)])) (\<lambda>shardVersion.
        rbind (if version_equals shardVersion collVersion then incMajor collVersion else Inr collVersion)
          (\<lambda>currentMaxVersion.
        splitUpdates ns rng sh (minKey rng) currentMaxVersion (pts @ [maxKey rng])))))"
  obtain ops final where plan: "plan = Inr (ops, final)" and
    rest: "applyChunkOpsDeprecated st ops
       [\<lparr>pre_query = [(''ns'', String ns), (''min'', Object (minKey rng)), (''max'', Object (maxKey rng))],
         pre_res = [(''lastmodEpoch'', JstOID requestEpoch), (''shard'', String sh)]\<rparr>] ns final = (st', Inr ())"
    using assms(2) unfolding commitChunkSplit_def plan_def [symmetric] Let_def
    by (cases plan) auto
  obtain v0 sv v where
    v0: "getMaxChunkVersionFromQueryResponse (findNewest st [(''ns'', String ns)]) = Inr v0" and
    v: "(if version_equals sv v0 then incMajor v0 else Inr v0) = Inr v" and
    upd: "splitUpdates ns rng sh (minKey rng) v (pts @ [maxKey rng]) = Inr (ops, final)"
    using plan unfolding plan_def rbind_Inr_iff by blast
  note cv = config_version [OF assms(1) v0]
  have "epoch v = ep" "combined v0 \<le> combined v"
    using v cv(1) incMajor_Inr [of v0 v] by (auto split: if_splits)
  then show thesis
    using that [OF _ _ upd rest] cv(2) by (meson order_trans)
qed


lemma replace_ns_docs:
  assumes "d0 \<in> ns_docs ns st" "doc_ok ns ep n" "\<forall>d\<in>set ds. doc_ok ns ep d"
  shows "ns_docs ns (replaceDoc d0 n st @ ds) = (ns_docs ns st - {d0}) \<union> set (n # ds)"
    "filter (\<lambda>d. \<not> in_ns ns d) (replaceDoc d0 n st @ ds) = filter (\<lambda>d. \<not> in_ns ns d) st"
proof -
  have n: "in_ns ns n" "in_ns ns d0" "\<forall>d\<in>set ds. in_ns ns d"
    using assms doc_ok_in_ns by (auto simp: ns_docs_def)
  show "ns_docs ns (replaceDoc d0 n st @ ds) = (ns_docs ns st - {d0}) \<union> set (n # ds)"
    using assms(1) n by (auto simp: ns_docs_def replaceDoc_def)
  have "filter (\<lambda>d. \<not> in_ns ns d) (replaceDoc d0 n st) = filter (\<lambda>d. \<not> in_ns ns d) st"
    unfolding replaceDoc_def using n by (induction st) auto
  then show "filter (\<lambda>d. \<not> in_ns ns d) (replaceDoc d0 n st @ ds) = filter (\<lambda>d. \<not> in_ns ns d) st"
    using n(3) by (simp add: filter_empty_conv)
qed

lemma tiles_distinct_starts: "tiles a (map f ds) b \<Longrightarrow> distinct (map (\<lambda>d. fst (f d)) ds)"
proof (induction ds arbitrary: a)
  case (Cons d ds)
  then have t: "tiles (snd (f d)) (map f ds) b" "fst (f d) < snd (f d)"
    by (cases "f d"; simp)+
  have "fst (f d) < fst (f e)" if "e \<in> set ds" for e
    using tiles_mem [OF t(1), of "f e"] that t(2) by auto
  then show ?case
    using Cons.IH [OF t(1)] by fastforce
qed simp

lemma batch_replaces:
  assumes "applyOperations st (map (upsertDoc True) (n # ds)) = Inr st'" "config_ok ns ep a b st"
    "doc_ok ns ep n" "d0 \<in> ns_docs ns st" "keyOf (dmin n) = keyOf (dmin d0)"
    "\<forall>d\<in>set ds. fresh_id st (did d) \<and> doc_ok ns ep d" "distinct (map did ds)"
  shows "st' = replaceDoc d0 n st @ ds" "uniqueKeys st'" "ids_unique st'"
proof -
  obtain st1 where st1: "applyOperation st (upsertDoc True n) = Inr st1"
    and rest: "applyOperations st1 (map (upsertDoc True) ds) = Inr st'"
    using assms(1) by (auto simp: rbind_Inr_iff)
  note r = applyOperation_replaces [OF st1 assms(2-5)]
  have d0: "doc_ok ns ep d0" "d0 \<in> set st" "ids_unique st"
    using assms(2,4) by (auto simp: config_ok_def ns_docs_def)
  have fresh: "\<forall>d\<in>set ds. fresh_id st1 (did d) \<and> doc_ok ns ep d"
    using assms(6) d0(2) r(3) docHasId_doc [OF assms(3)] docHasId_doc [OF d0(1)]
    by (auto simp: r(1) replaceDoc_def fresh_id_def)
  show "st' = replaceDoc d0 n st @ ds" "uniqueKeys st'"
    using applyOperations_append [OF rest r(2) fresh assms(7)] r(1) by auto
  then show "ids_unique st'"
    using ids_unique_append [OF ids_unique_replace [OF d0(3,1) assms(3) r(3)] _ assms(7), of ns ep] fresh r(1)
    by simp
qed

definition split_into ::
    "string \<Rightarrow> store \<Rightarrow> store \<Rightarrow> bson_obj \<Rightarrow> bson_obj list \<Rightarrow> bson_obj list \<Rightarrow> bool" where
  "split_into ns st st' d0 ks ds \<longleftrightarrow> d0 \<in> ns_docs ns st \<and>
     keyOf (dmin d0) = keyOf (hd ks) \<and> keyOf (dmax d0) = keyOf (last ks) \<and>
     ns_docs ns st' = (ns_docs ns st - {d0}) \<union> set ds \<and>
     map dmin ds = butlast ks \<and> map dmax ds = tl ks \<and>
     tiles (keyOf (hd ks)) (map doc_ivl ds) (keyOf (last ks)) \<and>
     (\<forall>d\<in>set ds. dshard d = dshard d0 \<and> (\<forall>e\<in>ns_docs ns st. dlastmod e < dlastmod d)) \<and>
     filter (\<lambda>d. \<not> in_ns ns d) st' = filter (\<lambda>d. \<not> in_ns ns d) st"

lemma split_preserves:
  assumes ok: "config_ok ns ep a b st" and commit: "commitChunkSplit st ns requestEpoch rng pts sh = (st', Inr ())"
    and fresh: "\<forall>p\<in>set pts. \<forall>s. genID ns p = Inr s \<longrightarrow> fresh_id st s" and inj: "inj_on (genID ns) (set pts)"
  shows "config_ok ns ep a b st' \<and> (\<exists>d0 ds. split_into ns st st' d0 (minKey rng # pts @ [maxKey rng]) ds \<and> dshard d0 = sh)"
proof -
  obtain v ops final where v: "epoch v = ep" "\<forall>d\<in>ns_docs ns st. dlastmod d \<le> combined v"
    and upd: "splitUpdates ns rng sh (minKey rng) v (pts @ [maxKey rng]) = Inr (ops, final)"
    and run: "applyChunkOpsDeprecated st ops
       [\<lparr>pre_query = [(''ns'', String ns), (''min'', Object (minKey rng)), (''max'', Object (maxKey rng))],
         pre_res = [(''lastmodEpoch'', JstOID requestEpoch), (''shard'', String sh)]\<rparr>] ns final = (st', Inr ())"
    using split_plan [OF ok commit] .
  obtain ds where ds: "ops = map (upsertDoc True) ds"
    "tiles (lo rng) (map doc_ivl ds) (hi rng)"
    "map dmin ds = minKey rng # pts" "map dmax ds = pts @ [maxKey rng]"
    "\<forall>d\<in>set ds. doc_ok ns ep d \<and> dshard d = sh \<and> combined v < dlastmod d"
    "combined final = (if ds = [] then combined v else dlastmod (last ds))"
  proof -
    have ends: "last (minKey rng # pts @ [maxKey rng]) = maxKey rng"
      "butlast (minKey rng # pts @ [maxKey rng]) = minKey rng # pts"
      by (simp_all add: butlast_append)
    show thesis
      using splitUpdates_Inr [OF upd, unfolded ends v(1)] by (elim exE conjE) (rule that; assumption)
  qed
  obtain n ds' where n: "ds = n # ds'" "dmin n = minKey rng" "map dmin ds' = pts"
    using ds(3) by (cases ds) auto
  have newer: "\<forall>d\<in>set ds. \<forall>e\<in>ns_docs ns st. dlastmod e < dlastmod d"
    using v(2) ds(5) by (meson order_le_less_trans)
  have "combined final = dlastmod (last ds)" "last ds \<in> set ds"
    using ds(6) n(1) by simp_all
  then have "\<forall>d\<in>ns_docs ns st. dlastmod d \<noteq> combined final"
    using newer by (metis order_less_irrefl)
  then have "applyOps st ops [\<lparr>pre_query = [(''ns'', String ns), (''min'', Object (minKey rng)), (''max'', Object (maxKey rng))],
         pre_res = [(''lastmodEpoch'', JstOID requestEpoch), (''shard'', String sh)]\<rparr>] = Inr st'"
    using run no_such_version [OF ok] by (auto split: sum.splits)
  then have pre: "checkPrecondition st [\<lparr>pre_query = [(''ns'', String ns), (''min'', Object (minKey rng)), (''max'', Object (maxKey rng))],
         pre_res = [(''lastmodEpoch'', JstOID requestEpoch), (''shard'', String sh)]\<rparr>] = Inr ()"
    and app: "applyOperations st (map (upsertDoc True) ds) = Inr st'"
    unfolding applyOps_def rbind_Inr_iff ds(1) by simp_all
  obtain d0 where d0: "d0 \<in> ns_docs ns st" "keyOf (dmin d0) = lo rng" "keyOf (dmax d0) = hi rng" "dshard d0 = sh"
    using precondition_doc [OF pre ok] .
  have ids: "\<forall>d\<in>set ds'. fresh_id st (did d) \<and> doc_ok ns ep d"
    using fresh ds(5) n by (auto simp: doc_ok_def)
  have "distinct (map (genID ns) pts)"
    using tiles_distinct_starts [OF ds(2)] inj n by (auto simp: distinct_map comp_def inj_on_def)
  then have "distinct (map (\<lambda>d. Inr (did d) :: string result) ds')"
    using ids unfolding n(3) [symmetric] by (simp add: comp_def doc_ok_def cong: map_cong)
  then have "distinct (map did ds')"
    by (simp add: distinct_map inj_on_def)
  then have res: "st' = replaceDoc d0 n st @ ds'" "uniqueKeys st'" "ids_unique st'"
    using batch_replaces [OF app [unfolded n(1)] ok _ d0(1) _ ids] ds(5) d0(2) n(1,2) by simp_all
  have new: "tiles (lo rng) (map doc_ivl [d0]) (hi rng)"
    using d0 ok by (auto simp: config_ok_def covers_once_def)
  have docs: "ns_docs ns st' = (ns_docs ns st - set [d0]) \<union> set ds"
    "filter (\<lambda>d. \<not> in_ns ns d) st' = filter (\<lambda>d. \<not> in_ns ns d) st"
    using replace_ns_docs [OF d0(1), of ep n ds'] ds(5) n(1) res(1) by simp_all
  have "covers_once doc_ivl (ns_docs ns st') a b"
    unfolding docs(1) by (rule covers_once_replace [OF _ _ new ds(2)]) (use ok d0(1) in \<open>auto simp: config_ok_def\<close>)
  moreover have "\<forall>d\<in>ns_docs ns st'. doc_ok ns ep d"
    using docs(1) ds(5) ok n(1) res(1) by (auto simp: config_ok_def)
  ultimately have "config_ok ns ep a b st'"
    using res by (simp add: config_ok_def)
  moreover have "split_into ns st st' d0 (minKey rng # pts @ [maxKey rng]) ds"
    using d0 docs ds n(1) newer res(1) by (simp add: split_into_def butlast_append)
  ultimately show ?thesis
    using d0(4) by blast
qed


definition owner :: "string \<Rightarrow> store \<Rightarrow> bson_key \<Rightarrow> string \<Rightarrow> bool" where
  "owner ns st k s \<longleftrightarrow> (\<exists>d\<in>ns_docs ns st. k \<in> ivl (doc_ivl d) \<and> dshard d = s)"

lemma owner_unique:
  assumes "config_ok ns ep a b st" "d \<in> ns_docs ns st" "k \<in> ivl (doc_ivl d)"
  shows "owner ns st k s \<longleftrightarrow> s = dshard d"
proof -
  have "a \<le> k" "k < b"
    using assms by (auto simp: config_ok_def covers_once_def ivl_def)
  then have "\<exists>!d. d \<in> ns_docs ns st \<and> k \<in> ivl (doc_ivl d)"
    using assms(1) by (auto simp: config_ok_def covers_once_def)
  then show ?thesis
    using assms(2,3) unfolding owner_def by blast
qed

text \<open>A new table keeps the owner of every key when each of its chunks is on a shard that owned its keys.\<close>

lemma owner_refine:
  assumes "config_ok ns ep a b st" "config_ok ns ep a b st'"
    "\<And>d k. \<lbrakk>d \<in> ns_docs ns st'; k \<in> ivl (doc_ivl d)\<rbrakk> \<Longrightarrow> owner ns st k (dshard d)"
  shows "owner ns st' k s \<longleftrightarrow> owner ns st k s"
proof
  assume "owner ns st' k s"
  then show "owner ns st k s"
    using assms(3) by (auto simp: owner_def [of ns st'])
next
  assume "owner ns st k s"
  then obtain d where d: "d \<in> ns_docs ns st" "k \<in> ivl (doc_ivl d)" "dshard d = s"
    by (auto simp: owner_def)
  then have "a \<le> k" "k < b"
    using assms(1) by (auto simp: config_ok_def covers_once_def ivl_def)
  then obtain e where e: "e \<in> ns_docs ns st'" "k \<in> ivl (doc_ivl e)"
    using assms(2) by (auto simp: config_ok_def covers_once_def)
  then have "dshard e = s"
    using assms(3) [OF e] owner_unique [OF assms(1) d(1,2)] d(3) by simp
  then show "owner ns st' k s"
    using e by (auto simp: owner_def)
qed

lemma split_owner:
  assumes "config_ok ns ep a b st" "config_ok ns ep a b st'" "split_into ns st st' d0 ks ds"
  shows "owner ns st' k s \<longleftrightarrow> owner ns st k s"
proof (rule owner_refine [OF assms(1,2)])
  fix d k
  assume d: "d \<in> ns_docs ns st'" "k \<in> ivl (doc_ivl d)"
  show "owner ns st k (dshard d)"
  proof (cases "d \<in> set ds")
    case True
    then have "k \<in> ivl (doc_ivl d0)" "d0 \<in> ns_docs ns st" "dshard d = dshard d0"
      using assms(3) tiles_outside [of _ "map doc_ivl ds" _ "doc_ivl d" k] d(2) by (auto simp: split_into_def ivl_def)
    then show ?thesis
      using owner_unique [OF assms(1)] by simp
  next
    case False
    then show ?thesis
      using d assms(3) by (auto simp: split_into_def owner_def)
  qed
qed

subsection \<open>Migrations\<close>

lemma replace_one:
  assumes "config_ok ns ep a b st" "applyOperation st (upsertDoc u n) = Inr st1" "doc_ok ns ep n"
    "d0 \<in> ns_docs ns st" "doc_ivl n = doc_ivl d0"
  shows "config_ok ns ep a b st1" "ns_docs ns st1 = (ns_docs ns st - {d0}) \<union> {n}"
proof -
  have d0: "doc_ok ns ep d0" "ids_unique st" "covers_once doc_ivl (ns_docs ns st) a b"
    using assms(1,4) by (auto simp: config_ok_def)
  note r = applyOperation_replaces [OF assms(2,1,3,4)]
  have st1: "st1 = replaceDoc d0 n st" "uniqueKeys st1" "did n = did d0"
    using r assms(5) by simp_all
  show docs: "ns_docs ns st1 = (ns_docs ns st - {d0}) \<union> {n}"
    using replace_ns_docs(1) [OF assms(4,3), of "[]"] st1(1) by simp
  have "tiles (keyOf (dmin d0)) (map doc_ivl [d0]) (keyOf (dmax d0))"
    using d0(3) assms(4) by (auto simp: covers_once_def)
  then have "covers_once doc_ivl ((ns_docs ns st - set [d0]) \<union> set [n]) a b"
    using assms(4,5) by (intro covers_once_replace [OF d0(3), where l = "keyOf (dmin d0)" and h = "keyOf (dmax d0)"]) auto
  then show "config_ok ns ep a b st1"
    using docs assms(1,3) st1 ids_unique_replace [OF d0(2,1) assms(3) st1(3)] by (auto simp: config_ok_def)
qed

lemma owner_replace:
  assumes "config_ok ns ep a b st" "ns_docs ns st1 = (ns_docs ns st - {d0}) \<union> {n}" "d0 \<in> ns_docs ns st"
    "doc_ivl n = doc_ivl d0"
  shows "owner ns st1 k s \<longleftrightarrow> (if k \<in> ivl (doc_ivl d0) then s = dshard n else owner ns st k s)"
proof (cases "k \<in> ivl (doc_ivl d0)")
  case True
  have "a \<le> k" "k < b"
    using assms(1,3) True by (auto simp: config_ok_def covers_once_def ivl_def)
  then have "d = d0" if "d \<in> ns_docs ns st" "k \<in> ivl (doc_ivl d)" for d
    using assms(1,3) True that by (auto simp: config_ok_def covers_once_def)
  then show ?thesis
    using True assms(2,4) unfolding owner_def by auto
next
  case False
  then show ?thesis
    using assms(2,4) unfolding owner_def by auto
qed

lemma on_shard_doc:
  assumes "checkChunkIsOnShard st ns mn mx sh = Inr ()" "config_ok ns ep a b st"
  obtains d0 where "d0 \<in> ns_docs ns st" "keyOf (dmin d0) = keyOf mn" "keyOf (dmax d0) = keyOf mx" "dshard d0 = sh"
proof -
  let ?q = "[(''ns'', String ns), (''min'', Object mn), (''max'', Object mx), (''shard'', String sh)]"
  have "findOnConfig st ?q \<noteq> []"
    using assms(1) by (auto simp: checkChunkIsOnShard_def)
  then obtain d0 where "d0 \<in> set st" "matchesQuery ?q d0"
    by (auto simp: findOnConfig_def filter_empty_conv)
  then show thesis
    using that [of d0] matchesQuery_ns [of ?q d0 ns] doc_matches(3) [of ns ep d0] assms(2)
    by (auto simp: ns_docs_def config_ok_def)
qed

lemma fromConfigBSON_version:
  assumes "doc_ok ns ep d" "fromConfigBSON d = Inr c"
  shows "chunk_version c = Some \<lparr>combined = dlastmod d, epoch = ep\<rparr>"
  using assms(2) fromBSON_doc [OF assms(1)]
  by (auto simp: fromConfigBSON_def parseFromBSONForChunk_def rbind_Inr_iff)


lemma next_major:
  assumes "isSet (ChunkVersion (majorVersion v + 1) 0 e)"
  shows "combined v < combined (ChunkVersion (majorVersion v + 1) minor e')"
proof -
  have "majorVersion v + 1 \<noteq> 0"
    using assms by (auto simp: isSet_def ChunkVersion_def)
  then have "majorVersion v \<noteq> 0xFFFFFFFF"
    by auto
  then show ?thesis
    using word_less_Suc by (simp add: combined_less_iff)
qed

lemma migration_plan:
  assumes "commitChunkMigration st ns mig ctl collEpoch from to = (st', Inr out)"
  obtains doc chunk v nm nc ops where "findNewest st [(''ns'', String ns)] = Some doc" "fromConfigBSON doc = Inr chunk"
    "v = the (chunk_version chunk)"
    "checkChunkIsOnShard st ns (the (chunk_min mig)) (the (chunk_max mig)) from = Inr ()"
    "\<forall>c. ctl = Some c \<longrightarrow> checkChunkIsOnShard st ns (the (chunk_min c)) (the (chunk_max c)) from = Inr ()"
    "setVersion (ChunkVersion (majorVersion v + 1) 0 (epoch v)) mig = Inr nm"
    "(case ctl of None \<Rightarrow> Inr None
      | Some c \<Rightarrow> rbind (setVersion (ChunkVersion (majorVersion v + 1) 1 (epoch v)) c) (\<lambda>c'. Inr (Some c'))) = Inr nc"
    "makeCommitChunkApplyOpsCommand ns nm nc from to = Inr ops" "applyOps st ops [] = Inr st'"
proof -
  let ?onShard = "\<lambda>c. checkChunkIsOnShard st ns (the (chunk_min c)) (the (chunk_max c)) from"
  define plan where "plan = (case findNewest st [(''ns'', String ns)] of
           None \<Rightarrow> Inl (Error IncompatibleShardingMetadata)
         | Some doc \<Rightarrow>
             rbind (fromConfigBSON doc) (\<lambda>chunk.
             let v = the (chunk_version chunk); major = majorVersion v + 1
             in
             rbind (uassert StaleEpoch (epoch v = collEpoch)) (\<lambda>_.
             rbind (?onShard mig) (\<lambda>_.
             rbind (case ctl of None \<Rightarrow> Inr () | Some c \<Rightarrow> ?onShard c) (\<lambda>_.
             rbind (setVersion (ChunkVersion major 0 (epoch v)) mig) (\<lambda>nm.
             rbind (case ctl of None \<Rightarrow> Inr None
                    | Some c \<Rightarrow> rbind (setVersion (ChunkVersion major 1 (epoch v)) c) (\<lambda>c'. Inr (Some c'))) (\<lambda>nc.
             rbind (makeCommitChunkApplyOpsCommand ns nm nc from to) (\<lambda>ops. Inr (ops, nm, nc)))))))))"
  obtain ops nm nc where plan: "plan = Inr (ops, nm, nc)" and run: "applyOps st ops [] = Inr st'"
    using assms unfolding commitChunkMigration_def Let_def plan_def [unfolded Let_def, symmetric]
    by (cases plan) (auto split: sum.splits)
  obtain doc where doc: "findNewest st [(''ns'', String ns)] = Some doc"
    using plan by (auto simp: plan_def split: option.splits)
  show thesis
    using plan unfolding plan_def doc option.case Let_def rbind_Inr_iff
    by (elim exE conjE) (rule that [OF doc _ refl _ _ _ _ _ run]; auto simp: rbind_Inr_iff)
qed

lemma doc_ok_append:
  assumes "doc_ok ns ep d"
  shows "doc_ok ns ep (d @ xs)" "did (d @ xs) = did d" "dmin (d @ xs) = dmin d" "dmax (d @ xs) = dmax d"
    "dshard (d @ xs) = dshard d" "dlastmod (d @ xs) = dlastmod d"
proof -
  have f: "getField (d @ xs) f = getField d f" if "getField d f \<noteq> None" for f
    using that by (auto simp: getField_append)
  have "getField (d @ xs) f = getField d f"
    if "f \<in> {''_id'', ''lastmod'', ''lastmodEpoch'', ''ns'', ''min'', ''max'', ''shard''}" for f
    using assms that by (intro f) (auto simp: doc_ok_def)
  note g = this
  show e: "did (d @ xs) = did d" "dmin (d @ xs) = dmin d" "dmax (d @ xs) = dmax d"
    "dshard (d @ xs) = dshard d" "dlastmod (d @ xs) = dlastmod d"
    by (simp_all add: did_def dmin_def dmax_def dshard_def dlastmod_def g)
  show "doc_ok ns ep (d @ xs)"
    using assms by (simp add: doc_ok_def e g)
qed

text \<open>What a committed migration did, read off the code path that reports success.\<close>

definition migrated_doc :: "string \<Rightarrow> chunk_version \<Rightarrow> chunk_type \<Rightarrow> string \<Rightarrow> bson_obj \<Rightarrow> bool" where
  "migrated_doc ns v c sh n \<longleftrightarrow> doc_ok ns (epoch v) n \<and> dmin n = the (chunk_min c) \<and> dmax n = the (chunk_max c)
     \<and> dshard n = sh \<and> dlastmod n = combined v"

lemma makeCommit_docs:
  assumes "makeCommitChunkApplyOpsCommand ns nm nc from to = Inr ops"
  obtains n ops' where "ops = upsertDoc False n # ops'" "migrated_doc ns (the (chunk_version nm)) nm to n"
    "case nc of None \<Rightarrow> ops' = []
     | Some c \<Rightarrow> \<exists>m. ops' = [upsertDoc False m] \<and> migrated_doc ns (the (chunk_version c)) c from m"
proof -
  obtain name n where n: "genID ns (the (chunk_min nm)) = Inr name"
    "chunkDocument name (the (chunk_version nm)) ns (the (chunk_min nm)) (the (chunk_max nm)) to = Inr n"
    using assms by (auto simp: makeCommitChunkApplyOpsCommand_def rbind_Inr_iff)
  have n': "upsertDoc False n = UpdateOp False n [(''_id'', String name)]" "migrated_doc ns (the (chunk_version nm)) nm to n"
    using chunkDocument_ok [OF n(2,1)] by (simp_all add: upsertDoc_def migrated_doc_def)
  show thesis
  proof (cases nc)
    case None
    then show thesis
      using assms n n' by (intro that [of n "[]"]) (auto simp: makeCommitChunkApplyOpsCommand_def)
  next
    case (Some c)
    obtain name' m where m: "genID ns (the (chunk_min c)) = Inr name'"
      "chunkDocument name' (the (chunk_version c)) ns (the (chunk_min c)) (the (chunk_max c)) from = Inr m"
      "ops = [UpdateOp False n [(''_id'', String name)],
        UpdateOp False (m @ [(''jumbo'', Bool (getJumbo c))]) [(''_id'', String name')]]"
      using assms n Some by (auto simp: makeCommitChunkApplyOpsCommand_def rbind_Inr_iff)
    let ?m = "m @ [(''jumbo'', Bool (getJumbo c))]"
    note doc = chunkDocument_ok [OF m(2,1)]
    have m': "upsertDoc False ?m = UpdateOp False ?m [(''_id'', String name')]"
      "migrated_doc ns (the (chunk_version c)) c from ?m"
      using doc doc_ok_append [OF doc(1)] by (simp_all add: upsertDoc_def migrated_doc_def)
    show thesis
    proof (rule that [of n "[upsertDoc False ?m]"])
      show "case nc of None \<Rightarrow> [upsertDoc False ?m] = []
       | Some c \<Rightarrow> \<exists>m. [upsertDoc False ?m] = [upsertDoc False m] \<and> migrated_doc ns (the (chunk_version c)) c from m"
        unfolding Some option.case using m'(2) by blast
    qed (simp_all add: n' m'(1) m(3))
  qed
qed

lemma migration_steps:
  assumes ok: "config_ok ns ep a b st" and "commitChunkMigration st ns mig ctl collEpoch from to = (st', Inr out)"
  obtains v n ops where "epoch v = ep" "\<forall>d\<in>ns_docs ns st. dlastmod d \<le> combined v"
    "checkChunkIsOnShard st ns (the (chunk_min mig)) (the (chunk_max mig)) from = Inr ()"
    "isSet (ChunkVersion (majorVersion v + 1) 0 ep)"
    "migrated_doc ns (ChunkVersion (majorVersion v + 1) 0 ep) mig to n"
    "applyOperations st (upsertDoc False n # ops) = Inr st'"
    "case ctl of None \<Rightarrow> ops = []
     | Some c \<Rightarrow> checkChunkIsOnShard st ns (the (chunk_min c)) (the (chunk_max c)) from = Inr () \<and>
        (\<exists>m. ops = [upsertDoc False m] \<and> migrated_doc ns (ChunkVersion (majorVersion v + 1) 1 ep) c from m)"
proof -
  obtain doc chunk v nm nc ops0 where doc: "findNewest st [(''ns'', String ns)] = Some doc" "fromConfigBSON doc = Inr chunk"
    and v: "v = the (chunk_version chunk)"
    and on: "checkChunkIsOnShard st ns (the (chunk_min mig)) (the (chunk_max mig)) from = Inr ()"
      "\<forall>c. ctl = Some c \<longrightarrow> checkChunkIsOnShard st ns (the (chunk_min c)) (the (chunk_max c)) from = Inr ()"
    and nm: "setVersion (ChunkVersion (majorVersion v + 1) 0 (epoch v)) mig = Inr nm"
    and nc: "(case ctl of None \<Rightarrow> Inr None
      | Some c \<Rightarrow> rbind (setVersion (ChunkVersion (majorVersion v + 1) 1 (epoch v)) c) (\<lambda>c'. Inr (Some c'))) = Inr nc"
    and mk: "makeCommitChunkApplyOpsCommand ns nm nc from to = Inr ops0" and run: "applyOps st ops0 [] = Inr st'"
    using migration_plan [OF assms(2)] .
  note d = findNewest_doc [OF ok doc(1)]
  have v': "epoch v = ep" "combined v = dlastmod doc"
    using fromConfigBSON_version [OF d(2) doc(2)] v by simp_all
  obtain n ops where n: "ops0 = upsertDoc False n # ops" "migrated_doc ns (the (chunk_version nm)) nm to n"
    "case nc of None \<Rightarrow> ops = []
     | Some c \<Rightarrow> \<exists>m. ops = [upsertDoc False m] \<and> migrated_doc ns (the (chunk_version c)) c from m"
    using makeCommit_docs [OF mk] .
  show thesis
  proof (rule that [of v n ops])
    show "migrated_doc ns (ChunkVersion (majorVersion v + 1) 0 ep) mig to n"
      "isSet (ChunkVersion (majorVersion v + 1) 0 ep)"
      using n(2) nm v'(1) by (auto simp: migrated_doc_def setVersion_def rbind_Inr_iff)
    show "case ctl of None \<Rightarrow> ops = []
     | Some c \<Rightarrow> checkChunkIsOnShard st ns (the (chunk_min c)) (the (chunk_max c)) from = Inr () \<and>
        (\<exists>m. ops = [upsertDoc False m] \<and> migrated_doc ns (ChunkVersion (majorVersion v + 1) 1 ep) c from m)"
      using n(3) nc on(2) v'(1)
      by (cases ctl) (auto simp: migrated_doc_def setVersion_def rbind_Inr_iff)
  qed (use on run n(1) d v' in \<open>simp_all add: applyOps_def\<close>)
qed

abbreviation ct_ivl :: "chunk_type \<Rightarrow> bson_key \<times> bson_key" where
  "ct_ivl c \<equiv> (keyOf (the (chunk_min c)), keyOf (the (chunk_max c)))"

lemma migrate_one:
  assumes ok: "config_ok ns ep a b st" and d0: "d0 \<in> ns_docs ns st" "doc_ivl d0 = ct_ivl c"
    and app: "applyOperation st (upsertDoc u n) = Inr st1" and n: "migrated_doc ns (ChunkVersion x y ep) c sh n"
  shows "config_ok ns ep a b st1" "ns_docs ns st1 = (ns_docs ns st - {d0}) \<union> {n}"
    "owner ns st1 k s \<longleftrightarrow> (if k \<in> ivl (ct_ivl c) then s = sh else owner ns st k s)"
proof -
  have n': "doc_ok ns ep n" "doc_ivl n = doc_ivl d0" "dshard n = sh"
    using n d0(2) by (auto simp: migrated_doc_def)
  note r = replace_one [OF ok app n'(1) d0(1) n'(2)]
  show "config_ok ns ep a b st1" "ns_docs ns st1 = (ns_docs ns st - {d0}) \<union> {n}"
    using r by simp_all
  show "owner ns st1 k s \<longleftrightarrow> (if k \<in> ivl (ct_ivl c) then s = sh else owner ns st k s)"
    using owner_replace [OF ok r(2) d0(1) n'(2)] d0(2) n'(3) by simp
qed

lemma migration_moves:
  assumes ok: "config_ok ns ep a b st" and commit: "commitChunkMigration st ns mig ctl collEpoch from to = (st', Inr out)"
    and other: "\<forall>c. ctl = Some c \<longrightarrow> fst (ct_ivl c) \<noteq> fst (ct_ivl mig)"
  shows "config_ok ns ep a b st'"
    "\<forall>k s. owner ns st' k s \<longleftrightarrow> (if k \<in> ivl (ct_ivl mig) then s = to else owner ns st k s)"
    "\<forall>k\<in>ivl (ct_ivl mig). owner ns st k from"
    "\<exists>n\<in>ns_docs ns st'. doc_ivl n = ct_ivl mig \<and> dshard n = to \<and> (\<forall>d\<in>ns_docs ns st. dlastmod d < dlastmod n)"
    "\<forall>d\<in>ns_docs ns st'. d \<in> ns_docs ns st \<or> (\<forall>e\<in>ns_docs ns st. dlastmod e < dlastmod d)"
proof -
  obtain v n ops where v: "epoch v = ep" "\<forall>d\<in>ns_docs ns st. dlastmod d \<le> combined v"
      "isSet (ChunkVersion (majorVersion v + 1) 0 ep)"
    and on: "checkChunkIsOnShard st ns (the (chunk_min mig)) (the (chunk_max mig)) from = Inr ()"
    and n: "migrated_doc ns (ChunkVersion (majorVersion v + 1) 0 ep) mig to n"
    and app: "applyOperations st (upsertDoc False n # ops) = Inr st'"
    and ctl: "case ctl of None \<Rightarrow> ops = []
     | Some c \<Rightarrow> checkChunkIsOnShard st ns (the (chunk_min c)) (the (chunk_max c)) from = Inr () \<and>
        (\<exists>m. ops = [upsertDoc False m] \<and> migrated_doc ns (ChunkVersion (majorVersion v + 1) 1 ep) c from m)"
    using migration_steps [OF ok commit] .
  obtain st1 where st1: "applyOperation st (upsertDoc False n) = Inr st1" "applyOperations st1 ops = Inr st'"
    using app by (auto simp: rbind_Inr_iff)
  obtain d0 where d0: "d0 \<in> ns_docs ns st" "doc_ivl d0 = ct_ivl mig" "dshard d0 = from"
    using on_shard_doc [OF on ok] by auto
  note m1 = migrate_one [OF ok d0(1,2) st1(1) n]
  have newer: "\<forall>d\<in>ns_docs ns st. dlastmod d < dlastmod x" if "migrated_doc ns (ChunkVersion (majorVersion v + 1) y ep) c s x" for c s x y
    using v(2) next_major [OF v(3), of y ep] that by (auto simp: migrated_doc_def intro: order_le_less_trans)
  show "\<forall>k\<in>ivl (ct_ivl mig). owner ns st k from"
    using owner_unique [OF ok d0(1)] d0(2,3) by auto
  have nd: "doc_ivl n = ct_ivl mig" "dshard n = to"
    using n by (auto simp: migrated_doc_def)
  have "config_ok ns ep a b st' \<and> n \<in> ns_docs ns st' \<and> (\<forall>k s. owner ns st' k s \<longleftrightarrow> owner ns st1 k s)
    \<and> (\<forall>d\<in>ns_docs ns st'. d \<in> ns_docs ns st \<or> (\<forall>e\<in>ns_docs ns st. dlastmod e < dlastmod d))"
  proof (cases ctl)
    case None
    then show ?thesis
      using ctl st1(2) m1 newer [OF n] by auto
  next
    case (Some c)
    then obtain m where m: "ops = [upsertDoc False m]" "migrated_doc ns (ChunkVersion (majorVersion v + 1) 1 ep) c from m"
      and onc: "checkChunkIsOnShard st ns (the (chunk_min c)) (the (chunk_max c)) from = Inr ()"
      using ctl by auto
    obtain d1 where d1: "d1 \<in> ns_docs ns st" "doc_ivl d1 = ct_ivl c" "dshard d1 = from"
      using on_shard_doc [OF onc ok] by auto
    have ne: "doc_ivl d1 \<noteq> doc_ivl d0" "d1 \<noteq> n"
      using d0(2) d1(2) nd(1) other Some by auto
    then have d1': "d1 \<in> ns_docs ns st1"
      using d1(1) m1(2) by auto
    have st2: "applyOperation st1 (upsertDoc False m) = Inr st'"
      using st1(2) m(1) by (simp add: rbind_Inr_iff)
    note m2 = migrate_one [OF m1(1) d1' d1(2) st2 m(2)]
    show ?thesis
      using m2 ne(2) m1(2) owner_unique [OF m1(1) d1'] d1(2,3) newer [OF n] newer [OF m(2)] by auto
  qed
  then show "config_ok ns ep a b st'"
    "\<forall>k s. owner ns st' k s \<longleftrightarrow> (if k \<in> ivl (ct_ivl mig) then s = to else owner ns st k s)"
    "\<exists>n\<in>ns_docs ns st'. doc_ivl n = ct_ivl mig \<and> dshard n = to \<and> (\<forall>d\<in>ns_docs ns st. dlastmod d < dlastmod n)"
    "\<forall>d\<in>ns_docs ns st'. d \<in> ns_docs ns st \<or> (\<forall>e\<in>ns_docs ns st. dlastmod e < dlastmod d)"
    using m1(3) nd newer [OF n] by auto
qed

subsection \<open>Merges\<close>

definition merge_part :: "string \<Rightarrow> string \<Rightarrow> chunk_type \<Rightarrow> bool" where
  "merge_part ns sh c \<longleftrightarrow> chunk_ns c = Some ns \<and> chunk_shard c = Some sh \<and> chunk_min c \<noteq> None \<and> chunk_max c \<noteq> None
     \<and> chunk_jumbo c = None"

lemma chunksToMerge_Inr:
  assumes "chunksToMerge it bounds = Inr cs" "chunk_ns it = Some ns" "chunk_shard it = Some sh" "chunk_max it = Some b0"
    "chunk_jumbo it = None"
  shows "map (\<lambda>c. the (chunk_min c)) cs = butlast (b0 # bounds) \<and> map (\<lambda>c. the (chunk_max c)) cs = bounds
    \<and> (\<forall>c\<in>set cs. merge_part ns sh c)
    \<and> tiles (keyOf b0) (map ct_ivl cs) (keyOf (last (b0 # bounds)))"
  using assms
proof (induction it bounds arbitrary: cs b0 rule: chunksToMerge.induct)
  case (2 it bound bounds)
  define c where "c = it\<lparr>chunk_min := Some b0, chunk_max := Some bound\<rparr>"
  from "2.prems" obtain cs' where order: "\<not> woCompare bound b0 \<le> 0" and ne: "b0 \<noteq> []" "bound \<noteq> []"
    and cs': "chunksToMerge c bounds = Inr cs'" "cs = c # cs'"
    by (auto simp: setMin_def setMax_def c_def rbind_Inr_iff)
  have IH: "map (\<lambda>c. the (chunk_min c)) cs' = butlast (bound # bounds) \<and> map (\<lambda>c. the (chunk_max c)) cs' = bounds
    \<and> (\<forall>c\<in>set cs'. merge_part ns sh c)
    \<and> tiles (keyOf bound) (map ct_ivl cs') (keyOf (last (bound # bounds)))"
    using "2.IH" [of "it\<lparr>chunk_min := Some b0\<rparr>" "()" c cs' bound] cs'(1) order ne "2.prems"(2-5)
    by (simp add: setMin_def setMax_def c_def)
  have "keyOf b0 < keyOf bound" "merge_part ns sh c"
    using order "2.prems"(2-5) by (auto simp: key_simps c_def merge_part_def)
  then show ?case
    using IH unfolding cs'(2) by (auto simp: c_def)
qed simp

lemma toConfigBSON_doc:
  assumes "toConfigBSON c = Inr d" "merge_part ns sh c" "chunk_version c = Some v"
  shows "migrated_doc ns v c sh d" "getName c = Inr (did d)"
  using assms
  by (auto simp: merge_part_def toConfigBSON_def opt_field_def getName_def appendForChunk_def addToBSON_def
      toBSONWithPrefix_def migrated_doc_def doc_ok_def did_def dmin_def dmax_def dshard_def dlastmod_def rbind_Inr_iff)

lemma deleteOps_run:
  assumes "deleteOps cs = Inr ops"
  shows "applyOperations st ops = Inr (filter (\<lambda>d. \<forall>c\<in>set cs. \<forall>s. getName c = Inr s \<longrightarrow> \<not> docHasId (String s) d) st)"
  using assms
proof (induction cs arbitrary: ops st)
  case (Cons c cs)
  then show ?case
    by (auto simp: rbind_Inr_iff intro!: filter_cong)
qed simp

lemma precondition_docs:
  assumes "checkPrecondition st (buildMergeChunksApplyOpsPrecond cs v) = Inr ()" "config_ok ns ep a b st"
    "\<forall>c\<in>set cs. merge_part ns sh c"
  shows "\<forall>c\<in>set cs. \<exists>d\<in>ns_docs ns st. doc_ivl d = ct_ivl c \<and> dshard d = sh"
  using assms
proof (induction cs)
  case (Cons c cs)
  let ?p = "\<lparr>pre_query = [(''ns'', String ns), (''min'', Object (the (chunk_min c))), (''max'', Object (the (chunk_max c)))],
      pre_res = [(''lastmodEpoch'', JstOID (epoch v)), (''shard'', String sh)]\<rparr>"
  have eq: "buildMergeChunksApplyOpsPrecond (c # cs) v = ?p # buildMergeChunksApplyOpsPrecond cs v"
    using Cons.prems(3) by (simp add: buildMergeChunksApplyOpsPrecond_def merge_part_def)
  have "checkPrecondition st [?p] = Inr ()" "checkPrecondition st (buildMergeChunksApplyOpsPrecond cs v) = Inr ()"
    using Cons.prems(1) unfolding eq by (auto simp: Let_def split: if_splits)
  then show ?case
    using precondition_doc [OF _ Cons.prems(2), of "the (chunk_min c)" "the (chunk_max c)" "epoch v" sh] Cons.IH Cons.prems(2,3)
    by (metis list.set_intros(2) set_ConsD)
qed simp

lemma merge_updates:
  assumes "buildMergeChunksApplyOpsUpdates (c # cs) w = Inr updates" "\<forall>c\<in>set (c # cs). merge_part ns sh c"
  obtains n ops where "updates = upsertDoc False n # ops" "deleteOps cs = Inr ops" "doc_ok ns (epoch w) n"
    "dmin n = the (chunk_min c)" "dmax n = the (chunk_max (last (c # cs)))" "dshard n = sh" "dlastmod n = combined w"
proof -
  define m where "m = c\<lparr>chunk_max := Some (the (chunk_max (last (c # cs)))), chunk_version := Some w\<rparr>"
  obtain n name ops where n: "toConfigBSON m = Inr n" "getName m = Inr name" "deleteOps cs = Inr ops"
    "updates = UpdateOp False n [(''_id'', String name)] # ops"
    using assms(1)
    by (auto simp: buildMergeChunksApplyOpsUpdates_def setMax_def setVersion_def m_def rbind_Inr_iff)
  have "merge_part ns sh m" "chunk_version m = Some w"
    using assms(2) by (auto simp: merge_part_def m_def)
  note d = toConfigBSON_doc [OF n(1) this]
  show thesis
    by (rule that [of n ops]) (use d n(2-4) in \<open>auto simp: upsertDoc_def migrated_doc_def m_def\<close>)
qed

lemma merge_plan:
  assumes ok: "config_ok ns ep a b st" and "commitChunkMerge st ns requestEpoch bnds sh = (st', Inr ())"
  obtains c cs v n ops where "tiles (keyOf (hd bnds)) (map ct_ivl (c # cs)) (keyOf (last bnds))"
    "map (\<lambda>c. the (chunk_min c)) (c # cs) = butlast bnds" "\<forall>c\<in>set (c # cs). merge_part ns sh c"
    "checkPrecondition st (buildMergeChunksApplyOpsPrecond (c # cs) v) = Inr ()"
    "doc_ok ns ep n" "dmin n = hd bnds" "dmax n = last bnds" "dshard n = sh" "\<forall>d\<in>ns_docs ns st. dlastmod d < dlastmod n"
    "deleteOps cs = Inr ops" "applyOperations st (upsertDoc False n # ops) = Inr st'"
proof -
  define plan where "plan = rbind (invariant (bnds \<noteq> [])) (\<lambda>_.
        rbind (getMaxChunkVersionFromQueryResponse (findNewest st [(''ns'', String ns)])) (\<lambda>collVersion.
        rbind (uassert StaleEpoch (epoch collVersion = requestEpoch)) (\<lambda>_.
        rbind (setMax (hd bnds) ChunkType_empty) (\<lambda>c1.
        rbind (setNS ns c1) (\<lambda>c2.
        rbind (setShard sh c2) (\<lambda>itChunk.
        rbind (chunksToMerge itChunk (tl bnds)) (\<lambda>chunks.
        rbind (incMinor collVersion) (\<lambda>mergeVersion.
        rbind (buildMergeChunksApplyOpsUpdates chunks mergeVersion) (\<lambda>updates.
          Inr (updates, buildMergeChunksApplyOpsPrecond chunks collVersion, mergeVersion))))))))))"
  obtain updates preCond w where plan: "plan = Inr (updates, preCond, w)" and
    rest: "applyChunkOpsDeprecated st updates preCond ns w = (st', Inr ())"
    using assms(2) unfolding commitChunkMerge_def plan_def [symmetric] Let_def by (cases plan) auto
  obtain v c1 c2 it chunks where bnds: "bnds \<noteq> []"
    and v: "getMaxChunkVersionFromQueryResponse (findNewest st [(''ns'', String ns)]) = Inr v"
    and it: "setMax (hd bnds) ChunkType_empty = Inr c1" "setNS ns c1 = Inr c2" "setShard sh c2 = Inr it"
    and chunks: "chunksToMerge it (tl bnds) = Inr chunks" and w: "incMinor v = Inr w"
    and upd: "buildMergeChunksApplyOpsUpdates chunks w = Inr updates"
    and pre: "preCond = buildMergeChunksApplyOpsPrecond chunks v"
    using plan unfolding plan_def rbind_Inr_iff invariant_Inr by blast
  note cv = config_version [OF ok v]
  have newer: "\<forall>d\<in>ns_docs ns st. dlastmod d < combined w" and ew: "epoch w = ep"
    using cv incMinor_Inr [OF w] by (auto intro: order_le_less_trans)
  obtain c cs where cs: "chunks = c # cs"
    using upd by (cases chunks) (auto simp: buildMergeChunksApplyOpsUpdates_def)
  have it': "chunk_ns it = Some ns" "chunk_shard it = Some sh" "chunk_max it = Some (hd bnds)" "chunk_jumbo it = None"
    using it by (auto simp: setMax_def setNS_def setShard_def ChunkType_empty_def rbind_Inr_iff)
  have parts: "map (\<lambda>c. the (chunk_min c)) (c # cs) = butlast bnds" "map (\<lambda>c. the (chunk_max c)) (c # cs) = tl bnds"
    "\<forall>c\<in>set (c # cs). merge_part ns sh c" "tiles (keyOf (hd bnds)) (map ct_ivl (c # cs)) (keyOf (last bnds))"
    using chunksToMerge_Inr [OF chunks it', unfolded list.collapse [OF bnds] cs] by (elim conjE; simp only:)+
  have ends: "the (chunk_min c) = hd bnds" "the (chunk_max (last (c # cs))) = last bnds"
  proof -
    show "the (chunk_min c) = hd bnds"
      using parts(1) bnds by (cases bnds) (auto split: if_splits)
    have "the (chunk_max (last (c # cs))) = last (map (\<lambda>c. the (chunk_max c)) (c # cs))"
      by (rule last_map [symmetric]) simp
    also have "\<dots> = last bnds"
      unfolding parts(2) using parts(2) by (cases bnds) auto
    finally show "the (chunk_max (last (c # cs))) = last bnds" .
  qed
  obtain n ops where n: "updates = upsertDoc False n # ops" "deleteOps cs = Inr ops" "doc_ok ns (epoch w) n"
    "dmin n = the (chunk_min c)" "dmax n = the (chunk_max (last (c # cs)))" "dshard n = sh" "dlastmod n = combined w"
    using merge_updates [OF upd [unfolded cs] parts(3)] .
  have "\<forall>d\<in>ns_docs ns st. dlastmod d \<noteq> combined w"
    using newer by auto
  then have run: "applyOps st updates preCond = Inr st'"
    using rest no_such_version [OF ok] by (auto split: sum.splits)
  show thesis
    by (rule that [of c cs v n ops, OF parts(4,1,3) _ n(3) [unfolded ew] n(4) [unfolded ends] n(5) [unfolded ends] n(6) _ n(2)])
      (use run newer n in \<open>simp_all add: applyOps_def pre cs rbind_Inr_iff\<close>)
qed

definition merged_into :: "string \<Rightarrow> store \<Rightarrow> store \<Rightarrow> bson_obj list \<Rightarrow> bson_obj \<Rightarrow> bool" where
  "merged_into ns st st' old n \<longleftrightarrow> set old \<subseteq> ns_docs ns st \<and> old \<noteq> [] \<and>
     tiles (keyOf (dmin n)) (map doc_ivl old) (keyOf (dmax n)) \<and> (\<forall>d\<in>set old. dshard d = dshard n) \<and>
     ns_docs ns st' = (ns_docs ns st - set old) \<union> {n} \<and> (\<forall>d\<in>ns_docs ns st. dlastmod d < dlastmod n)"

lemma tiles_distinct: "tiles a (map f ds) b \<Longrightarrow> distinct ds"
  using tiles_distinct_starts [of a f ds b] by (auto simp: distinct_map)

text \<open>The updates of a merge: the first chunk gets the document of the merged chunk, the others are deleted.\<close>

lemma merge_run:
  assumes ok: "config_ok ns ep a b st" and old: "set (d0 # old) \<subseteq> ns_docs ns st" "distinct (d0 # old)"
    and n: "doc_ok ns ep n" "keyOf (dmin n) = keyOf (dmin d0)"
    and names: "map getName cs = map (\<lambda>d. Inr (did d)) old" and ops: "deleteOps cs = Inr ops"
    and run: "applyOperations st (upsertDoc False n # ops) = Inr st'"
  shows "ns_docs ns st' = (ns_docs ns st - set (d0 # old)) \<union> {n}" "uniqueKeys st'" "ids_unique st'"
proof -
  obtain st1 where st1: "applyOperation st (upsertDoc False n) = Inr st1" "applyOperations st1 ops = Inr st'"
    using run by (auto simp: rbind_Inr_iff)
  have d0: "d0 \<in> ns_docs ns st" "d0 \<in> set st" "doc_ok ns ep d0" and ids: "ids_unique st"
    and okd: "\<And>d. d \<in> ns_docs ns st \<Longrightarrow> doc_ok ns ep d"
    using old ok by (auto simp: ns_docs_def config_ok_def)
  note r = applyOperation_replaces [OF st1(1) ok n(1) d0(1) n(2)]
  define dead where "dead = (\<lambda>d. \<exists>e\<in>set old. docHasId (String (did e)) d)"
  have nm: "(\<exists>c\<in>set cs. getName c = Inr s) \<longleftrightarrow> (\<exists>e\<in>set old. s = did e)" for s
    using arg_cong [OF names, of "\<lambda>xs. Inr s \<in> set xs"] by auto (metis imageI)+
  have "(\<forall>c\<in>set cs. \<forall>s. getName c = Inr s \<longrightarrow> \<not> docHasId (String s) d)
      \<longleftrightarrow> (\<forall>s. (\<exists>c\<in>set cs. getName c = Inr s) \<longrightarrow> \<not> docHasId (String s) d)" for d
    by blast
  then have "(\<forall>c\<in>set cs. \<forall>s. getName c = Inr s \<longrightarrow> \<not> docHasId (String s) d) \<longleftrightarrow> \<not> dead d" for d
    unfolding dead_def nm by auto
  then have st': "st' = filter (\<lambda>d. \<not> dead d) st1"
    using deleteOps_run [OF ops, of st1] st1(2) by simp
  show "uniqueKeys st'" "ids_unique st'"
    using r(2) ids_unique_replace [OF ids d0(3) n(1) r(3)] r(1)
    by (simp_all add: st' uniqueKeys_sorted ids_unique_def sorted_wrt_filter)
  have dead: "dead d \<longleftrightarrow> d \<in> set old" if "d \<in> set st" for d
  proof -
    have "docHasId (String (did e)) e" "e \<in> set st" if "e \<in> set old" for e
      using that old(1) okd [of e] docHasId_doc by (auto simp: ns_docs_def)
    then show ?thesis
      using ids_uniqueD [OF ids that] unfolding dead_def by blast
  qed
  have "\<not> dead n"
    using dead [OF d0(2)] old(2) r(3) docHasId_doc [OF n(1)] docHasId_doc [OF d0(3)] by (auto simp: dead_def)
  then have "set st' = (set st - set (d0 # old)) \<union> {n}"
    using dead d0(2) by (auto simp: st' r(1) replaceDoc_def)
  then show "ns_docs ns st' = (ns_docs ns st - set (d0 # old)) \<union> {n}"
    using doc_ok_in_ns [OF n(1)] by (auto simp: ns_docs_def)
qed

lemma merge_preserves:
  assumes ok: "config_ok ns ep a b st" and commit: "commitChunkMerge st ns requestEpoch bnds sh = (st', Inr ())"
    and exact: "\<forall>d\<in>ns_docs ns st. \<forall>x\<in>set bnds. keyOf (dmin d) = keyOf x \<longrightarrow> dmin d = x"
  shows "config_ok ns ep a b st' \<and> (\<exists>old n. merged_into ns st st' old n \<and> dmin n = hd bnds \<and> dmax n = last bnds \<and> dshard n = sh)"
proof -
  obtain c cs v n ops where t: "tiles (keyOf (hd bnds)) (map ct_ivl (c # cs)) (keyOf (last bnds))"
    and mins: "map (\<lambda>c. the (chunk_min c)) (c # cs) = butlast bnds" and parts: "\<forall>c\<in>set (c # cs). merge_part ns sh c"
    and pre: "checkPrecondition st (buildMergeChunksApplyOpsPrecond (c # cs) v) = Inr ()"
    and n: "doc_ok ns ep n" "dmin n = hd bnds" "dmax n = last bnds" "dshard n = sh" "\<forall>d\<in>ns_docs ns st. dlastmod d < dlastmod n"
    and ops: "deleteOps cs = Inr ops" and run: "applyOperations st (upsertDoc False n # ops) = Inr st'"
    using merge_plan [OF ok commit] .
  have "\<forall>c\<in>set (c # cs). \<exists>d. d \<in> ns_docs ns st \<and> doc_ivl d = ct_ivl c \<and> dshard d = sh"
    using precondition_docs [OF pre ok parts] by blast
  then obtain f where f: "\<forall>c\<in>set (c # cs). f c \<in> ns_docs ns st \<and> doc_ivl (f c) = ct_ivl c \<and> dshard (f c) = sh"
    by (rule bchoice [THEN exE])
  let ?old = "map f (c # cs)"
  have told: "tiles (keyOf (dmin n)) (map doc_ivl ?old) (keyOf (dmax n))"
  proof -
    have "map doc_ivl ?old = map ct_ivl (c # cs)"
      using f by simp
    then show ?thesis
      using t n(2,3) by (simp only:)
  qed
  have old: "set ?old \<subseteq> ns_docs ns st" "\<forall>d\<in>set ?old. dshard d = sh"
    using f by auto
  have "getName c' = Inr (did (f c'))" if "c' \<in> set (c # cs)" for c'
  proof -
    have "the (chunk_min c') \<in> set bnds"
      using that mins in_set_butlastD by (metis (no_types, lifting) image_eqI list.set_map)
    then have "dmin (f c') = the (chunk_min c')"
      using exact f that by auto
    moreover have "doc_ok ns ep (f c')"
      using f that ok by (auto simp: config_ok_def)
    ultimately show ?thesis
      using parts that by (auto simp: merge_part_def getName_def doc_ok_def)
  qed
  then have names: "map getName cs = map (\<lambda>d. Inr (did d)) (map f cs)"
    by simp
  have "keyOf (dmin n) = keyOf (dmin (f c))"
    using tiles_ends [OF told] by simp
  note r = merge_run [OF ok _ _ n(1) this names ops run]
  have r': "ns_docs ns st' = (ns_docs ns st - set ?old) \<union> {n}" "uniqueKeys st'" "ids_unique st'"
    using r old(1) tiles_distinct [OF told] by simp_all
  have "keyOf (dmin n) < keyOf (dmax n)"
    using tiles_mem [OF told, of "doc_ivl (f c)"] by (auto intro: order_less_le_trans order_le_less_trans)
  then have new: "tiles (keyOf (dmin n)) (map doc_ivl [n]) (keyOf (dmax n))"
    by simp
  have "covers_once doc_ivl (ns_docs ns st') a b"
    unfolding r'(1) using covers_once_replace [OF _ old(1) told, of a b "[n]"] ok new
    by (simp add: config_ok_def)
  then have "config_ok ns ep a b st'"
    using r' n(1) ok by (auto simp: config_ok_def)
  moreover have "merged_into ns st st' ?old n"
    unfolding merged_into_def using old told r'(1) n(4,5) by (intro conjI) (simp_all only: list.map, simp_all)
  ultimately show ?thesis
    using n(2-4) by blast
qed

end
