(* ===== verification/Config_Commits.thy ===== *)
theory Config_Commits
  imports Config_Invariant
begin

text \<open>
  The commits of splits, merges and migrations on the config server as one step relation: each
  step keeps the metadata invariant, and failed commits leave the collection as it was. A split at
  valid points always commits.
\<close>

subsection \<open>Splits that commit\<close>

definition doc_version :: "oid \<Rightarrow> bson_obj \<Rightarrow> chunk_version" where
  "doc_version ep d = \<lparr>combined = dlastmod d, epoch = ep\<rparr>"

lemma incMinor_room:
  assumes "unat (minorVersion v) + 1 < 2 ^ 32"
  obtains w where "incMinor v = Inr w" "unat (minorVersion w) = unat (minorVersion v) + 1"
proof -
  have "minorVersion v \<noteq> 0xFFFFFFFF"
    using assms by auto
  then have "incMinor v = Inr (ChunkVersion (majorVersion v) (minorVersion v + 1) (epoch v))"
    by (simp add: incMinor_eq)
  moreover have "unat (minorVersion v + 1) = unat (minorVersion v) + 1"
    using assms by (simp add: unat_word_ariths)
  ultimately show thesis
    using that by simp
qed

definition valid_end :: "chunk_range \<Rightarrow> bson_obj \<Rightarrow> bool" where
  "valid_end rng k \<longleftrightarrow> k \<noteq> [] \<and> lo rng \<le> keyOf k \<and> keyOf k \<le> hi rng
     \<and> checkShardKeySize k = Inr () \<and> checkShardKeyIsValidForMetadataStorage k = Inr ()"

lemma splitUpdates_succeeds:
  assumes "sorted_wrt (\<lambda>x y. keyOf x < keyOf y) (start # ends)" "\<forall>k\<in>set ends. valid_end rng k" "start \<noteq> []"
    "\<forall>k\<in>set (butlast (start # ends)). \<exists>s. genID nss k = Inr s" "unat (minorVersion v) + length ends < 2 ^ 32"
  shows "\<exists>r. splitUpdates nss rng shard start v ends = Inr r"
  using assms
proof (induction ends arbitrary: start v)
  case (Cons e ends)
  obtain w where w: "incMinor v = Inr w" "unat (minorVersion w) = unat (minorVersion v) + 1"
    using Cons.prems(5) by (auto intro: incMinor_room [of v])
  obtain name where name: "genID nss start = Inr name"
    using Cons.prems(4) by auto
  have e: "valid_end rng e"
    using Cons.prems(2) by simp
  have "isSet w"
    using order_le_less_trans [OF word_zero_le incMinor_Inr(1) [OF w(1)]] by (simp add: isSet_def)
  then have c: "newChunk start e w = Inr \<lparr>chunk_ns = None, chunk_min = Some start, chunk_max = Some e,
      chunk_version = Some w, chunk_shard = None, chunk_jumbo = None\<rparr>"
    using Cons.prems(3) e by (simp add: newChunk_def setMin_def setMax_def setVersion_def ChunkType_empty_def valid_end_def)
  obtain r where r: "splitUpdates nss rng shard e w ends = Inr r"
    using Cons.IH [of e w] Cons.prems w(2) e by (auto simp: valid_end_def)
  have "\<not> (woCompare e (maxKey rng) \<noteq> 0 \<and> \<not> containsKey rng e)" "\<not> woCompare e start < 0" "woCompare e start \<noteq> 0"
    using e Cons.prems(1) by (auto simp: valid_end_def key_simps range_defs)
  then show ?case
    using e r w(1) name c by (cases r) (auto simp: valid_end_def chunkDocument_def addToBSON_def toBSONWithPrefix_def)
qed simp

lemma findNewest_Some: "d \<in> set (findOnConfig st q) \<Longrightarrow> \<exists>e. findNewest st q = Some e \<and> e \<in> set (findOnConfig st q)"
  using newest_mem [of "findOnConfig st q"]
  by (cases "findOnConfig st q") (auto simp: findNewest_def split: option.splits)

lemma same_range:
  assumes "config_ok ns ep a b st" "d \<in> ns_docs ns st" "e \<in> ns_docs ns st" "keyOf (dmin e) \<in> ivl (doc_ivl d)"
  shows "e = d"
proof -
  have "keyOf (dmin e) \<in> ivl (doc_ivl e)" "a \<le> keyOf (dmin e)" "keyOf (dmin e) < b"
    using assms by (auto simp: config_ok_def covers_once_def ivl_def intro: order_less_le_trans)
  then show ?thesis
    using assms by (auto simp: config_ok_def covers_once_def)
qed

lemma precondition_holds:
  assumes "config_ok ns ep a b st" "d0 \<in> ns_docs ns st" "doc_ivl d0 = (keyOf mn, keyOf mx)" "dshard d0 = sh"
  shows "checkPrecondition st [\<lparr>pre_query = [(''ns'', String ns), (''min'', Object mn), (''max'', Object mx)],
      pre_res = [(''lastmodEpoch'', JstOID ep), (''shard'', String sh)]\<rparr>] = Inr ()"
proof -
  let ?q = "[(''ns'', String ns), (''min'', Object mn), (''max'', Object mx)]"
  have ok: "doc_ok ns ep d0" "d0 \<in> set st"
    using assms(1,2) by (auto simp: config_ok_def ns_docs_def)
  have mem: "d0 \<in> set (findOnConfig st ?q)"
    using ok assms(3) doc_matches(1) [OF ok(1)] by (auto simp: findOnConfig_def)
  have only: "d = d0" if "d \<in> set (findOnConfig st ?q)" for d
  proof -
    have d: "d \<in> ns_docs ns st" "matchesQuery ?q d"
      using that matchesQuery_ns [of ?q d ns] by (auto simp: findOnConfig_def ns_docs_def)
    then have "doc_ok ns ep d"
      using assms(1) by (simp add: config_ok_def)
    then have "doc_ivl d = doc_ivl d0"
      using d(2) doc_matches(1) assms(3) by simp
    moreover have "keyOf (dmin d) \<in> ivl (doc_ivl d)"
      using d(1) assms(1) by (auto simp: config_ok_def covers_once_def ivl_def)
    ultimately show ?thesis
      using same_range [OF assms(1,2) d(1)] by simp
  qed
  have "findNewest st ?q = Some d0"
    using findNewest_Some [OF mem] only by blast
  then show ?thesis
    using doc_matches(2) [OF ok(1)] assms(4) by simp
qed

lemma uniqueKeys_replace:
  assumes "uniqueKeys st" "\<And>e. \<lbrakk>e \<in> set st; e \<noteq> d0\<rbrakk> \<Longrightarrow> \<not> conflict n e"
  shows "uniqueKeys (replaceDoc d0 n st)"
  using assms unfolding uniqueKeys_sorted
proof (induction st)
  case (Cons x xs)
  have IH: "sorted_wrt (\<lambda>d e. \<not> conflict d e) (replaceDoc d0 n xs)"
    using Cons by simp
  show ?case
  proof (cases "x = d0")
    case True
    then have "\<forall>e\<in>set xs. e \<noteq> d0"
      using Cons.prems(1) by auto
    then show ?thesis
      using IH True Cons.prems(2) by (auto simp: replaceDoc_def)
  next
    case False
    then have "\<not> conflict x n"
      using Cons.prems(2) [of x] conflict_sym [of x n] by simp
    then show ?thesis
      using IH Cons.prems(1) False by (auto simp: replaceDoc_def)
  qed
qed (simp add: replaceDoc_def)

lemma sorted_wrt_distinct:
  "\<lbrakk>distinct (map f xs); sorted_wrt R xs\<rbrakk> \<Longrightarrow> sorted_wrt (\<lambda>x y. f x \<noteq> f y \<and> R x y) xs"
  by (induction xs) auto

lemma split_uniqueKeys:
  assumes ok: "config_ok ns ep a b st" and d0: "d0 \<in> ns_docs ns st"
    and t: "tiles (keyOf (dmin d0)) (map doc_ivl (n # ds)) (keyOf (dmax d0))"
    and new: "\<forall>d\<in>set (n # ds). doc_ok ns ep d \<and> (\<forall>e\<in>ns_docs ns st. dlastmod e < dlastmod d)"
    and up: "sorted_wrt (\<lambda>d e. dlastmod d < dlastmod e) (n # ds)"
  shows "uniqueKeys (replaceDoc d0 n st @ ds)"
proof -
  have free: "\<not> conflict x e" if "x \<in> set (n # ds)" "e \<in> set st" "e \<noteq> d0" for x e
  proof (cases "e \<in> ns_docs ns st")
    case True
    have "keyOf (dmin x) \<in> ivl (doc_ivl d0)"
      using tiles_mem [OF t, of "doc_ivl x"] that(1) by (auto simp: ivl_def)
    then have "keyOf (dmin x) \<noteq> keyOf (dmin e)"
      using same_range [OF ok d0 True] that(3) by auto
    moreover have "dlastmod e < dlastmod x"
      using new that(1) True by blast
    moreover have "doc_ok ns ep e"
      using ok True by (simp add: config_ok_def)
    ultimately show ?thesis
      using conflict_docs [of ns ep x ep e] new that(1) by auto
  next
    case False
    then show ?thesis
      using conflict_other [of ns x e] doc_ok_in_ns new that by (auto simp: ns_docs_def)
  qed
  have "distinct (map (\<lambda>d. keyOf (dmin d)) (n # ds))"
    using tiles_distinct_starts [OF t] by simp
  then have "sorted_wrt (\<lambda>d e. keyOf (dmin d) \<noteq> keyOf (dmin e) \<and> dlastmod d < dlastmod e) (n # ds)"
    using up by (rule sorted_wrt_distinct)
  moreover have "\<not> conflict d e"
    if "d \<in> set (n # ds)" "e \<in> set (n # ds)" "keyOf (dmin d) \<noteq> keyOf (dmin e) \<and> dlastmod d < dlastmod e" for d e
    using conflict_docs [of ns ep d ep e] new that by auto
  ultimately have fresh: "sorted_wrt (\<lambda>d e. \<not> conflict d e) (n # ds)"
    by (rule sorted_wrt_mono_rel [rotated])
  have "uniqueKeys (replaceDoc d0 n st)"
    using ok free [of n] by (intro uniqueKeys_replace) (auto simp: config_ok_def)
  moreover have "\<not> conflict d e" if "d \<in> set (replaceDoc d0 n st)" "e \<in> set ds" for d e
  proof (cases "d = n")
    case False
    then have "d \<in> set st" "d \<noteq> d0"
      using that(1) by (auto simp: replaceDoc_def split: if_splits)
    then show ?thesis
      using free [of e d] that(2) conflict_sym [of d e] by simp
  qed (use fresh that(2) in auto)
  ultimately show ?thesis
    using fresh by (simp add: uniqueKeys_sorted sorted_wrt_append)
qed

definition version_room :: "string \<Rightarrow> oid \<Rightarrow> store \<Rightarrow> nat \<Rightarrow> bool" where
  "version_room ns ep st n \<longleftrightarrow> (\<forall>d\<in>ns_docs ns st. majorVersion (doc_version ep d) \<noteq> 0xFFFFFFFF
     \<and> unat (minorVersion (doc_version ep d)) + n < 2 ^ 32)"

definition split_request :: "string \<Rightarrow> store \<Rightarrow> chunk_range \<Rightarrow> bson_obj list \<Rightarrow> bool" where
  "split_request ns st rng pts \<longleftrightarrow> minKey rng \<noteq> [] \<and> (\<forall>k\<in>set (pts @ [maxKey rng]). valid_end rng k)
     \<and> sorted_wrt (\<lambda>x y. keyOf x < keyOf y) (minKey rng # pts @ [maxKey rng])
     \<and> (\<forall>p\<in>set pts. \<exists>s. genID ns p = Inr s \<and> fresh_id st s) \<and> inj_on (genID ns) (set pts)"

lemma split_planned:
  assumes ok: "config_ok ns ep a b st" and d0: "d0 \<in> ns_docs ns st" "dmin d0 = minKey rng" "dshard d0 = sh"
    and req: "split_request ns st rng pts" and room: "version_room ns ep st (length pts + 1)"
  obtains v ops final where "epoch v = ep" "\<forall>d\<in>ns_docs ns st. dlastmod d \<le> combined v"
    "splitUpdates ns rng sh (minKey rng) v (pts @ [maxKey rng]) = Inr (ops, final)"
    "commitChunkSplit st ns ep rng pts sh = applyChunkOpsDeprecated st ops
       [\<lparr>pre_query = [(''ns'', String ns), (''min'', Object (minKey rng)), (''max'', Object (maxKey rng))],
         pre_res = [(''lastmodEpoch'', JstOID ep), (''shard'', String sh)]\<rparr>] ns final"
proof -
  let ?q = "[(''ns'', String ns), (''shard'', String sh)]"
  have d0': "doc_ok ns ep d0" "d0 \<in> set st"
    using ok d0(1) by (auto simp: config_ok_def ns_docs_def)
  have "d0 \<in> set (findOnConfig st ?q)" "d0 \<in> set (findOnConfig st [(''ns'', String ns)])"
    using d0' d0(3) by (auto simp: findOnConfig_def matchesQuery_def doc_ok_def)
  note found = findNewest_Some [OF this(1)] findNewest_Some [OF this(2)]
  obtain d where d: "findNewest st [(''ns'', String ns)] = Some d"
    using found(2) by blast
  obtain sv where sv: "getMaxChunkVersionFromQueryResponse (findNewest st ?q) = Inr sv"
    using found(1) by (auto simp: getMaxChunkVersionFromQueryResponse_def)
  note dd = findNewest_doc [OF ok d]
  define v0 where "v0 = doc_version ep d"
  have v0: "getMaxChunkVersionFromQueryResponse (findNewest st [(''ns'', String ns)]) = Inr v0"
    using d fromBSON_doc [OF dd(2)] by (simp add: getMaxChunkVersionFromQueryResponse_def v0_def doc_version_def)
  have rv: "majorVersion v0 \<noteq> 0xFFFFFFFF" "unat (minorVersion v0) + (length pts + 1) < 2 ^ 32"
    using room dd(1) by (auto simp: version_room_def v0_def)
  obtain v where v: "(if version_equals sv v0 then incMajor v0 else Inr v0) = Inr v"
    "epoch v = ep" "combined v0 \<le> combined v" "unat (minorVersion v) + (length pts + 1) < 2 ^ 32"
  proof (cases "version_equals sv v0")
    case True
    have i: "incMajor v0 = Inr (ChunkVersion (majorVersion v0 + 1) 0 (epoch v0))"
      using rv(1) by (simp add: incMajor_eq)
    show thesis
      by (rule that [of "ChunkVersion (majorVersion v0 + 1) 0 (epoch v0)"])
        (use True i incMajor_Inr [OF i] rv(2) in \<open>auto simp: v0_def doc_version_def\<close>)
  next
    case False
    then show thesis
      using rv(2) by (intro that [of v0]) (auto simp: v0_def doc_version_def)
  qed
  have "\<forall>k\<in>set (butlast (minKey rng # pts @ [maxKey rng])). \<exists>s. genID ns k = Inr s"
    using req d0(2) d0'(1) by (auto simp: split_request_def doc_ok_def butlast_append)
  then obtain ops final where upd: "splitUpdates ns rng sh (minKey rng) v (pts @ [maxKey rng]) = Inr (ops, final)"
    using splitUpdates_succeeds [of "minKey rng" "pts @ [maxKey rng]" rng ns v sh] req v(4)
    by (auto simp: split_request_def)
  have "epoch v0 = ep" "\<forall>d\<in>ns_docs ns st. dlastmod d \<le> combined v"
    using dd(3) v(3) by (auto simp: v0_def doc_version_def intro: order_trans)
  then show thesis
    using upd v0 sv v(1,2) by (intro that [of v ops final]) (simp_all add: commitChunkSplit_def)
qed

lemma batch_runs:
  assumes ok: "config_ok ns ep a b st" and d0: "d0 \<in> ns_docs ns st" and n: "doc_ok ns ep n" "dmin n = dmin d0"
    and u: "uniqueKeys (replaceDoc d0 n st @ ds)" and ds: "\<forall>d\<in>set ds. fresh_id st (did d) \<and> doc_ok ns ep d"
    "distinct (map did ds)"
  shows "applyOperations st (map (upsertDoc True) (n # ds)) = Inr (replaceDoc d0 n st @ ds)"
proof -
  have d0': "doc_ok ns ep d0" "d0 \<in> set st" and ids: "ids_unique st"
    using ok d0 by (auto simp: config_ok_def ns_docs_def)
  have id: "did n = did d0"
    using n d0'(1) by (simp add: doc_ok_def)
  have has: "docHasId (String (did n)) d0"
    using docHasId_doc [OF d0'(1)] id by simp
  have "docHasId (String (did n)) e \<longleftrightarrow> e = d0" if "e \<in> set st" for e
    using ids_uniqueD [OF ids that d0'(2)] has by blast
  then have st1: "map (\<lambda>e. if docHasId (String (did n)) e then n else e) st = replaceDoc d0 n st"
    by (simp add: replaceDoc_def)
  have "uniqueKeys (replaceDoc d0 n st)"
    using u by (rule uniqueKeys_append)
  then have one: "applyOperation st (upsertDoc True n) = Inr (replaceDoc d0 n st)"
    using applyOperation_found [OF d0'(2) has, of True] st1 by simp
  have "\<forall>d\<in>set ds. fresh_id (replaceDoc d0 n st) (did d)"
    using ds(1) d0'(2) id docHasId_doc [OF n(1)] docHasId_doc [OF d0'(1)]
    by (auto simp: replaceDoc_def fresh_id_def)
  then show ?thesis
    using applyOperations_fresh [OF u _ ds(2), of ns ep] ds(1) one by simp
qed

lemma split_ids:
  assumes "split_request ns st rng pts" "map dmin ds = pts" "\<forall>d\<in>set ds. doc_ok ns ep d"
    "sorted_wrt (\<lambda>x y. keyOf x < keyOf y) pts"
  shows "\<forall>d\<in>set ds. fresh_id st (did d)" "distinct (map did ds)"
proof -
  have id: "genID ns (dmin d) = Inr (did d)" if "d \<in> set ds" for d
    using assms(3) that by (simp add: doc_ok_def)
  show "\<forall>d\<in>set ds. fresh_id st (did d)"
    using assms(1,2) id by (fastforce simp: split_request_def)
  have "distinct pts"
    using assms(4) by (induction pts) auto
  then have "distinct (map (genID ns) pts)"
    using assms(1) by (simp add: distinct_map split_request_def)
  then have "distinct (map (\<lambda>d. Inr (did d) :: string result) ds)"
    using id unfolding assms(2) [symmetric] by (simp add: comp_def cong: map_cong)
  then show "distinct (map did ds)"
    by (simp add: distinct_map inj_on_def)
qed

lemma split_commits:
  assumes ok: "config_ok ns ep a b st" and d0: "d0 \<in> ns_docs ns st" "dmin d0 = minKey rng" "dmax d0 = maxKey rng" "dshard d0 = sh"
    and req: "split_request ns st rng pts" and room: "version_room ns ep st (length pts + 1)"
  shows "\<exists>st'. commitChunkSplit st ns ep rng pts sh = (st', Inr ())"
proof -
  obtain v ops final where v: "epoch v = ep" "\<forall>d\<in>ns_docs ns st. dlastmod d \<le> combined v"
    and upd: "splitUpdates ns rng sh (minKey rng) v (pts @ [maxKey rng]) = Inr (ops, final)"
    and run: "commitChunkSplit st ns ep rng pts sh = applyChunkOpsDeprecated st ops
       [\<lparr>pre_query = [(''ns'', String ns), (''min'', Object (minKey rng)), (''max'', Object (maxKey rng))],
         pre_res = [(''lastmodEpoch'', JstOID ep), (''shard'', String sh)]\<rparr>] ns final"
    using split_planned [OF ok d0(1,2,4) req room] .
  have ends: "last (minKey rng # pts @ [maxKey rng]) = maxKey rng"
    "butlast (minKey rng # pts @ [maxKey rng]) = minKey rng # pts"
    by (simp_all add: butlast_append)
  obtain ds' where ds': "ops = map (upsertDoc True) ds'" "tiles (lo rng) (map doc_ivl ds') (hi rng)"
    "map dmin ds' = minKey rng # pts"
    "\<forall>d\<in>set ds'. doc_ok ns ep d \<and> dshard d = sh \<and> combined v < dlastmod d"
    "sorted_wrt (\<lambda>d e. dlastmod d < dlastmod e) ds'"
  proof -
    show thesis
      using splitUpdates_Inr [OF upd, unfolded ends v(1)] by (elim exE conjE) (rule that; assumption)
  qed
  obtain n ds where n: "ds' = n # ds" "dmin n = minKey rng" "map dmin ds = pts"
    using ds'(3) by (cases ds') auto
  have new: "\<forall>d\<in>set (n # ds). doc_ok ns ep d \<and> (\<forall>e\<in>ns_docs ns st. dlastmod e < dlastmod d)"
    using ds'(4) v(2) n(1) by (meson order_le_less_trans)
  have u: "uniqueKeys (replaceDoc d0 n st @ ds)"
    by (rule split_uniqueKeys [OF ok d0(1) _ new]) (use ds'(2,5) n(1) d0(2,3) in \<open>simp_all only:\<close>)
  have "applyOperations st ops = Inr (replaceDoc d0 n st @ ds)"
    using batch_runs [OF ok d0(1) _ _ u] new split_ids [OF req n(3), of ep] ds'(1) n d0(2) req
    by (simp add: split_request_def sorted_wrt_append)
  then show ?thesis
    using precondition_holds [OF ok d0(1), of "minKey rng" "maxKey rng" sh] d0 run
    by (simp add: applyChunkOpsDeprecated_def applyOps_def)
qed

subsection \<open>The commits as steps\<close>

lemma merge_owner:
  assumes "config_ok ns ep a b st" "config_ok ns ep a b st'" "merged_into ns st st' old n"
  shows "owner ns st' k s \<longleftrightarrow> owner ns st k s"
proof (rule owner_refine [OF assms(1,2)])
  fix d k
  assume d: "d \<in> ns_docs ns st'" "k \<in> ivl (doc_ivl d)"
  show "owner ns st k (dshard d)"
  proof (cases "d = n")
    case True
    have t: "tiles (keyOf (dmin n)) (map doc_ivl old) (keyOf (dmax n))"
      using assms(3) by (simp add: merged_into_def)
    obtain o1 where "o1 \<in> set old" "k \<in> ivl (doc_ivl o1)"
      using tiles_ex1_map [OF t, of k] d(2) True by (auto simp: ivl_def)
    then show ?thesis
      using assms(3) True by (auto simp: merged_into_def owner_def)
  next
    case False
    then show ?thesis
      using d assms(3) by (auto simp: merged_into_def owner_def)
  qed
qed

text \<open>A commit on the config server; a request that fails is a step, too.\<close>

inductive config_step :: "string \<Rightarrow> store \<Rightarrow> store \<Rightarrow> bool" for ns where
  split: "\<lbrakk>commitChunkSplit st ns requestEpoch rng pts sh = (st', r);
    \<forall>p\<in>set pts. \<forall>s. genID ns p = Inr s \<longrightarrow> fresh_id st s; inj_on (genID ns) (set pts)\<rbrakk> \<Longrightarrow> config_step ns st st'"
| merge: "\<lbrakk>commitChunkMerge st ns requestEpoch bnds sh = (st', r);
    \<forall>d\<in>ns_docs ns st. \<forall>x\<in>set bnds. keyOf (dmin d) = keyOf x \<longrightarrow> dmin d = x\<rbrakk> \<Longrightarrow> config_step ns st st'"
| migrate: "\<lbrakk>commitChunkMigration st ns mig ctl collEpoch from to = (st', m);
    \<forall>c. ctl = Some c \<longrightarrow> fst (ct_ivl c) \<noteq> fst (ct_ivl mig)\<rbrakk> \<Longrightarrow> config_step ns st st'"

lemma failed_batch: "applyChunkOpsDeprecated st ops pre ns v = (st', Inl f) \<Longrightarrow> st' = st"
  by (auto simp: applyChunkOpsDeprecated_def split: sum.splits)

lemma failed_commit:
  "commitChunkSplit st ns e rng pts sh = (st', Inl f) \<Longrightarrow> st' = st"
  "commitChunkMerge st ns e bnds sh = (st', Inl f) \<Longrightarrow> st' = st"
  "commitChunkMigration st ns mig ctl e from to = (st', Inl f) \<Longrightarrow> st' = st"
  by (auto simp: commitChunkSplit_def commitChunkMerge_def commitChunkMigration_def Let_def dest: failed_batch
      split: sum.splits)

definition versions_grow :: "string \<Rightarrow> store \<Rightarrow> store \<Rightarrow> bool" where
  "versions_grow ns st st' \<longleftrightarrow> (\<forall>d\<in>ns_docs ns st. \<exists>e\<in>ns_docs ns st'. dlastmod d \<le> dlastmod e)"

definition renews :: "string \<Rightarrow> store \<Rightarrow> store \<Rightarrow> bool" where
  "renews ns st st' \<longleftrightarrow>
     (\<forall>d\<in>ns_docs ns st'. d \<in> ns_docs ns st \<or> (\<forall>e\<in>ns_docs ns st. dlastmod e < dlastmod d))"

lemma versions_grow_newest:
  "\<lbrakk>n \<in> ns_docs ns st'; \<forall>d\<in>ns_docs ns st. dlastmod d < dlastmod n\<rbrakk> \<Longrightarrow> versions_grow ns st st'"
  by (auto simp: versions_grow_def intro!: bexI [of _ n] intro: less_imp_le)

lemma config_step_keeps:
  assumes "config_step ns st st'" "config_ok ns ep a b st"
  shows "config_ok ns ep a b st' \<and> versions_grow ns st st' \<and> renews ns st st'"
  using assms
proof cases
  case (split e rng pts sh r)
  show ?thesis
  proof (cases r)
    case (Inr u)
    then have "commitChunkSplit st ns e rng pts sh = (st', Inr ())"
      using split(1) by simp
    then obtain d0 ds where "config_ok ns ep a b st'" and s: "split_into ns st st' d0 (minKey rng # pts @ [maxKey rng]) ds"
      using split_preserves [OF assms(2) _ split(2,3)] by blast
    moreover have "hd ds \<in> set ds"
      using s by (cases ds) (auto simp: split_into_def)
    ultimately show ?thesis
      by (auto simp: split_into_def renews_def intro!: versions_grow_newest [of "hd ds"])
  qed (use split assms(2) in \<open>auto simp: versions_grow_def renews_def dest: failed_commit\<close>)
next
  case (merge e bnds sh r)
  show ?thesis
  proof (cases r)
    case (Inr u)
    then have "commitChunkMerge st ns e bnds sh = (st', Inr ())"
      using merge(1) by simp
    then obtain old n where "config_ok ns ep a b st'" "merged_into ns st st' old n"
      using merge_preserves [OF assms(2) _ merge(2)] by blast
    then show ?thesis
      by (auto simp: merged_into_def renews_def intro!: versions_grow_newest [of n])
  qed (use merge assms(2) in \<open>auto simp: versions_grow_def renews_def dest: failed_commit\<close>)
next
  case (migrate mig ctl e "from" to m)
  show ?thesis
  proof (cases m)
    case (Inr out)
    note mv = migration_moves [OF assms(2) migrate(1) [unfolded Inr] migrate(2)]
    then show ?thesis
      by (auto simp: renews_def intro: versions_grow_newest)
  qed (use migrate assms(2) in \<open>auto simp: versions_grow_def renews_def dest: failed_commit\<close>)
qed

lemma reachable_keeps:
  assumes "(config_step ns)\<^sup>*\<^sup>* st st'" "config_ok ns ep a b st"
  shows "config_ok ns ep a b st' \<and> versions_grow ns st st' \<and> renews ns st st'"
  using assms
proof (induction rule: rtranclp_induct)
  case (step y z)
  then have y: "config_ok ns ep a b y" "versions_grow ns st y" "renews ns st y"
    by simp_all
  note z = config_step_keeps [OF step.hyps(2) y(1)]
  have "versions_grow ns st z"
    using y(2) z unfolding versions_grow_def by (meson order_trans)
  moreover have "renews ns st z"
    unfolding renews_def
  proof
    fix d
    assume "d \<in> ns_docs ns z"
    then consider "d \<in> ns_docs ns y" | "\<forall>e\<in>ns_docs ns y. dlastmod e < dlastmod d"
      using z by (auto simp: renews_def)
    then show "d \<in> ns_docs ns st \<or> (\<forall>e\<in>ns_docs ns st. dlastmod e < dlastmod d)"
      using y(2,3) unfolding renews_def versions_grow_def by cases (blast, meson order_le_less_trans)
  qed
  ultimately show ?case
    using z by simp
qed (auto simp: versions_grow_def renews_def)

subsection \<open>A sample collection\<close>

definition sample_doc :: "string \<Rightarrow> bson_obj \<Rightarrow> bson_obj \<Rightarrow> string \<Rightarrow> 64 word \<Rightarrow> bson_obj" where
  "sample_doc name mn mx sh v = [(''_id'', String (''d.c-a_'' @ name)), (''lastmod'', Timestamp v),
     (''lastmodEpoch'', JstOID 7), (''ns'', String ''d.c''), (''min'', Object mn), (''max'', Object mx), (''shard'', String sh)]"

definition sample_store :: store where
  "sample_store = [sample_doc ''MinKey'' min_key (int_key 0) ''s0'' (combined (ChunkVersion 1 0 7)),
     sample_doc ''0'' (int_key 0) max_key ''s0'' (combined (ChunkVersion 1 1 7))]"

lemma sample_genID [simp]:
  "genID ns min_key = Inr (ns @ ''-a_MinKey'')" "genID ns (int_key 0) = Inr (ns @ ''-a_0'')"
  "genID ns (int_key 5) = Inr (ns @ ''-a_5'')"
  by code_simp+

lemma sample_fields [simp]:
  "did (sample_doc name mn mx sh v) = ''d.c-a_'' @ name" "dmin (sample_doc name mn mx sh v) = mn"
  "dmax (sample_doc name mn mx sh v) = mx" "dshard (sample_doc name mn mx sh v) = sh"
  "dlastmod (sample_doc name mn mx sh v) = v"
  "doc_ok ''d.c'' 7 (sample_doc name mn mx sh v) \<longleftrightarrow> genID ''d.c'' mn = Inr (''d.c-a_'' @ name)"
  by (auto simp: did_def dmin_def dmax_def dshard_def dlastmod_def doc_ok_def sample_doc_def)


lemma sample_store_ns: "ns_docs ''d.c'' sample_store = set sample_store"
  by (auto simp: ns_docs_def in_ns_def matchesQuery_def sample_store_def sample_doc_def)

lemma sample_tiles: "tiles (keyOf min_key) (map doc_ivl sample_store) (keyOf max_key)"
  by (simp add: sample_store_def)

lemma sample_ok: "config_ok ''d.c'' 7 (keyOf min_key) (keyOf max_key) sample_store"
proof -
  have "covers_once doc_ivl (set sample_store) (keyOf min_key) (keyOf max_key)"
    using tiles_mem [OF sample_tiles] tiles_ex1_map [OF sample_tiles] by (fastforce simp: covers_once_def)
  moreover have "uniqueKeys sample_store"
    by (simp add: sample_store_def configIndexes_def sameIn_def sample_doc_def ChunkVersion_def less_imp_neq)
  moreover have "ids_unique sample_store"
    by (simp add: sample_store_def ids_unique_def docHasId_def sample_doc_def key_simps)
  ultimately show ?thesis
    unfolding config_ok_def sample_store_ns by (simp add: sample_store_def)
qed

definition sample_range :: chunk_range where
  "sample_range = \<lparr>minKey = int_key 0, maxKey = max_key\<rparr>"

definition sample_migrated :: chunk_type where
  "sample_migrated = ChunkType_empty \<lparr>chunk_min := Some (int_key 0), chunk_max := Some max_key\<rparr>"

lemma sample_keys_storable [simp]:
  "checkShardKeySize (int_key n) = Inr ()" "checkShardKeySize max_key = Inr ()"
  "checkShardKeyIsValidForMetadataStorage (int_key n) = Inr ()" "checkShardKeyIsValidForMetadataStorage max_key = Inr ()"
  by (simp_all add: checkShardKeySize_def checkShardKeyIsValidForMetadataStorage_def int_key_def max_key_def
      objsize_def kMaxShardKeySizeBytes_def isValidShardKeyElementForStorage_def isValidShardKeyElement_def)

lemma sample_fresh: "fresh_id sample_store ''d.c-a_5''"
  by (simp add: fresh_id_def sample_store_def docHasId_def sample_doc_def)

lemma sample_request:
  "version_room ''d.c'' 7 sample_store (Suc (Suc 0))" "split_request ''d.c'' sample_store sample_range [int_key 5]"
proof -
  show "version_room ''d.c'' 7 sample_store (Suc (Suc 0))"
    unfolding version_room_def sample_store_ns
    by (simp add: sample_store_def doc_version_def majorVersion_def minorVersion_def ChunkVersion_def)
  show "split_request ''d.c'' sample_store sample_range [int_key 5]"
    by (simp add: split_request_def sample_range_def valid_end_def sample_fresh)
qed

lemma sample_split: "\<exists>st'. commitChunkSplit sample_store ''d.c'' 7 sample_range [int_key 5] ''s0'' = (st', Inr ())"
proof (rule split_commits [OF sample_ok])
  show "sample_doc ''0'' (int_key 0) max_key ''s0'' (combined (ChunkVersion 1 1 7)) \<in> ns_docs ''d.c'' sample_store"
    unfolding sample_store_ns by (simp add: sample_store_def)
qed (use sample_request in \<open>simp_all add: sample_range_def\<close>)

lemma sample_merge: "snd (commitChunkMerge sample_store ''d.c'' 7 [min_key, int_key 0, max_key] ''s0'') = Inr ()"
  by code_simp

lemma sample_migration: "\<not> isl (snd (commitChunkMigration sample_store ''d.c'' sample_migrated None 7 ''s0'' ''s1''))"
  by code_simp

lemma sample_key_neq [simp]:
  "keyOf min_key \<noteq> keyOf (int_key n)" "keyOf (int_key n) \<noteq> keyOf min_key" "keyOf min_key \<noteq> keyOf max_key"
  "keyOf (int_key n) \<noteq> keyOf max_key"
  using one_field_keys(4-6) by (metis order_less_irrefl)+

lemma sample_exact:
  "\<forall>d\<in>ns_docs ''d.c'' sample_store. \<forall>x\<in>set [min_key, int_key 0, max_key]. keyOf (dmin d) = keyOf x \<longrightarrow> dmin d = x"
  unfolding sample_store_ns by (simp add: sample_store_def)

subsection \<open>Properties\<close>





text \<open>
  C5: a committed migration keeps the metadata invariant; the keys of the migrated chunk were owned
  by the donor shard and are now owned by the recipient, the owner of every other key is
  unchanged, and the version of the migrated chunk is above every version of the collection. The
  control chunk, if there is one, is another chunk.
\<close>

theorem commitChunkMigration_correct:
  assumes "config_ok ns ep a b st" "commitChunkMigration st ns mig ctl collEpoch from to = (st', Inr out)"
    "\<forall>c. ctl = Some c \<longrightarrow> fst (ct_ivl c) \<noteq> fst (ct_ivl mig)"
  shows "config_ok ns ep a b st'
    \<and> (\<forall>k s. owner ns st' k s \<longleftrightarrow> (if k \<in> ivl (ct_ivl mig) then s = to else owner ns st k s))
    \<and> (\<forall>k\<in>ivl (ct_ivl mig). owner ns st k from)
    \<and> (\<exists>n\<in>ns_docs ns st'. doc_ivl n = ct_ivl mig \<and> dshard n = to \<and> (\<forall>d\<in>ns_docs ns st. dlastmod d < dlastmod n))"
  using migration_moves [OF assms] by blast

theorem commitChunkMigration_correct_witness:
  "\<exists>st' out. commitChunkMigration sample_store ''d.c'' sample_migrated None 7 ''s0'' ''s1'' = (st', Inr out)
    \<and> owner ''d.c'' st' (keyOf (int_key 0)) ''s1''"
proof -
  obtain st' out where st': "commitChunkMigration sample_store ''d.c'' sample_migrated None 7 ''s0'' ''s1'' = (st', Inr out)"
    using sample_migration by (metis isl_def prod.collapse sumE)
  then show ?thesis
    using commitChunkMigration_correct [OF sample_ok st']
    by (auto simp: sample_migrated_def ivl_def ChunkType_empty_def)
qed


text \<open>
  C8: a split of an existing chunk commits: when the split points lie strictly inside the chunk in
  increasing order, are storable as shard keys and have new identifiers, the request names the
  epoch and the shard of the chunk, and the versions of the collection are below their limits, then
  the config server reports success.
\<close>

theorem commitChunkSplit_commits:
  assumes "config_ok ns ep a b st" "d0 \<in> ns_docs ns st" "dmin d0 = minKey rng" "dmax d0 = maxKey rng" "dshard d0 = sh"
    "split_request ns st rng pts" "version_room ns ep st (length pts + 1)"
  shows "\<exists>st'. commitChunkSplit st ns ep rng pts sh = (st', Inr ())"
  by (rule split_commits [OF assms])

theorem commitChunkSplit_commits_witness:
  "\<exists>st'. commitChunkSplit sample_store ''d.c'' 7 \<lparr>minKey = int_key 0, maxKey = max_key\<rparr> [int_key 5] ''s0'' = (st', Inr ())"
proof (rule commitChunkSplit_commits [OF sample_ok])
  show "sample_doc ''0'' (int_key 0) max_key ''s0'' (combined (ChunkVersion 1 1 7)) \<in> ns_docs ''d.c'' sample_store"
    unfolding sample_store_ns by (simp add: sample_store_def)
qed (use sample_request in \<open>simp_all add: sample_range_def\<close>)





end
