(* ===== verification/Catalog_Loader.thy ===== *)
theory Catalog_Loader
  imports Collection_Type Config_Commits Chunk_Views
begin

text \<open>
  How a router reads the metadata of the config server: the queries of the catalog client
  (\<open>s/catalog/sharding_catalog_client_impl.cpp\<close>), the loader of the chunks that changed since a
  version (\<open>s/config_server_catalog_cache_loader.cpp\<close>), and the refresh of a routing table from
  them (\<open>refreshCollectionRoutingInfo\<close> in \<open>s/catalog_cache.cpp\<close>). A read sees the documents at
  the time of the read; the collection entry and the chunks are two reads. The collator factory
  and the shard registry are arguments.
\<close>

subsection \<open>Queries\<close>

text \<open>The comparison \<open>$gte\<close> with a timestamp matches timestamps only.\<close>

definition lastmodGTE :: "64 word \<Rightarrow> bson_obj \<Rightarrow> bool" where
  "lastmodGTE t doc =
     (case getField doc ''lastmod'' of
        None \<Rightarrow> False
      | Some w \<Rightarrow> canonicalType w = canonicalType (Timestamp t) \<and> 0 \<le> compareValues w (Timestamp t))"

fun insertByLastmod :: "bson_obj \<Rightarrow> store \<Rightarrow> store" where
  "insertByLastmod d [] = [d]"
| "insertByLastmod d (e # es) =
     (if compareValues (lastmodValue d) (lastmodValue e) \<le> 0 then d # e # es else e # insertByLastmod d es)"

definition sortByLastmod :: "store \<Rightarrow> store" where
  "sortByLastmod ds = foldr insertByLastmod ds []"

fun parseChunks :: "bson_obj list \<Rightarrow> chunk_type list result" where
  "parseChunks [] = Inr []"
| "parseChunks (d # ds) =
     rbind (fromConfigBSON d) (\<lambda>c. rbind (parseChunks ds) (\<lambda>cs. Inr (c # cs)))"

definition createConfigDiffQuery :: "string \<Rightarrow> chunk_version \<Rightarrow> bson_obj \<Rightarrow> bool" where
  "createConfigDiffQuery nss version doc =
     (matchesQuery [(''ns'', String nss)] doc \<and> lastmodGTE (combined version) doc)"

definition getChunks :: "store \<Rightarrow> (bson_obj \<Rightarrow> bool) \<Rightarrow> chunk_type list result" where
  "getChunks chunks query = parseChunks (sortByLastmod (filter query chunks))"

definition getCollection :: "store \<Rightarrow> string \<Rightarrow> collection_type result" where
  "getCollection collections collNs =
     (case findOnConfig collections [(''_id'', String collNs)] of
        [] \<Rightarrow> Inl (Error NamespaceNotFound)
      | doc # _ \<Rightarrow>
          rbind (Collection_fromBSON doc) (\<lambda>coll.
            if getDropped coll then Inl (Error NamespaceNotFound) else Inr coll))"

text \<open>The collections of a database: the identifiers that match the regular expression \<open>^db[.]\<close>.\<close>

definition inDatabase :: "string \<Rightarrow> bson_obj \<Rightarrow> bool" where
  "inDatabase dbName doc =
     (case getField doc ''_id'' of
        Some (String s) \<Rightarrow> take (Suc (length dbName)) s = dbName @ ''.''
      | _ \<Rightarrow> False)"

fun parseCollections :: "bson_obj list \<Rightarrow> collection_type list result" where
  "parseCollections [] = Inr []"
| "parseCollections (d # ds) =
     (case Collection_fromBSON d of
        Inl _ \<Rightarrow> Inl (Error FailedToParse)
      | Inr c \<Rightarrow> rbind (parseCollections ds) (\<lambda>cs. Inr (c # cs)))"

definition getCollections :: "store \<Rightarrow> string \<Rightarrow> collection_type list result" where
  "getCollections collections dbName =
     rbind (invariant (dbName \<noteq> [])) (\<lambda>_. parseCollections (filter (inDatabase dbName) collections))"

definition fetchDatabaseMetadata :: "store \<Rightarrow> string \<Rightarrow> database_type result" where
  "fetchDatabaseMetadata databases dbName =
     (case findOnConfig databases [(''_id'', String dbName)] of
        [] \<Rightarrow> Inl (Error NamespaceNotFound)
      | [doc] \<Rightarrow> Database_fromBSON doc
      | _ \<Rightarrow> Inl Fatal)"

definition kConfigServerShardId :: shard_id where
  "kConfigServerShardId = ''config''"

text \<open>The second read of a database that the nearest node does not know goes to the primary node.\<close>

definition getDatabase :: "store \<Rightarrow> store \<Rightarrow> string \<Rightarrow> database_type result" where
  "getDatabase nearest primary dbName =
     (if \<not> validDBName dbName True then Inl (Error InvalidNamespace)
      else if dbName = ''admin'' then
        Inr \<lparr>db_name = Some dbName, db_primary = Some kConfigServerShardId, db_sharded = Some False\<rparr>
      else if dbName = ''config'' then
        Inr \<lparr>db_name = Some dbName, db_primary = Some kConfigServerShardId, db_sharded = Some True\<rparr>
      else (case fetchDatabaseMetadata nearest dbName of
          Inl (Error NamespaceNotFound) \<Rightarrow> fetchDatabaseMetadata primary dbName
        | r \<Rightarrow> r))"

subsection \<open>The loader\<close>

record collection_and_changed_chunks =
  cc_uuid :: "string option"
  cc_epoch :: oid
  cc_shardKeyPattern :: bson_obj
  cc_defaultCollation :: bson_obj
  cc_shardKeyIsUnique :: bool
  cc_changedChunks :: "chunk_type list"

definition getChangedChunks ::
    "store \<Rightarrow> store \<Rightarrow> string \<Rightarrow> chunk_version \<Rightarrow> collection_and_changed_chunks result" where
  "getChangedChunks collections chunks nss sinceVersion =
     rbind (getCollection collections nss) (\<lambda>coll.
     rbind (uassert NamespaceNotFound (\<not> getDropped coll)) (\<lambda>_.
       let collEpoch = the (coll_epoch coll);
           startingCollectionVersion =
             (if epoch sinceVersion = collEpoch then sinceVersion else ChunkVersion 0 0 collEpoch)
       in rbind (getChunks chunks (createConfigDiffQuery nss startingCollectionVersion)) (\<lambda>changed.
          rbind (uassert ConflictingOperationInProgress (changed \<noteq> [])) (\<lambda>_.
            Inr \<lparr>cc_uuid = coll_uuid coll, cc_epoch = collEpoch,
              cc_shardKeyPattern = the (coll_keyPattern coll),
              cc_defaultCollation = coll_defaultCollation coll,
              cc_shardKeyIsUnique = getUnique coll, cc_changedChunks = changed\<rparr>))))"

subsection \<open>Refreshing a routing table\<close>

record refresh_env =
  makeFromBSON :: "bson_obj \<Rightarrow> bool result"
  getShard :: "shard_id \<Rightarrow> unit result"
  initialBytes :: "chunk_type \<Rightarrow> 64 word"

text \<open>The iteration of a \<open>std::set\<close> of shard identifiers.\<close>

definition shardsInOrder :: "shard_id list \<Rightarrow> shard_id list" where
  "shardsInOrder ids = map fst (foldr (\<lambda>s. om_insert stringdata_compare s ()) ids [])"

fun checkShards :: "(shard_id \<Rightarrow> unit result) \<Rightarrow> shard_id list \<Rightarrow> unit result" where
  "checkShards get [] = Inr ()"
| "checkShards get (s # ss) = rbind (get s) (\<lambda>_. checkShards get ss)"

definition makeTable ::
    "refresh_env \<Rightarrow> 32 word \<Rightarrow> string \<Rightarrow> collection_and_changed_chunks \<Rightarrow> (32 word \<times> chunk_manager) result" where
  "makeTable env seq nss cc =
     rbind (if cc_defaultCollation cc \<noteq> [] then makeFromBSON env (cc_defaultCollation cc) else Inr False) (\<lambda>collator.
       makeNew (initialBytes env) seq nss (cc_shardKeyPattern cc) collator (cc_shardKeyIsUnique cc)
         (cc_epoch cc) (cc_changedChunks cc))"

definition chunkManagerFrom ::
    "refresh_env \<Rightarrow> 32 word \<Rightarrow> string \<Rightarrow> chunk_manager option \<Rightarrow> collection_and_changed_chunks
      \<Rightarrow> (32 word \<times> chunk_manager) result" where
  "chunkManagerFrom env seq nss existing cc =
     (case existing of
        Some cm \<Rightarrow>
          if epoch (collectionVersion cm) = cc_epoch cc
          then makeUpdated (initialBytes env) seq cm (cc_changedChunks cc)
          else makeTable env seq nss cc
      | None \<Rightarrow> makeTable env seq nss cc)"

definition refreshCollectionRoutingInfo ::
    "refresh_env \<Rightarrow> 32 word \<Rightarrow> string \<Rightarrow> chunk_manager option \<Rightarrow> collection_and_changed_chunks result
      \<Rightarrow> (32 word \<times> chunk_manager option) result" where
  "refreshCollectionRoutingInfo env seq nss existing sw =
     (if sw = Inl (Error NamespaceNotFound) then Inr (seq, None)
      else rbind sw (\<lambda>cc.
        rbind (chunkManagerFrom env seq nss existing cc) (\<lambda>(seq', cm).
        rbind (checkShards (getShard env) (shardsInOrder (map fst (shardVersions (chunkMapViews cm))))) (\<lambda>_.
          Inr (seq', Some cm)))))"

end
