(* ===== verification/Router_Refresh.thy ===== *)
theory Router_Refresh
  imports Catalog_Loader
begin

text \<open>
  A router that refreshes its routing table from the config server: whatever splits, merges and
  migrations were committed since the table was loaded, the refreshed table holds exactly the
  chunks the config server has, and routes every key to the shard that owns it there.
\<close>

subsection \<open>Reading the changed chunks\<close>

lemma compareValues_Timestamp [simp]: "compareValues (Timestamp x) (Timestamp y) \<le> 0 \<longleftrightarrow> x \<le> y"
  by (auto simp: compareValues_def woCompareElement_def compareElements.simps cmp3_def)

lemma doc_lastmodValue: "doc_ok ns ep d \<Longrightarrow> lastmodValue d = Timestamp (dlastmod d)"
  by (simp add: doc_ok_def lastmodValue_def)

lemma set_insertByLastmod [simp]: "set (insertByLastmod d ds) = insert d (set ds)"
  by (induction ds) auto

lemma sortByLastmod_set [simp]: "set (sortByLastmod ds) = set ds"
  by (induction ds) (simp_all add: sortByLastmod_def)

lemma distinct_insertByLastmod: "distinct (insertByLastmod d ds) \<longleftrightarrow> d \<notin> set ds \<and> distinct ds"
  by (induction ds) auto

lemma sortByLastmod_distinct: "distinct (sortByLastmod ds) \<longleftrightarrow> distinct ds"
proof (induction ds)
  case (Cons d ds)
  then show ?case
    using sortByLastmod_set [of ds] by (simp add: sortByLastmod_def distinct_insertByLastmod)
qed (simp add: sortByLastmod_def)

lemma insertByLastmod_sorted:
  assumes "\<forall>e\<in>set (d # ds). doc_ok ns ep e" "sorted_wrt (\<lambda>x y. dlastmod x \<le> dlastmod y) ds"
  shows "sorted_wrt (\<lambda>x y. dlastmod x \<le> dlastmod y) (insertByLastmod d ds)"
  using assms
proof (induction ds)
  case (Cons e ds)
  then have "compareValues (lastmodValue d) (lastmodValue e) \<le> 0 \<longleftrightarrow> dlastmod d \<le> dlastmod e"
    using doc_lastmodValue by auto
  then show ?case
    using Cons by (auto intro: order_trans)
qed simp

lemma sortByLastmod_sorted:
  "\<forall>e\<in>set ds. doc_ok ns ep e \<Longrightarrow> sorted_wrt (\<lambda>x y. dlastmod x \<le> dlastmod y) (sortByLastmod ds)"
proof (induction ds)
  case (Cons d ds)
  then show ?case
    using insertByLastmod_sorted [of d "sortByLastmod ds" ns ep] by (simp add: sortByLastmod_def)
      (use sortByLastmod_set [of ds] in \<open>simp add: sortByLastmod_def\<close>)
qed (simp add: sortByLastmod_def)

text \<open>What a chunk document and a chunk entry say: bounds, shard and version.\<close>

definition doc_view :: "oid \<Rightarrow> bson_obj \<Rightarrow> bson_obj \<times> bson_obj \<times> string \<times> chunk_version" where
  "doc_view ep d = (dmin d, dmax d, dshard d, doc_version ep d)"

definition type_view :: "chunk_type \<Rightarrow> bson_obj \<times> bson_obj \<times> string \<times> chunk_version" where
  "type_view c = (the (chunk_min c), the (chunk_max c), the (chunk_shard c), the (chunk_version c))"

definition chunk_view :: "chunk \<Rightarrow> bson_obj \<times> bson_obj \<times> string \<times> chunk_version" where
  "chunk_view c = (getMin c, getMax c, shardId c, lastmod c)"

lemma fromBSON_version: "doc_ok ns ep d \<Longrightarrow> fromBSON d ''lastmod'' = (doc_version ep d, True)"
  by (simp add: fromBSON_doc doc_version_def)

lemma fromConfigBSON_view:
  assumes "fromConfigBSON d = Inr c" "doc_ok ns ep d"
  shows "type_view c = doc_view ep d"
proof -
  have "ChunkRange_fromBSON d = Inr r \<Longrightarrow> minKey r = dmin d \<and> maxKey r = dmax d" for r
    using assms(2) by (auto simp: ChunkRange_fromBSON_def rbind_Inr_iff extractObject_iff doc_ok_def split: if_splits)
  moreover have "bsonExtractStringField d ''shard'' = Inr s \<Longrightarrow> s = dshard d" for s
    using assms(2) by (auto simp: bsonExtractStringField_iff doc_ok_def)
  moreover have "parseFromBSONForChunk d = Inr v \<Longrightarrow> v = doc_version ep d" for v
    by (simp add: parseFromBSONForChunk_def fromBSON_version [OF assms(2)])
  ultimately show ?thesis
    using assms(1) by (auto simp: fromConfigBSON_def rbind_Inr_iff type_view_def doc_view_def)
qed

lemma parseChunks_views:
  assumes "parseChunks ds = Inr cs" "\<forall>d\<in>set ds. doc_ok ns ep d"
  shows "map type_view cs = map (doc_view ep) ds"
  using assms by (induction ds arbitrary: cs) (auto simp: rbind_Inr_iff fromConfigBSON_view)

lemma diffQuery_docs:
  assumes "\<forall>d\<in>ns_docs ns st. doc_ok ns ep d"
  shows "set (filter (createConfigDiffQuery ns v) st) = {d \<in> ns_docs ns st. combined v \<le> dlastmod d}"
proof -
  have "createConfigDiffQuery ns v d \<longleftrightarrow> in_ns ns d \<and> combined v \<le> dlastmod d" if "d \<in> set st" for d
  proof (cases "in_ns ns d")
    case True
    then have "getField d ''lastmod'' = Some (Timestamp (dlastmod d))"
      using assms that by (auto simp: ns_docs_def doc_ok_def)
    then show ?thesis
      using True by (simp add: createConfigDiffQuery_def in_ns_def lastmodGTE_def)
  qed (simp add: createConfigDiffQuery_def in_ns_def)
  then show ?thesis
    by (auto simp: ns_docs_def)
qed

lemma sorted_wrt_neq: "sorted_wrt (\<noteq>) xs \<longleftrightarrow> distinct xs"
  by (induction xs) auto

lemma config_docs:
  assumes "config_ok ns ep a b st"
  shows "\<And>d. d \<in> ns_docs ns st \<Longrightarrow> doc_ok ns ep d" "distinct (filter (in_ns ns) st)"
    "\<And>d e. \<lbrakk>d \<in> ns_docs ns st; e \<in> ns_docs ns st; d \<noteq> e\<rbrakk> \<Longrightarrow> ivl (doc_ivl d) \<inter> ivl (doc_ivl e) = {}"
    "\<And>d. d \<in> ns_docs ns st \<Longrightarrow> keyOf (dmin d) < keyOf (dmax d)"
    "(\<Union>d\<in>ns_docs ns st. ivl (doc_ivl d)) = {a..<b}"
proof -
  show ok: "\<And>d. d \<in> ns_docs ns st \<Longrightarrow> doc_ok ns ep d"
    using assms by (simp add: config_ok_def)
  have "sorted_wrt (\<lambda>d e. \<forall>i. docHasId i d \<longrightarrow> \<not> docHasId i e) st"
    using assms by (simp add: config_ok_def ids_unique_def)
  then have "sorted_wrt (\<lambda>d e. \<forall>i. docHasId i d \<longrightarrow> \<not> docHasId i e) (filter (in_ns ns) st)"
    by (rule sorted_wrt_filter)
  then have "sorted_wrt (\<noteq>) (filter (in_ns ns) st)"
  proof (rule sorted_wrt_mono_rel [rotated])
    fix d e
    assume "d \<in> set (filter (in_ns ns) st)" "\<forall>i. docHasId i d \<longrightarrow> \<not> docHasId i e"
    moreover from this(1) have "docHasId (String (did d)) d"
      using ok [of d] by (auto simp: ns_docs_def doc_ok_def docHasId_def)
    ultimately show "d \<noteq> e"
      by blast
  qed
  then show "distinct (filter (in_ns ns) st)"
    by (simp add: sorted_wrt_neq)
  have cov: "covers_once doc_ivl (ns_docs ns st) a b"
    using assms by (simp add: config_ok_def)
  then show lt: "\<And>d. d \<in> ns_docs ns st \<Longrightarrow> keyOf (dmin d) < keyOf (dmax d)"
    by (simp add: covers_once_def)
  have inside: "a \<le> k \<and> k < b" if "d \<in> ns_docs ns st" "k \<in> ivl (doc_ivl d)" for d k
    using cov that by (auto simp: covers_once_def ivl_def)
  show "\<And>d e. \<lbrakk>d \<in> ns_docs ns st; e \<in> ns_docs ns st; d \<noteq> e\<rbrakk> \<Longrightarrow> ivl (doc_ivl d) \<inter> ivl (doc_ivl e) = {}"
    using cov inside unfolding covers_once_def by blast
  show "(\<Union>d\<in>ns_docs ns st. ivl (doc_ivl d)) = {a..<b}"
    using cov inside unfolding covers_once_def by (fastforce simp del: fst_conv snd_conv)
qed

text \<open>The chunks of a table are the chunk documents of the collection.\<close>

definition table_has :: "oid \<Rightarrow> bson_obj set \<Rightarrow> chunk_map \<Rightarrow> bool" where
  "table_has ep D m \<longleftrightarrow> (\<lambda>e. chunk_view (snd e)) ` set m = doc_view ep ` D"

definition view_ivl :: "bson_obj \<times> bson_obj \<times> string \<times> chunk_version \<Rightarrow> bson_key \<times> bson_key" where
  "view_ivl w = (keyOf (fst w), keyOf (fst (snd w)))"

lemma view_ivl_simps [simp]:
  "view_ivl (doc_view ep d) = doc_ivl d" "view_ivl (chunk_view c) = chunk_ivl c" "view_ivl (type_view t) = type_ivl t"
  by (simp_all add: view_ivl_def doc_view_def chunk_view_def type_view_def)

lemma built_view: "Chunk (rnd c) c = Inr new \<Longrightarrow> chunk_view (snd (built rnd c)) = type_view c"
  using Chunk_Inr [of "rnd c" c new] by (simp add: built_eq chunk_view_def type_view_def)

lemma table_has_ivls: "table_has ep D m \<Longrightarrow> map_ivls m = doc_ivl ` D"
proof -
  assume "table_has ep D m"
  then have "view_ivl ` (\<lambda>e. chunk_view (snd e)) ` set m = view_ivl ` doc_view ep ` D"
    by (simp add: table_has_def)
  then show ?thesis
    by (simp add: image_image map_ivls_def)
qed

text \<open>A map sorted by upper bounds whose chunks are documents that cover the key space partitions it.\<close>

lemma table_partition:
  assumes "table_has ep (ns_docs ns st) m" "keyed_by_max m" "config_ok ns ep a b st" "a \<le> b"
  shows "chunk_partition a b m"
proof -
  note docs = config_docs [OF assms(3)]
  have "partitions (doc_ivl ` ns_docs ns st) a b"
    unfolding partitions_def
  proof (intro conjI)
    show "finite (doc_ivl ` ns_docs ns st)"
      by (simp add: ns_docs_def)
    show "\<forall>p\<in>doc_ivl ` ns_docs ns st. \<forall>q\<in>doc_ivl ` ns_docs ns st. p \<noteq> q \<longrightarrow> ivl p \<inter> ivl q = {}"
      using docs(3) by blast
  qed (use docs(4,5) in simp_all)
  then show ?thesis
    using keyed_partition [OF assms(2) _ assms(4)] table_has_ivls [OF assms(1)] by simp
qed

subsection \<open>Applying the changed chunks\<close>

lemma sorted_wrt_last:
  fixes f :: "'a \<Rightarrow> 'b::linorder"
  shows "\<lbrakk>sorted_wrt (\<lambda>x y. f x \<le> f y) xs; e \<in> set xs\<rbrakk> \<Longrightarrow> f e \<le> f (last xs)"
  by (induction xs) (auto split: if_splits)

lemma changed_list:
  fixes v :: chunk_version
  assumes ok: "config_ok ns ep a b st" and get: "getChunks st (createConfigDiffQuery ns v) = Inr cs"
  defines "N \<equiv> {d \<in> ns_docs ns st. combined v \<le> dlastmod d}"
  shows "type_view ` set cs = doc_view ep ` N"
    "sorted_wrt (\<lambda>c d. ivl (type_ivl c) \<inter> ivl (type_ivl d) = {}) cs"
    "cs \<noteq> [] \<Longrightarrow> \<exists>d\<in>N. the (chunk_version (last cs)) = doc_version ep d \<and> (\<forall>e\<in>ns_docs ns st. dlastmod e \<le> dlastmod d)"
proof -
  note docs = config_docs [OF ok]
  define ds where "ds = sortByLastmod (filter (createConfigDiffQuery ns v) st)"
  have ds: "set ds = N"
    using diffQuery_docs [of ns st ep v] docs(1) by (simp add: ds_def N_def)
  have okd: "\<forall>d\<in>set ds. doc_ok ns ep d"
    unfolding ds by (simp add: N_def docs(1))
  have "filter (createConfigDiffQuery ns v) st = filter (createConfigDiffQuery ns v) (filter (in_ns ns) st)"
    unfolding filter_filter by (rule filter_cong) (auto simp: createConfigDiffQuery_def in_ns_def)
  then have "distinct (filter (createConfigDiffQuery ns v) st)"
    using docs(2) by (simp only: distinct_filter)
  then have dist: "distinct ds"
    by (simp add: ds_def sortByLastmod_distinct)
  have views: "map type_view cs = map (doc_view ep) ds"
    using parseChunks_views [of ds cs ns ep] get okd by (simp add: getChunks_def ds_def)
  show "type_view ` set cs = doc_view ep ` N"
    using arg_cong [OF views, of set] ds by simp
  have "map type_ivl cs = map doc_ivl ds"
    using arg_cong [OF views, of "map view_ivl"] by (simp add: comp_def)
  moreover have "sorted_wrt (\<lambda>p q. ivl p \<inter> ivl q = {}) (map doc_ivl ds)"
    unfolding sorted_wrt_map using dist [folded sorted_wrt_neq]
    by (rule sorted_wrt_mono_rel [rotated]) (use docs(3) ds in \<open>auto simp: N_def\<close>)
  ultimately have "sorted_wrt (\<lambda>p q. ivl p \<inter> ivl q = {}) (map type_ivl cs)"
    by (simp only:)
  then show "sorted_wrt (\<lambda>c d. ivl (type_ivl c) \<inter> ivl (type_ivl d) = {}) cs"
    by (simp only: sorted_wrt_map)
  assume "cs \<noteq> []"
  then have ne: "ds \<noteq> []"
    using views by auto
  have "sorted_wrt (\<lambda>x y. dlastmod x \<le> dlastmod y) ds"
    unfolding ds_def by (rule sortByLastmod_sorted [of _ ns ep]) (use okd in \<open>simp add: ds_def\<close>)
  then have "\<forall>e\<in>set ds. dlastmod e \<le> dlastmod (last ds)"
    using sorted_wrt_last [of dlastmod ds] by blast
  then have max: "\<forall>e\<in>ns_docs ns st. dlastmod e \<le> dlastmod (last ds)"
    using last_in_set [OF ne] unfolding ds N_def by (auto simp: not_le)
  have "type_view (last cs) = doc_view ep (last ds)"
    using arg_cong [OF views, of last] ne \<open>cs \<noteq> []\<close> by (simp add: last_map)
  then have "the (chunk_version (last cs)) = doc_version ep (last ds)"
    by (simp add: type_view_def doc_view_def)
  then show "\<exists>d\<in>N. the (chunk_version (last cs)) = doc_version ep d \<and> (\<forall>e\<in>ns_docs ns st. dlastmod e \<le> dlastmod d)"
    using max last_in_set [OF ne] ds by blast
qed

lemma changes_apply:
  assumes app: "applyChangedChunks rnd (m, v) cs = Inr (m', v')" and m: "keyed_by_max m" "table_has ep D0 m"
    and cs: "type_view ` set cs = doc_view ep ` N" "sorted_wrt (\<lambda>c d. ivl (type_ivl c) \<inter> ivl (type_ivl d) = {}) cs"
    and D: "N \<subseteq> D" "D - N \<subseteq> D0"
    and sup: "\<And>d. d \<in> D0 \<Longrightarrow> (\<exists>c\<in>N. supersedes (doc_ivl c) (doc_ivl d)) \<longleftrightarrow> d \<notin> D \<or> d \<in> N"
  shows "keyed_by_max m'" "table_has ep D m'" "\<forall>e\<in>set m'. e \<in> set m \<or> e \<in> built rnd ` set cs"
    "\<forall>c\<in>set cs. \<exists>new. Chunk (rnd c) c = Inr new"
proof -
  note r = applyChangedChunks_Inr [OF app m(1) cs(2)]
  define P where "P w \<longleftrightarrow> \<not> (\<exists>c\<in>N. supersedes (doc_ivl c) (view_ivl w))" for w
  show "keyed_by_max m'" "\<forall>c\<in>set cs. \<exists>new. Chunk (rnd c) c = Inr new"
    using r by simp_all
  have "(\<exists>c\<in>set cs. supersedes (type_ivl c) p) \<longleftrightarrow> (\<exists>w\<in>type_view ` set cs. supersedes (view_ivl w) p)" for p
    by simp
  then have "(\<exists>c\<in>set cs. supersedes (type_ivl c) (chunk_ivl c')) \<longleftrightarrow> \<not> P (chunk_view c')" for c'
    unfolding cs(1) P_def by simp
  then have m': "set m' = {e \<in> set m. P (chunk_view (snd e))} \<union> built rnd ` set cs"
    using r by simp
  then show "\<forall>e\<in>set m'. e \<in> set m \<or> e \<in> built rnd ` set cs"
    by blast
  have "(\<lambda>e. chunk_view (snd e)) ` built rnd ` set cs = type_view ` set cs"
    using r built_view by (force simp: image_image)
  then have "(\<lambda>e. chunk_view (snd e)) ` set m' = {w \<in> (\<lambda>e. chunk_view (snd e)) ` set m. P w} \<union> doc_view ep ` N"
    unfolding m' image_Un cs(1) by blast
  also have "{w \<in> (\<lambda>e. chunk_view (snd e)) ` set m. P w} = doc_view ep ` {d \<in> D0. P (doc_view ep d)}"
    unfolding m(2) [unfolded table_has_def] by blast
  also have "{d \<in> D0. P (doc_view ep d)} = D0 \<inter> D - N"
    using sup by (auto simp: P_def)
  also have "doc_view ep ` (D0 \<inter> D - N) \<union> doc_view ep ` N = doc_view ep ` D"
    unfolding image_Un [symmetric] using D by (intro arg_cong [where f = "image (doc_view ep)"]) blast
  finally show "table_has ep D m'"
    by (simp add: table_has_def)
qed

lemma applyChangedChunk_version:
  "applyChangedChunk rnd st c = Inr (m', v') \<Longrightarrow> chunk_version c = Some v'"
  by (auto simp: applyChangedChunk_def rbind_Inr_iff Let_def split: option.splits prod.splits)

lemma applyChangedChunks_version:
  "\<lbrakk>applyChangedChunks rnd st cs = Inr (m', v'); cs \<noteq> []\<rbrakk> \<Longrightarrow> v' = the (chunk_version (last cs))"
proof (induction cs arbitrary: st)
  case (Cons c cs)
  then obtain st1 where st1: "applyChangedChunk rnd st c = Inr st1" "applyChangedChunks rnd st1 cs = Inr (m', v')"
    by (auto simp: rbind_Inr_iff)
  show ?case
  proof (cases "cs = []")
    case True
    then show ?thesis
      using st1 applyChangedChunk_version [of rnd st c m' v'] by simp
  qed (use Cons.IH [OF st1(2)] in simp)
qed simp

text \<open>Chunks of an older state that are not in the newer one are covered by newer chunks.\<close>

lemma renewed_chunks:
  fixes v :: chunk_version
  assumes ok: "config_ok ns ep a b st0" "config_ok ns ep a b st" and new: "renews ns st0 st"
    and v: "d0 \<in> ns_docs ns st0" "combined v = dlastmod d0"
  defines "N \<equiv> {d \<in> ns_docs ns st. combined v \<le> dlastmod d}"
  shows "ns_docs ns st - N \<subseteq> ns_docs ns st0" "aligned (doc_ivl ` N) (doc_ivl ` ns_docs ns st0)"
    "d \<in> ns_docs ns st0 \<Longrightarrow> (\<exists>c\<in>N. supersedes (doc_ivl c) (doc_ivl d)) \<longleftrightarrow> d \<notin> ns_docs ns st \<or> d \<in> N"
proof -
  note old = config_docs [OF ok(1)] and cur = config_docs [OF ok(2)]
  have N: "N \<subseteq> ns_docs ns st"
    by (simp add: N_def)
  show keep: "ns_docs ns st - N \<subseteq> ns_docs ns st0"
  proof
    fix d
    assume "d \<in> ns_docs ns st - N"
    then have "d \<in> ns_docs ns st" "dlastmod d < dlastmod d0"
      using v(2) by (auto simp: N_def)
    then show "d \<in> ns_docs ns st0"
      using new v(1) unfolding renews_def by (meson order_less_asym)
  qed
  let ?T = "doc_ivl ` N"
  have gone: "ivl (doc_ivl d) \<subseteq> (\<Union>c\<in>?T. ivl c)" if d: "d \<in> ns_docs ns st0" "d \<notin> ns_docs ns st" for d
  proof
    fix k
    assume k: "k \<in> ivl (doc_ivl d)"
    then have "k \<in> (\<Union>d\<in>ns_docs ns st. ivl (doc_ivl d))"
      unfolding cur(5) old(5) [symmetric] using d(1) by blast
    then obtain e where e: "e \<in> ns_docs ns st" "k \<in> ivl (doc_ivl e)"
      by blast
    have "e \<in> N"
    proof (rule ccontr)
      assume "e \<notin> N"
      then have e0: "e \<in> ns_docs ns st0"
        using keep e(1) by blast
      show False
        using old(3) [OF e0 d(1)] d(2) e k by blast
    qed
    then show "k \<in> (\<Union>c\<in>?T. ivl c)"
      using e(2) by blast
  qed
  have kept: "ivl (doc_ivl d) \<inter> (\<Union>c\<in>?T. ivl c) = {}" if "d \<in> ns_docs ns st" "d \<notin> N" for d
    using cur(3) [OF that(1)] N that(2) by blast
  have sub: "(\<Union>c\<in>?T. ivl c) \<subseteq> (\<Union>p\<in>doc_ivl ` ns_docs ns st0. ivl p)"
    unfolding UN_simps old(5) cur(5) [symmetric] using N by blast
  have pieces: "ivl (doc_ivl d) \<subseteq> (\<Union>c\<in>?T. ivl c) \<or> ivl (doc_ivl d) \<inter> (\<Union>c\<in>?T. ivl c) = {}" if "d \<in> ns_docs ns st0" for d
    using gone [OF that] kept [of d] by blast
  show al: "aligned ?T (doc_ivl ` ns_docs ns st0)"
    unfolding aligned_def
  proof (intro conjI)
    show "finite ?T"
      by (simp add: N_def ns_docs_def)
    show "\<forall>p\<in>?T. fst p < snd p"
      using N cur(4) by auto
    show "\<forall>p\<in>?T. \<forall>q\<in>?T. p \<noteq> q \<longrightarrow> ivl p \<inter> ivl q = {}"
      using N cur(3) by blast
    show "(\<Union>c\<in>?T. ivl c) \<subseteq> (\<Union>p\<in>doc_ivl ` ns_docs ns st0. ivl p)"
      by (rule sub)
  qed (use pieces in blast)
  assume d: "d \<in> ns_docs ns st0"
  have "(\<exists>c\<in>N. supersedes (doc_ivl c) (doc_ivl d)) \<longleftrightarrow> ivl (doc_ivl d) \<subseteq> (\<Union>c\<in>?T. ivl c)"
    using superseded_iff [OF al, of "doc_ivl d"] d old(4) [OF d] by simp
  also have "\<dots> \<longleftrightarrow> d \<notin> ns_docs ns st \<or> d \<in> N"
  proof (cases "d \<in> ns_docs ns st \<and> d \<notin> N")
    case True
    have "ivl (doc_ivl d) \<noteq> {}"
      using old(4) [OF d] by (simp add: ivl_def)
    moreover have "ivl (doc_ivl d) \<inter> (\<Union>c\<in>?T. ivl c) = {}"
      using True by (intro kept) simp_all
    ultimately have "\<not> ivl (doc_ivl d) \<subseteq> (\<Union>c\<in>?T. ivl c)"
      using Int_absorb2 [of "ivl (doc_ivl d)" "\<Union>c\<in>?T. ivl c"] by argo
    then show ?thesis
      using True by simp
  next
    case False
    then have "ivl (doc_ivl d) \<subseteq> (\<Union>c\<in>?T. ivl c)"
      using gone [OF d] UN_upper [OF imageI, of d N ivl doc_ivl] by argo
    then show ?thesis
      using False by simp
  qed
  finally show "(\<exists>c\<in>N. supersedes (doc_ivl c) (doc_ivl d)) \<longleftrightarrow> d \<notin> ns_docs ns st \<or> d \<in> N" .
qed

subsection \<open>Tables that mirror the config server\<close>

definition key_space :: "bson_key \<Rightarrow> bson_key \<Rightarrow> bool" where
  "key_space a b \<longleftrightarrow> (\<exists>x. keyOf x = a \<and> (\<forall>f\<in>set x. snd f = MinKey)) \<and> (\<exists>y. keyOf y = b \<and> (\<forall>f\<in>set y. snd f = MaxKey))"

definition newest_version :: "string \<Rightarrow> oid \<Rightarrow> store \<Rightarrow> chunk_version \<Rightarrow> bool" where
  "newest_version ns ep st v \<longleftrightarrow>
     (\<exists>d\<in>ns_docs ns st. v = doc_version ep d \<and> (\<forall>e\<in>ns_docs ns st. dlastmod e \<le> dlastmod d))"

definition mirrors :: "string \<Rightarrow> oid \<Rightarrow> bson_key \<Rightarrow> bson_key \<Rightarrow> store \<Rightarrow> chunk_manager \<Rightarrow> bool" where
  "mirrors ns ep a b st cm \<longleftrightarrow> manager_of a b cm \<and> table_has ep (ns_docs ns st) (chunkMap cm)
     \<and> newest_version ns ep st (collectionVersion cm)"

lemma partition_loadable:
  assumes "chunk_partition a b m" "key_space a b" "m \<noteq> []" "\<forall>e\<in>set m. isSet (lastmod (snd e))"
  shows "loadable m"
proof -
  note ends = chunk_partition_ends [OF assms(1,3)]
  obtain x y where x: "keyOf x = a" "\<forall>f\<in>set x. snd f = MinKey" and y: "keyOf y = b" "\<forall>f\<in>set y. snd f = MaxKey"
    using assms(2) by (auto simp: key_space_def)
  have "\<forall>f\<in>set (getMin (snd (hd m))). snd f = MinKey"
    by (rule same_key_extreme [OF _ x(2)]) (use x(1) ends(1) in auto)
  moreover have "\<forall>f\<in>set (getMax (snd (last m))). snd f = MaxKey"
    by (rule same_key_extreme [OF _ y(2)]) (use y(1) ends(2) in auto)
  ultimately show ?thesis
    using assms(3,4) by (simp add: loadable_def)
qed

lemma Chunk_isSet: "Chunk (rnd c) c = Inr new \<Longrightarrow> isSet (lastmod (snd (built rnd c)))"
  by (rule built_isSet) (auto simp: Chunk_def split: sum.splits)

text \<open>Applying the changed chunks to an empty table or to one that mirrors an earlier state.\<close>

lemma changes_mirror:
  fixes v :: chunk_version
  assumes ok: "config_ok ns ep a b st" "key_space a b"
    and get: "getChunks st (createConfigDiffQuery ns v) = Inr cs" "cs \<noteq> []"
    and app: "applyChangedChunks rnd (m, v) cs = Inr (m', v')"
    and prior: "m = [] \<and> combined v = 0 \<or> (\<exists>st0 cm. config_ok ns ep a b st0 \<and> mirrors ns ep a b st0 cm
      \<and> renews ns st0 st \<and> m = chunkMap cm \<and> v = collectionVersion cm)"
  shows "chunk_partition a b m'" "loadable m'" "table_has ep (ns_docs ns st) m'" "newest_version ns ep st v'" "epoch v' = ep"
proof -
  define N where "N = {d \<in> ns_docs ns st. combined v \<le> dlastmod d}"
  note cs = changed_list [OF ok(1) get(1), folded N_def]
  have ne: "ns_docs ns st \<noteq> {}"
    using cs(3) [OF get(2)] by (auto simp: N_def)
  obtain d where d: "d \<in> ns_docs ns st"
    using ne by blast
  have "a \<le> b"
    using ok(1) d unfolding config_ok_def covers_once_def by (meson less_imp_le order_trans)
  obtain D0 where m: "keyed_by_max m" "table_has ep D0 m" and D0: "ns_docs ns st - N \<subseteq> D0"
    "\<And>d. d \<in> D0 \<Longrightarrow> (\<exists>c\<in>N. supersedes (doc_ivl c) (doc_ivl d)) \<longleftrightarrow> d \<notin> ns_docs ns st \<or> d \<in> N"
    and set0: "\<forall>e\<in>set m. isSet (lastmod (snd e))"
    using prior
  proof (elim disjE exE conjE)
    assume "m = []" "combined v = 0"
    then show thesis
      by (intro that [of "{}"]) (simp_all add: keyed_by_max_def table_has_def N_def om_sorted_def)
  next
    fix st0 cm
    assume 0: "config_ok ns ep a b st0" "mirrors ns ep a b st0 cm" "renews ns st0 st" "m = chunkMap cm" "v = collectionVersion cm"
    then obtain d0 where d0: "d0 \<in> ns_docs ns st0" "combined v = dlastmod d0"
      by (auto simp: mirrors_def newest_version_def doc_version_def)
    note r = renewed_chunks [OF 0(1) ok(1) 0(3) d0, folded N_def]
    have "manager_of a b cm" "table_has ep (ns_docs ns st0) m"
      using 0 by (simp_all add: mirrors_def)
    then show thesis
      using r(1,3) 0(4) chunk_partition_keyed by (intro that [of "ns_docs ns st0"]) (auto simp: manager_of_def loadable_def)
  qed
  have "N \<subseteq> ns_docs ns st"
    by (simp add: N_def)
  note m' = changes_apply [OF app m cs(1,2) this D0]
  show t': "table_has ep (ns_docs ns st) m'"
    by (rule m'(2))
  show p': "chunk_partition a b m'"
    by (rule table_partition [OF t' m'(1) ok(1) \<open>a \<le> b\<close>])
  have "isSet (lastmod (snd e))" if "e \<in> set m'" for e
    using m'(3,4) that set0 Chunk_isSet [of rnd] by blast
  moreover have "m' \<noteq> []"
    using t' ne by (auto simp: table_has_def)
  ultimately show "loadable m'"
    using partition_loadable [OF p' ok(2)] by blast
  show "newest_version ns ep st v'" "epoch v' = ep"
    using cs(3) [OF get(2)] applyChangedChunks_version [OF app get(2)]
    by (auto simp: newest_version_def N_def doc_version_def)
qed

lemma same_version_mirrors:
  assumes ok: "config_ok ns ep a b st0" "config_ok ns ep a b st" and old: "mirrors ns ep a b st0 cm" "renews ns st0 st"
    and v: "newest_version ns ep st v" "combined v = combined (collectionVersion cm)"
  shows "mirrors ns ep a b st cm"
proof -
  note docs0 = config_docs [OF ok(1)] and docs = config_docs [OF ok(2)]
  obtain d0 where d0: "d0 \<in> ns_docs ns st0" "combined (collectionVersion cm) = dlastmod d0"
    using old(1) by (auto simp: mirrors_def newest_version_def doc_version_def)
  have "\<forall>d\<in>ns_docs ns st. dlastmod d \<le> dlastmod d0"
    using v d0(2) by (auto simp: newest_version_def doc_version_def)
  then have sub: "ns_docs ns st \<subseteq> ns_docs ns st0"
    using old(2) d0(1) unfolding renews_def by (meson leD subsetI)
  have "ns_docs ns st0 \<subseteq> ns_docs ns st"
  proof
    fix d
    assume d: "d \<in> ns_docs ns st0"
    have k: "keyOf (dmin d) \<in> ivl (doc_ivl d)"
      using docs0(4) [OF d] by (simp add: ivl_def)
    then have "keyOf (dmin d) \<in> (\<Union>d\<in>ns_docs ns st. ivl (doc_ivl d))"
      unfolding docs(5) docs0(5) [symmetric] using d by blast
    then obtain e where e: "e \<in> ns_docs ns st" "keyOf (dmin d) \<in> ivl (doc_ivl e)"
      by blast
    then have "e = d"
      using docs0(3) [OF d, of e] sub k by blast
    then show "d \<in> ns_docs ns st"
      using e(1) by simp
  qed
  then show ?thesis
    using old(1) sub by (simp add: mirrors_def newest_version_def subset_antisym)
qed

lemma getChangedChunks_Inr:
  assumes "getChangedChunks collections st ns since = Inr cc"
  obtains coll v where "getCollection collections ns = Inr coll" "cc_epoch cc = the (coll_epoch coll)"
    "getChunks st (createConfigDiffQuery ns v) = Inr (cc_changedChunks cc)" "cc_changedChunks cc \<noteq> []"
    "v = (if epoch since = cc_epoch cc then since else ChunkVersion 0 0 (cc_epoch cc))"
  using assms by (auto simp: getChangedChunks_def Let_def rbind_Inr_iff uassert_def split: if_splits)

lemma makeNew_Inr:
  assumes "makeNew rnd seq nss kp coll uniq e cs = Inr (seq', cm)"
  shows "applyChangedChunks rnd ([], ChunkVersion 0 0 e) cs = Inr (chunkMap cm, collectionVersion cm)"
    "constructChunkMapViews (epoch (collectionVersion cm)) (chunkMap cm) = Inr (chunkMapViews cm)"
proof -
  obtain seq1 cm1 where 1: "ChunkManager seq nss kp coll uniq [] (ChunkVersion 0 0 e) = Inr (seq1, cm1)"
    and 2: "makeUpdated rnd seq1 cm1 cs = Inr (seq', cm)" "seq' \<noteq> seq1"
    using assms by (auto simp: makeNew_def rbind_Inr_iff split: if_splits)
  obtain v where "applyChangedChunks rnd (chunkMap cm1, collectionVersion cm1) cs = Inr (chunkMap cm, v)"
    "collectionVersion cm = v" "constructChunkMapViews (epoch v) (chunkMap cm) = Inr (chunkMapViews cm)"
    by (rule makeUpdated_Inr [OF 2])
  then show "applyChangedChunks rnd ([], ChunkVersion 0 0 e) cs = Inr (chunkMap cm, collectionVersion cm)"
    "constructChunkMapViews (epoch (collectionVersion cm)) (chunkMap cm) = Inr (chunkMapViews cm)"
    using ChunkManager_Inr [OF 1] by simp_all
qed

text \<open>The table a refresh starts from: none, or one that mirrors an earlier state.\<close>

definition earlier_table :: "string \<Rightarrow> oid \<Rightarrow> bson_key \<Rightarrow> bson_key \<Rightarrow> store \<Rightarrow> chunk_manager option \<Rightarrow> bool" where
  "earlier_table ns ep a b st existing \<longleftrightarrow>
     (\<forall>cm. existing = Some cm \<longrightarrow> (\<exists>st0. config_ok ns ep a b st0 \<and> mirrors ns ep a b st0 cm \<and> renews ns st0 st))"

definition startingVersion :: "chunk_manager option \<Rightarrow> chunk_version" where
  "startingVersion existing = (case existing of Some cm \<Rightarrow> collectionVersion cm | None \<Rightarrow> UNSHARDED)"

lemma mirrorsI:
  "\<lbrakk>chunk_partition a b (chunkMap cm); loadable (chunkMap cm); table_has ep (ns_docs ns st) (chunkMap cm);
    newest_version ns ep st (collectionVersion cm);
    constructChunkMapViews (epoch (collectionVersion cm)) (chunkMap cm) = Inr (chunkMapViews cm)\<rbrakk>
    \<Longrightarrow> mirrors ns ep a b st cm"
  by (simp add: mirrors_def manager_of_def)

lemma loaded_mirrors:
  assumes ok: "config_ok ns ep a b st" "key_space a b" and existing: "earlier_table ns ep a b st existing"
    and load: "getChangedChunks collections st ns (startingVersion existing) = Inr cc" "cc_epoch cc = ep"
    and refresh: "chunkManagerFrom env seq ns existing cc = Inr (seq', cm')"
  shows "mirrors ns ep a b st cm'"
proof -
  obtain v where get: "getChunks st (createConfigDiffQuery ns v) = Inr (cc_changedChunks cc)" "cc_changedChunks cc \<noteq> []"
    and v: "v = (if epoch (startingVersion existing) = cc_epoch cc then startingVersion existing else ChunkVersion 0 0 (cc_epoch cc))"
    using getChangedChunks_Inr [OF load(1)] by metis
  show ?thesis
  proof (cases existing)
    case None
    then have new: "makeTable env seq ns cc = Inr (seq', cm')"
      using refresh by (simp add: chunkManagerFrom_def)
    then obtain coll where "makeNew (initialBytes env) seq ns (cc_shardKeyPattern cc) coll (cc_shardKeyIsUnique cc)
        (cc_epoch cc) (cc_changedChunks cc) = Inr (seq', cm')"
      by (auto simp: makeTable_def rbind_Inr_iff)
    note m = makeNew_Inr [OF this]
    have v0: "v = ChunkVersion 0 0 ep"
      unfolding v using None load(2) by (auto simp: startingVersion_def UNSHARDED_def ChunkVersion_def)
    then have "[] = [] \<and> combined v = 0 \<or> P" for P
      by (simp add: ChunkVersion_def)
    note changes = changes_mirror [OF ok get m(1) [unfolded load(2), folded v0] this]
    show ?thesis
      by (rule mirrorsI) (use changes m(2) in simp_all)
  next
    case (Some cm)
    then obtain st0 where st0: "config_ok ns ep a b st0" "mirrors ns ep a b st0 cm" "renews ns st0 st"
      using existing by (auto simp: earlier_table_def)
    then have ep: "epoch (collectionVersion cm) = ep"
      by (auto simp: mirrors_def newest_version_def doc_version_def)
    then have v0: "v = collectionVersion cm"
      unfolding v using Some load(2) by (simp add: startingVersion_def)
    have "makeUpdated (initialBytes env) seq cm (cc_changedChunks cc) = Inr (seq', cm')"
      using refresh Some ep load(2) by (simp add: chunkManagerFrom_def)
    then obtain m' v' where app: "applyChangedChunks (initialBytes env) (chunkMap cm, v) (cc_changedChunks cc) = Inr (m', v')"
      and upd: "if version_equals v' v then cm' = cm
        else ChunkManager seq (cm_nss cm) (cm_keyPattern cm) (cm_hasCollator cm) (cm_unique cm) m' v' = Inr (seq', cm')"
      by (auto simp: makeUpdated_def rbind_Inr_iff v0 split: if_splits)
    note changes = changes_mirror [OF ok get app]
    have "chunkMap cm = [] \<and> combined v = 0 \<or> (\<exists>st0 cm'. config_ok ns ep a b st0 \<and> mirrors ns ep a b st0 cm'
        \<and> renews ns st0 st \<and> chunkMap cm = chunkMap cm' \<and> v = collectionVersion cm')"
      using st0 v0 by blast
    note changes = changes [OF this]
    show ?thesis
    proof (cases "version_equals v' v")
      case True
      then have "combined v' = combined (collectionVersion cm)"
        by (auto simp: version_equals_def v0 split: if_splits)
      then show ?thesis
        using same_version_mirrors [OF st0(1) ok(1) st0(2,3) changes(4)] upd True by simp
    next
      case False
      note cm' = ChunkManager_Inr [OF upd [unfolded if_not_P [OF False]]]
      show ?thesis
        by (rule mirrorsI) (use changes cm' in simp_all)
    qed
  qed
qed

subsection \<open>Refreshes that succeed\<close>

definition storable_doc :: "bson_obj \<Rightarrow> bool" where
  "storable_doc d \<longleftrightarrow> dmin d \<noteq> [] \<and> map fst (dmin d) = map fst (dmax d) \<and> dshard d \<noteq> [] \<and> dlastmod d \<noteq> 0
     \<and> (\<exists>j. getField d ''jumbo'' = map_option Bool j)"

lemma storable_parses:
  assumes "storable_doc d" "doc_ok ns ep d" "keyOf (dmin d) < keyOf (dmax d)"
  obtains c where "fromConfigBSON d = Inr c" "validate c = Inr ()" "type_view c = doc_view ep d"
proof -
  obtain j where j: "getField d ''jumbo'' = map_option Bool j"
    using assms(1) by (auto simp: storable_doc_def)
  have "dmin d \<noteq> []" "dmax d \<noteq> []" "woCompare (dmin d) (dmax d) < 0"
    using assms(1,3) by (auto simp: storable_doc_def key_simps)
  then have c: "fromConfigBSON d = Inr \<lparr>chunk_ns = Some ns, chunk_min = Some (dmin d), chunk_max = Some (dmax d),
      chunk_version = Some (doc_version ep d), chunk_shard = Some (dshard d), chunk_jumbo = j\<rparr>"
    using assms(2) j by (intro fromConfigBSON_fields) (auto simp: doc_ok_def fromBSON_version [OF assms(2)])
  then show thesis
    using that fromConfigBSON_view [OF c assms(2)] assms(1) \<open>dmax d \<noteq> []\<close> \<open>woCompare (dmin d) (dmax d) < 0\<close>
    by (auto simp: validate_iff storable_doc_def doc_version_def isSet_def word_gt_0)
qed

lemma parse_succeeds:
  assumes "\<forall>d\<in>set ds. storable_doc d \<and> doc_ok ns ep d \<and> keyOf (dmin d) < keyOf (dmax d) \<and> combined v \<le> dlastmod d"
    "sorted_wrt (\<lambda>x y. dlastmod x \<le> dlastmod y) ds" "epoch v = ep"
  shows "\<exists>cs. parseChunks ds = Inr cs \<and> newer_changes v cs"
  using assms
proof (induction ds arbitrary: v)
  case (Cons d ds)
  obtain c where c: "fromConfigBSON d = Inr c" "validate c = Inr ()" "type_view c = doc_view ep d"
    using Cons.prems(1) by (auto elim: storable_parses)
  then have w: "the (chunk_version c) = doc_version ep d"
    by (simp add: type_view_def doc_view_def)
  obtain cs where "parseChunks ds = Inr cs" "newer_changes (doc_version ep d) cs"
    using Cons.IH [of "doc_version ep d"] Cons.prems by (auto simp: doc_version_def)
  then show ?case
    using c w Cons.prems by (auto simp: version_le_def doc_version_def)
qed simp

lemma load_succeeds:
  assumes ok: "config_ok ns ep a b st" and docs: "\<forall>d\<in>ns_docs ns st. storable_doc d" and v: "epoch v = ep"
    and d: "d \<in> ns_docs ns st" "combined v \<le> dlastmod d"
  shows "\<exists>cs. getChunks st (createConfigDiffQuery ns v) = Inr cs \<and> newer_changes v cs \<and> cs \<noteq> []"
proof -
  note cd = config_docs [OF ok]
  let ?ds = "sortByLastmod (filter (createConfigDiffQuery ns v) st)"
  have set: "set ?ds = {d \<in> ns_docs ns st. combined v \<le> dlastmod d}"
    using diffQuery_docs [of ns st ep v] cd(1) by simp
  then have okd: "\<forall>d\<in>set ?ds. storable_doc d \<and> doc_ok ns ep d \<and> keyOf (dmin d) < keyOf (dmax d) \<and> combined v \<le> dlastmod d"
    using docs cd(1,4) by blast
  then have "sorted_wrt (\<lambda>x y. dlastmod x \<le> dlastmod y) ?ds"
    by (intro sortByLastmod_sorted [of _ ns ep]) simp
  then obtain cs where cs: "parseChunks ?ds = Inr cs" "newer_changes v cs"
    using parse_succeeds [OF okd _ v] by blast
  moreover have "cs \<noteq> []"
    using cs(1) set d by (cases ?ds) (auto simp: rbind_Inr_iff)
  ultimately show ?thesis
    by (auto simp: getChunks_def)
qed

lemma om_insert_keys: "fst ` set (om_insert cmp k v m) \<subseteq> insert k (fst ` set m)"
  unfolding om_insert_def Let_def by (auto dest: in_set_takeD in_set_dropD)

lemma shardsInOrder_set: "set (shardsInOrder ids) \<subseteq> set ids"
proof (induction ids)
  case (Cons s ids)
  then show ?case
    using om_insert_keys [of stringdata_compare s "()" "foldr (\<lambda>s. om_insert stringdata_compare s ()) ids []"]
    by (simp add: shardsInOrder_def) blast
qed (simp add: shardsInOrder_def)

lemma checkShards_Inr: "\<forall>s\<in>set ss. get s = Inr () \<Longrightarrow> checkShards get ss = Inr ()"
  by (induction ss) auto

lemma mirrors_shards:
  assumes "mirrors ns ep a b st cm"
  shows "set (map fst (shardVersions (chunkMapViews cm))) = dshard ` ns_docs ns st"
proof -
  have "manager_of a b cm" and t: "table_has ep (ns_docs ns st) (chunkMap cm)"
    using assms by (simp_all add: mirrors_def)
  then have "fst ` set (shardVersions (chunkMapViews cm)) = shardId ` snd ` set (chunkMap cm)"
    using views_shards(1) [OF manager_of_views] by blast
  also have "\<dots> = (\<lambda>w. fst (snd (snd w))) ` (\<lambda>e. chunk_view (snd e)) ` set (chunkMap cm)"
    by (simp add: image_image chunk_view_def)
  also have "\<dots> = dshard ` ns_docs ns st"
    unfolding t [unfolded table_has_def] by (simp add: image_image doc_view_def)
  finally show ?thesis
    by simp
qed

text \<open>What a refresh needs besides the chunks: the collection entry, its collation and the shards.\<close>

definition refresh_ready :: "refresh_env \<Rightarrow> store \<Rightarrow> string \<Rightarrow> oid \<Rightarrow> store \<Rightarrow> bool" where
  "refresh_ready env collections ns ep st \<longleftrightarrow> (\<forall>d\<in>ns_docs ns st. storable_doc d \<and> getShard env (dshard d) = Inr ()) \<and>
     (\<exists>coll. getCollection collections ns = Inr coll \<and> coll_epoch coll = Some ep \<and>
       (coll_defaultCollation coll = [] \<or> (\<exists>c. makeFromBSON env (coll_defaultCollation coll) = Inr c)))"

lemma table_succeeds:
  assumes ok: "config_ok ns ep a b st" "key_space a b"
    and get: "getChunks st (createConfigDiffQuery ns v) = Inr cs" "newer_changes v cs" "cs \<noteq> []"
    and prior: "m = [] \<and> combined v = 0 \<or> (\<exists>st0 cm. config_ok ns ep a b st0 \<and> mirrors ns ep a b st0 cm
      \<and> renews ns st0 st \<and> m = chunkMap cm \<and> v = collectionVersion cm)"
  obtains m' v' where "applyChangedChunks rnd (m, v) cs = Inr (m', v')" "m = [] \<longrightarrow> combined v' \<noteq> 0"
    "\<And>seq nss kp coll uniq. \<exists>cm'. ChunkManager seq nss kp coll uniq m' v' = Inr (seq + 1, cm')"
proof -
  obtain m' v' where app: "applyChangedChunks rnd (m, v) cs = Inr (m', v')"
    using applyChangedChunks_newer [OF get(2)] by blast
  note r = changes_mirror [OF ok get(1,3) app prior]
  obtain views where "constructChunkMapViews (epoch v') m' = Inr views"
    using constructChunkMapViews_ok [OF r(1,2)] by blast
  then have "\<exists>cm'. ChunkManager seq nss kp coll uniq m' v' = Inr (seq + 1, cm')" for seq nss kp coll uniq
    by (simp add: ChunkManager_def)
  moreover have "combined v' \<noteq> 0"
  proof -
    have "validate (last cs) = Inr ()"
      using newer_changes_valid [OF get(2)] get(3) by simp
    then show ?thesis
      using applyChangedChunks_version [OF app get(3)] by (auto simp: validate_iff isSet_def)
  qed
  ultimately show thesis
    using that app by blast
qed

lemma refresh_succeeds:
  assumes ok: "config_ok ns ep a b st" "key_space a b" and existing: "earlier_table ns ep a b st existing"
    and grows: "\<forall>cm. existing = Some cm \<longrightarrow> (\<exists>d\<in>ns_docs ns st. combined (collectionVersion cm) \<le> dlastmod d)"
    and ready: "refresh_ready env collections ns ep st" and ne: "a < b"
  obtains cc seq' cm' where "getChangedChunks collections st ns (startingVersion existing) = Inr cc" "cc_epoch cc = ep"
    "refreshCollectionRoutingInfo env seq ns existing (Inr cc) = Inr (seq', Some cm')" "mirrors ns ep a b st cm'"
proof -
  obtain coll where coll: "getCollection collections ns = Inr coll" "coll_epoch coll = Some ep" "\<not> getDropped coll"
    and collation: "coll_defaultCollation coll = [] \<or> (\<exists>c. makeFromBSON env (coll_defaultCollation coll) = Inr c)"
    using ready by (auto simp: refresh_ready_def getCollection_def rbind_Inr_iff split: list.splits if_splits)
  define v where "v = (if epoch (startingVersion existing) = ep then startingVersion existing else ChunkVersion 0 0 ep)"
  have prior: "existing = None \<and> v = ChunkVersion 0 0 ep \<or> (\<exists>cm. existing = Some cm \<and> v = collectionVersion cm \<and> epoch v = ep)"
    using existing by (cases existing) (auto simp: v_def startingVersion_def UNSHARDED_def ChunkVersion_def
        earlier_table_def mirrors_def newest_version_def doc_version_def)
  then obtain d where d: "epoch v = ep" "d \<in> ns_docs ns st" "combined v \<le> dlastmod d"
  proof (elim disjE exE conjE)
    assume "existing = None" "v = ChunkVersion 0 0 ep"
    moreover obtain d where "d \<in> ns_docs ns st"
      using config_docs(5) [OF ok(1)] ne by force
    ultimately show thesis
      using that by (simp add: ChunkVersion_def)
  qed (use grows that in auto)
  have docs: "\<forall>d\<in>ns_docs ns st. storable_doc d" "\<forall>s\<in>dshard ` ns_docs ns st. getShard env s = Inr ()"
    using ready by (simp_all add: refresh_ready_def)
  obtain cs where cs: "getChunks st (createConfigDiffQuery ns v) = Inr cs" "newer_changes v cs" "cs \<noteq> []"
    using load_succeeds [OF ok(1) docs(1) d] by blast
  define cc where "cc = \<lparr>cc_uuid = coll_uuid coll, cc_epoch = ep, cc_shardKeyPattern = the (coll_keyPattern coll),
    cc_defaultCollation = coll_defaultCollation coll, cc_shardKeyIsUnique = getUnique coll, cc_changedChunks = cs\<rparr>"
  have load: "getChangedChunks collections st ns (startingVersion existing) = Inr cc" "cc_epoch cc = ep"
    using coll cs unfolding v_def by (simp_all add: getChangedChunks_def cc_def)
  obtain seq' cm' where new: "chunkManagerFrom env seq ns existing cc = Inr (seq', cm')"
    using prior
  proof (elim disjE exE conjE)
    assume none: "existing = None" "v = ChunkVersion 0 0 ep"
    then have "combined v = 0"
      by (simp add: ChunkVersion_def)
    then obtain m' v' where app: "applyChangedChunks (initialBytes env) ([], v) cs = Inr (m', v')" "combined v' \<noteq> 0"
      and cm: "\<And>seq nss kp coll uniq. \<exists>cm'. ChunkManager seq nss kp coll uniq m' v' = Inr (seq + 1, cm')"
      by (rule table_succeeds [OF ok cs disjI1 [OF conjI [OF refl]], of "initialBytes env"]) blast
    have "\<exists>seq' cm'. makeNew (initialBytes env) seq ns kp c uniq ep cs = Inr (seq', cm')" for kp c uniq
    proof -
      obtain cm0 where cm0: "ChunkManager seq ns kp c uniq [] v = Inr (seq + 1, cm0)"
        by (simp add: ChunkManager_def constructChunkMapViews_def)
      obtain cm1 where "ChunkManager (seq + 1) (cm_nss cm0) (cm_keyPattern cm0) (cm_hasCollator cm0) (cm_unique cm0) m' v'
          = Inr (seq + 1 + 1, cm1)"
        using cm by blast
      moreover have "\<not> version_equals v' v"
        using app(2) \<open>combined v = 0\<close> by (auto simp: version_equals_def split: if_splits)
      ultimately have "makeUpdated (initialBytes env) (seq + 1) cm0 cs = Inr (seq + 1 + 1, cm1)"
        using app(1) by (simp add: makeUpdated_def ChunkManager_Inr(1,2) [OF cm0])
      then show ?thesis
        using cm0 none(2) by (simp add: makeNew_def)
    qed
    moreover obtain c where "(if cc_defaultCollation cc \<noteq> [] then makeFromBSON env (cc_defaultCollation cc) else Inr False) = Inr c"
      using collation by (cases "coll_defaultCollation coll = []") (auto simp: cc_def)
    ultimately have "\<exists>seq' cm'. makeTable env seq ns cc = Inr (seq', cm')"
      unfolding makeTable_def by (simp only: rbind_simps) (simp add: cc_def)
    then show thesis
      using that none(1) by (auto simp: chunkManagerFrom_def)
  next
    fix cm
    assume cm: "existing = Some cm" "v = collectionVersion cm" "epoch v = ep"
    then have "\<exists>st0 cm'. config_ok ns ep a b st0 \<and> mirrors ns ep a b st0 cm'
        \<and> renews ns st0 st \<and> chunkMap cm = chunkMap cm' \<and> v = collectionVersion cm'"
      using existing by (auto simp: earlier_table_def)
    then obtain m' v' where app: "applyChangedChunks (initialBytes env) (chunkMap cm, v) cs = Inr (m', v')"
      and "\<And>seq nss kp coll uniq. \<exists>cm'. ChunkManager seq nss kp coll uniq m' v' = Inr (seq + 1, cm')"
      by (rule table_succeeds [OF ok cs disjI2, of "chunkMap cm" "initialBytes env"]) blast
    then have "\<exists>seq' cm'. makeUpdated (initialBytes env) seq cm cs = Inr (seq', cm')"
      unfolding makeUpdated_def cm(2) by (cases "version_equals v' (collectionVersion cm)") (simp_all, metis)
    then show thesis
      using that cm by (auto simp: chunkManagerFrom_def cc_def)
  qed
  have m: "mirrors ns ep a b st cm'"
    by (rule loaded_mirrors [OF ok existing load new])
  have "checkShards (getShard env) (shardsInOrder (map fst (shardVersions (chunkMapViews cm')))) = Inr ()"
    using docs(2) [folded mirrors_shards [OF m]] shardsInOrder_set by (intro checkShards_Inr) (meson subsetD)
  then show thesis
    using that load m new by (simp add: refreshCollectionRoutingInfo_def)
qed

subsection \<open>Routing follows the config server\<close>

definition routes_to_owners :: "string \<Rightarrow> bson_key \<Rightarrow> bson_key \<Rightarrow> store \<Rightarrow> chunk_manager \<Rightarrow> bool" where
  "routes_to_owners ns a b st cm \<longleftrightarrow>
     (\<forall>k. case findIntersectingChunkWithSimpleCollation cm k of
        Inr c \<Rightarrow> owner ns st (keyOf k) (shardId c)
      | Inl _ \<Rightarrow> \<not> (a \<le> keyOf k \<and> keyOf k < b))"

lemma mirrors_routes:
  assumes "mirrors ns ep a b st cm"
  shows "routes_to_owners ns a b st cm"
  unfolding routes_to_owners_def
proof
  fix k
  have p: "chunk_partition a b (chunkMap cm)" and t: "table_has ep (ns_docs ns st) (chunkMap cm)"
    using assms by (simp_all add: mirrors_def manager_of_def)
  show "case findIntersectingChunkWithSimpleCollation cm k of
      Inr c \<Rightarrow> owner ns st (keyOf k) (shardId c) | Inl _ \<Rightarrow> \<not> (a \<le> keyOf k \<and> keyOf k < b)"
  proof (cases "\<exists>e\<in>set (chunkMap cm). Chunk_containsKey (snd e) k")
    case True
    then obtain e where e: "e \<in> set (chunkMap cm)" "Chunk_containsKey (snd e) k"
      by blast
    then have "chunk_view (snd e) \<in> doc_view ep ` ns_docs ns st"
      using t unfolding table_has_def by blast
    then obtain d where d: "d \<in> ns_docs ns st" "chunk_view (snd e) = doc_view ep d"
      by blast
    then have "doc_ivl d = chunk_ivl (snd e)" "dshard d = shardId (snd e)"
      by (simp_all add: chunk_view_def doc_view_def)
    then have "owner ns st (keyOf k) (shardId (snd e))"
      using d(1) e(2) by (auto simp: owner_def Chunk_containsKey_ivl intro!: bexI [of _ d])
    then show ?thesis
      by (simp add: find_chunk_Inr [OF p e])
  next
    case False
    then have "\<not> (a \<le> keyOf k \<and> keyOf k < b)"
      using chunk_partition_ex1 [OF p, of k] by blast
    then show ?thesis
      using False by (simp add: find_chunk_Inl)
  qed
qed


definition sample_env :: refresh_env where
  "sample_env = \<lparr>makeFromBSON = (\<lambda>_. Inr False), getShard = (\<lambda>_. Inr ()), initialBytes = (\<lambda>_. 0)\<rparr>"

definition sample_collections :: store where
  "sample_collections = [Collection_toBSON sample_collection]"

lemma sample_key_space: "key_space (keyOf min_key) (keyOf max_key)"
  unfolding key_space_def by (intro conjI exI [of _ min_key] exI [of _ max_key]) (auto simp: min_key_def max_key_def)

lemma sample_collection_epoch:
  "getCollection sample_collections ''d.c'' = Inr (sample_collection\<lparr>coll_dropped := Some False\<rparr>)"
  "coll_epoch sample_collection = Some 7"
  by code_simp+

lemma sample_ready: "refresh_ready sample_env sample_collections ''d.c'' 7 sample_store"
proof -
  have "\<forall>d\<in>ns_docs ''d.c'' sample_store. storable_doc d"
    unfolding sample_store_ns by (simp add: sample_store_def storable_doc_def) (simp add: sample_doc_def ChunkVersion_def
        min_key_def int_key_def max_key_def)
  then show ?thesis
    by (simp add: refresh_ready_def sample_env_def sample_collection_epoch) (simp add: sample_collection_def)
qed


end
