(* ===== verification/Catalog_Cache.thy ===== *)
theory Catalog_Cache
  imports Router_Refresh
begin

text \<open>
  The cache of routing tables of a router (\<open>s/catalog_cache.cpp\<close>): entries by database and
  collection, the refreshes that load tables in the background, and the operations that answer,
  invalidate and purge. Database entries are shared: a running refresh keeps the entry it started
  from after the database is purged, so entries and notifications live in heaps and are referred
  to by address. A call of the model is a critical section of the code: between the scheduling
  of a refresh and its callback other operations run. A waiting thread reads the notification
  when it is set. Not modelled: timers, logging, and the counter of the time spent waiting.
\<close>

subsection \<open>State\<close>

record coll_entry =
  needsRefresh :: bool
  refreshCompletionNotification :: "nat option"
  routingInfo :: "chunk_manager option"

record db_entry =
  primaryShardId :: shard_id
  shardingEnabled :: bool
  collections :: "(string \<times> coll_entry) list"

record cache_stats =
  countStaleConfigErrors :: "64 word"
  numActiveIncrementalRefreshes :: "64 word"
  countIncrementalRefreshesStarted :: "64 word"
  numActiveFullRefreshes :: "64 word"
  countFullRefreshesStarted :: "64 word"
  countFailedRefreshes :: "64 word"

text \<open>What the callback of a scheduled load captures.\<close>

record refresh_task =
  task_db :: nat
  task_nss :: string
  task_existing :: "chunk_manager option"
  task_attempt :: nat

record catalog_cache =
  databases :: "(string \<times> nat) list"
  db_heap :: "db_entry list"
  notifications :: "unit result option list"
  tasks :: "refresh_task list"
  stats :: cache_stats

definition new_entry :: coll_entry where
  "new_entry = \<lparr>needsRefresh = True, refreshCompletionNotification = None, routingInfo = None\<rparr>"

definition empty_cache :: catalog_cache where
  "empty_cache = \<lparr>databases = [], db_heap = [], notifications = [], tasks = [],
     stats = \<lparr>countStaleConfigErrors = 0, numActiveIncrementalRefreshes = 0, countIncrementalRefreshesStarted = 0,
       numActiveFullRefreshes = 0, countFullRefreshesStarted = 0, countFailedRefreshes = 0\<rparr>\<rparr>"

definition collEntry :: "catalog_cache \<Rightarrow> nat \<Rightarrow> string \<Rightarrow> coll_entry option" where
  "collEntry c db ns = map_of (collections (db_heap c ! db)) ns"

definition setCollections :: "nat \<Rightarrow> ((string \<times> coll_entry) list \<Rightarrow> (string \<times> coll_entry) list) \<Rightarrow> catalog_cache \<Rightarrow> catalog_cache" where
  "setCollections db f c =
     c\<lparr>db_heap := (db_heap c)[db := (db_heap c ! db)\<lparr>collections := f (collections (db_heap c ! db))\<rparr>]\<rparr>"

definition setEntry :: "nat \<Rightarrow> string \<Rightarrow> coll_entry \<Rightarrow> catalog_cache \<Rightarrow> catalog_cache" where
  "setEntry db ns e = setCollections db (AList.update ns e)"

definition eraseEntry :: "nat \<Rightarrow> string \<Rightarrow> catalog_cache \<Rightarrow> catalog_cache" where
  "eraseEntry db ns = setCollections db (AList.delete ns)"

definition onStats :: "(cache_stats \<Rightarrow> cache_stats) \<Rightarrow> catalog_cache \<Rightarrow> catalog_cache" where
  "onStats f c = c\<lparr>stats := f (stats c)\<rparr>"

text \<open>\<open>Notification::set\<close> through a shared pointer: a null pointer is undefined, a second \<open>set\<close> fatal.\<close>

definition notify :: "nat option \<Rightarrow> unit result \<Rightarrow> catalog_cache \<Rightarrow> catalog_cache result" where
  "notify n status c =
     (case n of
        None \<Rightarrow> Inl UndefinedBehaviour
      | Some i \<Rightarrow>
          rbind (invariant (notifications c ! i = None)) (\<lambda>_.
            Inr (c\<lparr>notifications := (notifications c)[i := Some status]\<rparr>)))"

subsection \<open>Invalidation and purging\<close>

definition invalidateShardedCollection :: "string \<Rightarrow> catalog_cache \<Rightarrow> catalog_cache" where
  "invalidateShardedCollection nss c =
     (case map_of (databases c) (nss_db nss) of
        None \<Rightarrow> c
      | Some db \<Rightarrow>
          setEntry db nss ((case collEntry c db nss of Some e \<Rightarrow> e | None \<Rightarrow> new_entry)\<lparr>needsRefresh := True\<rparr>) c)"

definition purgeCollection :: "string \<Rightarrow> catalog_cache \<Rightarrow> catalog_cache" where
  "purgeCollection nss c =
     (case map_of (databases c) (nss_db nss) of None \<Rightarrow> c | Some db \<Rightarrow> eraseEntry db nss c)"

definition purgeDatabase :: "string \<Rightarrow> catalog_cache \<Rightarrow> catalog_cache" where
  "purgeDatabase dbName c = c\<lparr>databases := AList.delete dbName (databases c)\<rparr>"

definition purgeAllDatabases :: "catalog_cache \<Rightarrow> catalog_cache" where
  "purgeAllDatabases c = c\<lparr>databases := []\<rparr>"

record cached_info =
  ci_primaryId :: shard_id
  ci_nss :: string
  ci_cm :: "chunk_manager option"

definition onStaleConfigError :: "cached_info \<Rightarrow> catalog_cache \<Rightarrow> catalog_cache result" where
  "onStaleConfigError ccri c0 =
     (let c = onStats (\<lambda>s. s\<lparr>countStaleConfigErrors := countStaleConfigErrors s + 1\<rparr>) c0
      in case ci_cm ccri of
           None \<Rightarrow> Inr (invalidateShardedCollection (ci_nss ccri) c)
         | Some cm \<Rightarrow>
             (case map_of (databases c) (nss_db (cm_nss cm)) of
                None \<Rightarrow> Inr c
              | Some db \<Rightarrow>
                  (case collEntry c db (cm_nss cm) of
                     None \<Rightarrow> Inr c
                   | Some e \<Rightarrow>
                       if needsRefresh e then Inr c
                       else (case routingInfo e of
                           None \<Rightarrow> Inl UndefinedBehaviour
                         | Some cached \<Rightarrow>
                             if version_equals (collectionVersion cached) (collectionVersion cm)
                             then Inr (setEntry db (cm_nss cm) (e\<lparr>needsRefresh := True\<rparr>) c)
                             else Inr c))))"

definition report :: "catalog_cache \<Rightarrow> nat \<times> nat" where
  "report c = (length (databases c), foldl (\<lambda>n d. n + length (collections (db_heap c ! snd d))) 0 (databases c))"

subsection \<open>Refreshes\<close>

definition kMaxInconsistentRoutingInfoRefreshAttempts :: nat where
  "kMaxInconsistentRoutingInfoRefreshAttempts = 3"

definition refreshStarted :: "chunk_manager option \<Rightarrow> cache_stats \<Rightarrow> cache_stats" where
  "refreshStarted existing s =
     (if existing \<noteq> None
      then s\<lparr>numActiveIncrementalRefreshes := numActiveIncrementalRefreshes s + 1,
             countIncrementalRefreshesStarted := countIncrementalRefreshesStarted s + 1\<rparr>
      else s\<lparr>numActiveFullRefreshes := numActiveFullRefreshes s + 1,
             countFullRefreshesStarted := countFullRefreshesStarted s + 1\<rparr>)"

definition onRefreshCompleted :: "chunk_manager option \<Rightarrow> bool \<Rightarrow> cache_stats \<Rightarrow> cache_stats" where
  "onRefreshCompleted existing isOK s =
     (let s1 = (if existing \<noteq> None
                then s\<lparr>numActiveIncrementalRefreshes := numActiveIncrementalRefreshes s - 1\<rparr>
                else s\<lparr>numActiveFullRefreshes := numActiveFullRefreshes s - 1\<rparr>)
      in if isOK then s1 else s1\<lparr>countFailedRefreshes := countFailedRefreshes s1 + 1\<rparr>)"

text \<open>
  The thread pool of the loader accepts the load of an attempt, or fails with an error code. A load
  that cannot be scheduled fails at once; a load that fails because the metadata is changing is
  scheduled again, from scratch, up to the third attempt.
\<close>

function scheduleCollectionRefresh ::
    "(nat \<Rightarrow> error_code option) \<Rightarrow> nat \<Rightarrow> chunk_manager option \<Rightarrow> string \<Rightarrow> nat \<Rightarrow> catalog_cache \<Rightarrow> catalog_cache result"
  and onRefreshFailed ::
    "(nat \<Rightarrow> error_code option) \<Rightarrow> refresh_task \<Rightarrow> error_code \<Rightarrow> catalog_cache \<Rightarrow> catalog_cache result" where
  "scheduleCollectionRefresh sched db existing nss attempt c =
     (let c1 = onStats (refreshStarted existing) c;
          task = \<lparr>task_db = db, task_nss = nss, task_existing = existing, task_attempt = attempt\<rparr>
      in case sched attempt of
           None \<Rightarrow> Inr (c1\<lparr>tasks := tasks c1 @ [task]\<rparr>)
         | Some code \<Rightarrow>
             rbind (invariant (code \<noteq> ConflictingOperationInProgress)) (\<lambda>_.
               onRefreshFailed sched task code c1))"
| "onRefreshFailed sched task code c =
     (let c1 = onStats (onRefreshCompleted (task_existing task) False) c
      in case collEntry c1 (task_db task) (task_nss task) of
           None \<Rightarrow> Inl Fatal
         | Some e \<Rightarrow>
             if code = ConflictingOperationInProgress \<and> task_attempt task < kMaxInconsistentRoutingInfoRefreshAttempts
             then scheduleCollectionRefresh sched (task_db task) None (task_nss task) (task_attempt task + 1) c1
             else rbind (notify (refreshCompletionNotification e) (Inl (Error code)) c1) (\<lambda>c2.
                    Inr (setEntry (task_db task) (task_nss task) (e\<lparr>refreshCompletionNotification := None\<rparr>) c2)))"
  by pat_completeness auto
termination
  by (relation "measure (\<lambda>x. case x of Inl (_, _, _, _, n, _) \<Rightarrow> 2 * (4 - n) + 1 | Inr (_, t, _, _) \<Rightarrow> 2 * (4 - task_attempt t))")
    (auto simp: kMaxInconsistentRoutingInfoRefreshAttempts_def)

definition refreshCallback ::
    "refresh_env \<Rightarrow> (nat \<Rightarrow> error_code option) \<Rightarrow> 32 word \<Rightarrow> refresh_task
      \<Rightarrow> collection_and_changed_chunks result \<Rightarrow> catalog_cache \<Rightarrow> (32 word \<times> catalog_cache) result" where
  "refreshCallback env sched seq task sw c =
     (case refreshCollectionRoutingInfo env seq (task_nss task) (task_existing task) sw of
        Inl (Error code) \<Rightarrow> rbind (onRefreshFailed sched task code c) (\<lambda>c'. Inr (seq, c'))
      | Inl f \<Rightarrow> Inl f
      | Inr (seq', newRoutingInfo) \<Rightarrow>
          let c1 = onStats (onRefreshCompleted (task_existing task) True) c
          in case collEntry c1 (task_db task) (task_nss task) of
               None \<Rightarrow> Inl Fatal
             | Some e \<Rightarrow>
                 rbind (notify (refreshCompletionNotification e) (Inr ()) c1) (\<lambda>c2.
                   let e' = e\<lparr>needsRefresh := False, refreshCompletionNotification := None\<rparr>
                   in Inr (seq', case newRoutingInfo of
                        None \<Rightarrow> eraseEntry (task_db task) (task_nss task) c2
                      | Some cm \<Rightarrow> setEntry (task_db task) (task_nss task) (e'\<lparr>routingInfo := Some cm\<rparr>) c2)))"

text \<open>The thread pool runs the \<open>i\<close>-th scheduled load, with the result \<open>sw\<close> of the loader.\<close>

definition runTask ::
    "refresh_env \<Rightarrow> (nat \<Rightarrow> error_code option) \<Rightarrow> 32 word \<Rightarrow> nat
      \<Rightarrow> collection_and_changed_chunks result \<Rightarrow> catalog_cache \<Rightarrow> (32 word \<times> catalog_cache) result" where
  "runTask env sched seq i sw c =
     refreshCallback env sched seq (tasks c ! i) sw (c\<lparr>tasks := take i (tasks c) @ drop (Suc i) (tasks c)\<rparr>)"

subsection \<open>Answers\<close>

fun collectionEntries :: "collection_type list \<Rightarrow> (string \<times> coll_entry) list \<Rightarrow> (string \<times> coll_entry) list" where
  "collectionEntries [] es = es"
| "collectionEntries (coll # colls) es =
     collectionEntries colls (if getDropped coll then es else AList.update (the (coll_fullNs coll)) new_entry es)"

record config_view =
  cv_nearest :: store
  cv_primary :: store
  cv_collections :: store

definition getDatabaseEntry :: "config_view \<Rightarrow> string \<Rightarrow> catalog_cache \<Rightarrow> (catalog_cache \<times> nat) result" where
  "getDatabaseEntry cv dbName c =
     (case map_of (databases c) dbName of
        Some db \<Rightarrow> Inr (c, db)
      | None \<Rightarrow>
          rbind (getDatabase (cv_nearest cv) (cv_primary cv) dbName) (\<lambda>dbDesc.
          rbind (getCollections (cv_collections cv) dbName) (\<lambda>colls.
            let entry = \<lparr>primaryShardId = the (db_primary dbDesc), shardingEnabled = the (db_sharded dbDesc),
                         collections = collectionEntries colls []\<rparr>;
                db = length (db_heap c)
            in Inr (c\<lparr>db_heap := db_heap c @ [entry], databases := AList.update dbName db (databases c)\<rparr>, db))))"

datatype lookup = Answer "cached_info result" | WaitFor nat

text \<open>One pass of the loop: an answer, or the notification to wait for before the next pass.\<close>

definition getCollectionRoutingInfo ::
    "refresh_env \<Rightarrow> config_view \<Rightarrow> (nat \<Rightarrow> error_code option) \<Rightarrow> string \<Rightarrow> catalog_cache
      \<Rightarrow> (catalog_cache \<times> lookup) result" where
  "getCollectionRoutingInfo env cv sched nss c =
     (case getDatabaseEntry cv (nss_db nss) c of
        Inl (Error code) \<Rightarrow> Inr (c, Answer (Inl (Error code)))
      | Inl f \<Rightarrow> Inl f
      | Inr (c1, db) \<Rightarrow>
          (case collEntry c1 db nss of
             None \<Rightarrow>
               (case getShard env (primaryShardId (db_heap c1 ! db)) of
                  Inl _ \<Rightarrow> Inr (c1, Answer (Inl (Error (ErrorNo 40371))))
                | Inr _ \<Rightarrow> Inr (c1, Answer (Inr \<lparr>ci_primaryId = primaryShardId (db_heap c1 ! db), ci_nss = nss, ci_cm = None\<rparr>)))
           | Some e \<Rightarrow>
               if needsRefresh e then
                 (case refreshCompletionNotification e of
                    Some n \<Rightarrow> Inr (c1, WaitFor n)
                  | None \<Rightarrow>
                      let n = length (notifications c1);
                          c2 = c1\<lparr>notifications := notifications c1 @ [None]\<rparr>;
                          c3 = setEntry db nss (e\<lparr>refreshCompletionNotification := Some n, routingInfo := None\<rparr>) c2
                      in rbind (scheduleCollectionRefresh sched db (routingInfo e) nss 1 c3) (\<lambda>c4. Inr (c4, WaitFor n)))
               else Inr (c1, Answer (Inr \<lparr>ci_primaryId = primaryShardId (db_heap c1 ! db), ci_nss = [], ci_cm = routingInfo e\<rparr>))))"

text \<open>What a thread does with the notification it waits for: wait on, fail, or pass the loop again.\<close>

definition refreshStatus :: "nat \<Rightarrow> catalog_cache \<Rightarrow> unit result option" where
  "refreshStatus n c = notifications c ! n"

definition getCollectionRoutingInfoWithRefresh ::
    "refresh_env \<Rightarrow> config_view \<Rightarrow> (nat \<Rightarrow> error_code option) \<Rightarrow> string \<Rightarrow> catalog_cache
      \<Rightarrow> (catalog_cache \<times> lookup) result" where
  "getCollectionRoutingInfoWithRefresh env cv sched nss c =
     getCollectionRoutingInfo env cv sched nss (invalidateShardedCollection nss c)"

definition getShardedCollectionRoutingInfoWithRefresh :: "cached_info result \<Rightarrow> cached_info result" where
  "getShardedCollectionRoutingInfoWithRefresh routingInfoStatus =
     (case routingInfoStatus of
        Inr info \<Rightarrow> if ci_cm info = None then Inl (Error NamespaceNotSharded) else Inr info
      | Inl f \<Rightarrow> Inl f)"

end
