(* ===== verification/Cache_Invariant.thy ===== *)
theory Cache_Invariant
  imports Catalog_Cache
begin

text \<open>
  Safety of the cache of routing tables under every interleaving of its critical sections: every
  running refresh has its entry and its notification, every entry that is fresh has a table, and
  the counters of active refreshes count the running refreshes. As long as no collection is purged
  while it is refreshed, no operation of the cache aborts the process.
\<close>

subsection \<open>Entries as a map\<close>

definition entries :: "catalog_cache \<Rightarrow> nat \<times> string \<Rightarrow> coll_entry option" where
  "entries c k = (if fst k < length (db_heap c) then collEntry c (fst k) (snd k) else None)"

lemma setCollections_simps [simp]:
  "databases (setCollections db f c) = databases c" "length (db_heap (setCollections db f c)) = length (db_heap c)"
  "notifications (setCollections db f c) = notifications c" "tasks (setCollections db f c) = tasks c"
  "stats (setCollections db f c) = stats c"
  by (simp_all add: setCollections_def)

lemma entries_setEntry [simp]:
  "db < length (db_heap c) \<Longrightarrow> entries (setEntry db ns e c) = (entries c)((db, ns) \<mapsto> e)"
  by (auto simp: entries_def setEntry_def setCollections_def collEntry_def fun_eq_iff update_conv' nth_list_update)

lemma entries_eraseEntry [simp]:
  "db < length (db_heap c) \<Longrightarrow> entries (eraseEntry db ns c) = (entries c)((db, ns) := None)"
  by (auto simp: entries_def eraseEntry_def setCollections_def collEntry_def fun_eq_iff delete_conv' nth_list_update)

lemma setEntry_simps [simp]:
  "databases (setEntry db ns e c) = databases c" "length (db_heap (setEntry db ns e c)) = length (db_heap c)"
  "notifications (setEntry db ns e c) = notifications c" "tasks (setEntry db ns e c) = tasks c"
  "stats (setEntry db ns e c) = stats c"
  "databases (eraseEntry db ns c) = databases c" "length (db_heap (eraseEntry db ns c)) = length (db_heap c)"
  "notifications (eraseEntry db ns c) = notifications c" "tasks (eraseEntry db ns c) = tasks c"
  "stats (eraseEntry db ns c) = stats c"
  by (simp_all add: setEntry_def eraseEntry_def)

lemma collEntry_entries: "db < length (db_heap c) \<Longrightarrow> collEntry c db ns = entries c (db, ns)"
  by (simp add: entries_def)

lemma entries_frame [simp]:
  "entries (c\<lparr>tasks := t\<rparr>) = entries c" "entries (c\<lparr>notifications := n\<rparr>) = entries c"
  "entries (c\<lparr>databases := d\<rparr>) = entries c" "entries (onStats f c) = entries c"
  by (simp_all add: entries_def collEntry_def fun_eq_iff onStats_def)

lemma onStats_simps [simp]:
  "databases (onStats f c) = databases c" "db_heap (onStats f c) = db_heap c" "tasks (onStats f c) = tasks c"
  "notifications (onStats f c) = notifications c" "stats (onStats f c) = f (stats c)"
  by (simp_all add: onStats_def)

subsection \<open>The invariant\<close>

abbreviation key :: "refresh_task \<Rightarrow> nat \<times> string" where
  "key t \<equiv> (task_db t, task_nss t)"

definition entry_ok ::
    "(string \<Rightarrow> chunk_manager \<Rightarrow> bool) \<Rightarrow> unit result option list \<Rightarrow> string \<Rightarrow> coll_entry \<Rightarrow> bool" where
  "entry_ok Q N ns e \<longleftrightarrow>
     (\<not> needsRefresh e \<longrightarrow> refreshCompletionNotification e = None \<and> routingInfo e \<noteq> None) \<and>
     (\<forall>cm. routingInfo e = Some cm \<longrightarrow> Q ns cm) \<and>
     (\<forall>n. refreshCompletionNotification e = Some n \<longrightarrow> n < length N \<and> N ! n = None)"

definition entries_ok ::
    "(string \<Rightarrow> chunk_manager \<Rightarrow> bool) \<Rightarrow> (nat \<times> string \<Rightarrow> coll_entry option) \<Rightarrow> unit result option list \<Rightarrow> bool" where
  "entries_ok Q E N \<longleftrightarrow> (\<forall>k e. E k = Some e \<longrightarrow> entry_ok Q N (snd k) e) \<and>
     (\<forall>k k' e e' n. E k = Some e \<longrightarrow> E k' = Some e' \<longrightarrow> refreshCompletionNotification e = Some n \<longrightarrow>
        refreshCompletionNotification e' = Some n \<longrightarrow> k = k')"

definition refreshing :: "(nat \<times> string \<Rightarrow> coll_entry option) \<Rightarrow> (nat \<times> string) set" where
  "refreshing E = {k. \<exists>e n. E k = Some e \<and> refreshCompletionNotification e = Some n}"

definition active :: "bool \<Rightarrow> refresh_task list \<Rightarrow> 64 word" where
  "active incremental ts = of_nat (length (filter (\<lambda>t. (task_existing t \<noteq> None) = incremental) ts))"

definition tasks_ok ::
    "(string \<Rightarrow> chunk_manager \<Rightarrow> bool) \<Rightarrow> (nat \<times> string) set \<Rightarrow> refresh_task list \<Rightarrow> cache_stats \<Rightarrow> bool" where
  "tasks_ok Q K ts s \<longleftrightarrow> distinct (map key ts) \<and> key ` set ts = K \<and>
     (\<forall>t\<in>set ts. \<forall>cm. task_existing t = Some cm \<longrightarrow> Q (task_nss t) cm) \<and>
     numActiveIncrementalRefreshes s = active True ts \<and> numActiveFullRefreshes s = active False ts"

definition state_ok :: "(string \<Rightarrow> chunk_manager \<Rightarrow> bool) \<Rightarrow> refresh_task list \<Rightarrow> catalog_cache \<Rightarrow> bool" where
  "state_ok Q ts c \<longleftrightarrow> (\<forall>d\<in>set (databases c). snd d < length (db_heap c)) \<and>
     entries_ok Q (entries c) (notifications c) \<and> tasks_ok Q (refreshing (entries c)) ts (stats c)"

definition cache_ok :: "(string \<Rightarrow> chunk_manager \<Rightarrow> bool) \<Rightarrow> catalog_cache \<Rightarrow> bool" where
  "cache_ok Q c \<longleftrightarrow> state_ok Q (tasks c) c"

lemma cache_ok_mono:
  assumes "cache_ok Q c" "\<And>ns cm. Q ns cm \<Longrightarrow> Q' ns cm"
  shows "cache_ok Q' c"
proof -
  have "entry_ok Q N ns e \<Longrightarrow> entry_ok Q' N ns e" for N ns e
    using assms(2) by (auto simp: entry_ok_def)
  then have "entries_ok Q' (entries c) (notifications c)"
    using assms(1) by (simp add: cache_ok_def state_ok_def entries_ok_def)
  moreover have "tasks_ok Q' (refreshing (entries c)) (tasks c) (stats c)"
    using assms by (simp add: cache_ok_def state_ok_def tasks_ok_def)
  ultimately show ?thesis
    using assms(1) by (simp add: cache_ok_def state_ok_def)
qed

lemma tasks_ok_remove:
  assumes "tasks_ok Q K (xs @ t # ys) s"
  shows "tasks_ok Q K (t # xs @ ys) s"
  using assms by (auto simp: tasks_ok_def active_def)

lemma tasks_ok_rotate: "tasks_ok Q K (t # ts) s \<Longrightarrow> tasks_ok Q K (ts @ [t]) s"
  by (auto simp: tasks_ok_def active_def)

lemma entries_ok_set:
  assumes "entries_ok Q E N" "entry_ok Q N (snd k) e"
    "\<And>k' e' n. \<lbrakk>E k' = Some e'; refreshCompletionNotification e = Some n; refreshCompletionNotification e' = Some n\<rbrakk> \<Longrightarrow> k' = k"
  shows "entries_ok Q (E(k \<mapsto> e)) N"
  using assms unfolding entries_ok_def fun_upd_apply by (metis option.inject)

lemma entries_ok_erase: "entries_ok Q E N \<Longrightarrow> entries_ok Q (E(k := None)) N"
  by (simp add: entries_ok_def)

lemma refreshing_set:
  "refreshCompletionNotification e = None \<Longrightarrow> refreshing (E(k \<mapsto> e)) = refreshing E - {k}"
  "refreshCompletionNotification e = Some n \<Longrightarrow> refreshing (E(k \<mapsto> e)) = insert k (refreshing E)"
  "refreshing (E(k := None)) = refreshing E - {k}"
  by (auto simp: refreshing_def split: if_splits)

subsection \<open>Starting and finishing refreshes\<close>

lemma tasks_ok_start:
  assumes "tasks_ok Q K ts s" "key t \<notin> K" "\<And>cm. task_existing t = Some cm \<Longrightarrow> Q (task_nss t) cm"
  shows "tasks_ok Q (insert (key t) K) (t # ts) (refreshStarted (task_existing t) s)"
  using assms by (auto simp: tasks_ok_def active_def refreshStarted_def)

lemma tasks_ok_finish:
  assumes "tasks_ok Q K (t # ts) s"
  shows "tasks_ok Q (K - {key t}) ts (onRefreshCompleted (task_existing t) ok s)"
proof -
  have "K = insert (key t) (key ` set ts)" "key t \<notin> key ` set ts"
    using assms unfolding tasks_ok_def by simp_all
  then have "key ` set ts = K - {key t}"
    by blast
  moreover have "distinct (map key ts)" "\<forall>t\<in>set ts. \<forall>cm. task_existing t = Some cm \<longrightarrow> Q (task_nss t) cm"
    using assms by (simp_all add: tasks_ok_def)
  ultimately show ?thesis
    using assms by (cases "task_existing t") (simp_all add: tasks_ok_def active_def onRefreshCompleted_def Let_def)
qed

text \<open>An entry whose refresh is neither running nor finished: the code holds the lock.\<close>

definition owed :: "(string \<Rightarrow> chunk_manager \<Rightarrow> bool) \<Rightarrow> nat \<times> string \<Rightarrow> catalog_cache \<Rightarrow> bool" where
  "owed Q k c \<longleftrightarrow> (\<forall>d\<in>set (databases c). snd d < length (db_heap c)) \<and>
     entries_ok Q (entries c) (notifications c) \<and> k \<in> refreshing (entries c) \<and>
     tasks_ok Q (refreshing (entries c) - {k}) (tasks c) (stats c)"

lemma finished_owed:
  assumes "state_ok Q (t # tasks c) c"
  shows "owed Q (key t) (onStats (onRefreshCompleted (task_existing t) ok) c)"
proof -
  have t: "tasks_ok Q (refreshing (entries c)) (t # tasks c) (stats c)"
    using assms by (simp add: state_ok_def)
  then have "key t \<in> refreshing (entries c)"
    by (auto simp: tasks_ok_def)
  then show ?thesis
    using assms tasks_ok_finish [OF t] by (simp add: owed_def state_ok_def)
qed

lemma refreshing_entry:
  assumes "k \<in> refreshing (entries c)"
  obtains e n where "fst k < length (db_heap c)" "collEntry c (fst k) (snd k) = Some e" "entries c k = Some e"
    "refreshCompletionNotification e = Some n"
  using assms by (auto simp: refreshing_def entries_def split: if_splits)

lemma owed_entry:
  assumes "owed Q (db, ns) c"
  obtains e n where "db < length (db_heap c)" "collEntry c db ns = Some e" "entries c (db, ns) = Some e"
    "refreshCompletionNotification e = Some n"
  using assms refreshing_entry [of "(db, ns)" c] unfolding owed_def fst_conv snd_conv by metis

lemma owed_notify:
  assumes "owed Q k c" "entries c k = Some e" "refreshCompletionNotification e = Some n"
  obtains c2 where "notify (refreshCompletionNotification e) r c = Inr c2" "entries c2 = entries c" "databases c2 = databases c"
    "db_heap c2 = db_heap c" "tasks c2 = tasks c" "stats c2 = stats c"
    "\<And>e'. entry_ok Q (notifications c) (snd k) e' \<Longrightarrow> refreshCompletionNotification e' = None \<Longrightarrow>
       entries_ok Q ((entries c)(k \<mapsto> e')) (notifications c2)" "entries_ok Q ((entries c)(k := None)) (notifications c2)"
proof -
  define c2 where "c2 = c\<lparr>notifications := (notifications c)[n := Some r]\<rparr>"
  have ok: "entries_ok Q (entries c) (notifications c)"
    using assms(1) by (simp add: owed_def)
  then have n: "notifications c ! n = None"
    using assms(2,3) unfolding entries_ok_def entry_ok_def by blast
  have other: "entry_ok Q (notifications c2) (snd k') e'" if "entries c k' = Some e'" "k' \<noteq> k" for k' e'
  proof -
    have "refreshCompletionNotification e' \<noteq> Some n"
      using ok assms(2,3) that unfolding entries_ok_def by blast
    moreover have "entry_ok Q (notifications c) (snd k') e'"
      using ok that(1) unfolding entries_ok_def by blast
    ultimately show ?thesis
      by (auto simp: entry_ok_def c2_def nth_list_update)
  qed
  show thesis
  proof
    show "notify (refreshCompletionNotification e) r c = Inr c2"
      using assms(3) n by (simp add: notify_def c2_def)
    show "entries_ok Q ((entries c)(k := None)) (notifications c2)"
      using ok other unfolding entries_ok_def fun_upd_apply by (metis option.distinct(1))
    show "entries_ok Q ((entries c)(k \<mapsto> e')) (notifications c2)"
      if "entry_ok Q (notifications c) (snd k) e'" "refreshCompletionNotification e' = None" for e'
    proof (rule entries_ok_set [of _ "(entries c)(k := None)" _ k e', simplified])
      show "entries_ok Q ((entries c)(k := None)) (notifications c2)" by fact
      show "entry_ok Q (notifications c2) (snd k) e'"
        using that by (simp add: entry_ok_def)
    qed (use that(2) in simp)
  qed (simp_all add: c2_def)
qed

lemma cache_okI:
  "\<lbrakk>\<forall>d\<in>set (databases c). snd d < length (db_heap c); entries_ok Q (entries c) (notifications c);
    tasks_ok Q (refreshing (entries c)) (tasks c) (stats c)\<rbrakk> \<Longrightarrow> cache_ok Q c"
  by (simp add: cache_ok_def state_ok_def)

declare scheduleCollectionRefresh.simps [simp del] onRefreshFailed.simps [simp del]

lemma refresh_scheduled:
  assumes "\<forall>n. sched n \<noteq> Some ConflictingOperationInProgress"
  shows "owed Q (db, ns) c \<Longrightarrow> (\<forall>cm. existing = Some cm \<longrightarrow> Q ns cm) \<Longrightarrow>
      \<exists>c'. scheduleCollectionRefresh sched db existing ns attempt c = Inr c' \<and> cache_ok Q c'"
    "state_ok Q (t # tasks c) c \<Longrightarrow> \<exists>c'. onRefreshFailed sched t code c = Inr c' \<and> cache_ok Q c'"
  using assms
proof (induction sched db existing ns attempt c and sched t code c
    rule: scheduleCollectionRefresh_onRefreshFailed.induct)
  case (1 sched db existing ns attempt c)
  let ?task = "\<lparr>task_db = db, task_nss = ns, task_existing = existing, task_attempt = attempt\<rparr>"
  let ?c = "onStats (refreshStarted existing) c"
  have "insert (db, ns) (refreshing (entries c) - {(db, ns)}) = refreshing (entries c)"
    using 1(2) by (auto simp: owed_def)
  then have t: "tasks_ok Q (refreshing (entries c)) (?task # tasks c) (stats ?c)"
    using tasks_ok_start [of Q "refreshing (entries c) - {(db, ns)}" "tasks c" "stats c" ?task] 1(2,3)
    by (simp add: owed_def)
  show ?case
  proof (cases "sched attempt")
    case None
    have "cache_ok Q (?c\<lparr>tasks := tasks ?c @ [?task]\<rparr>)"
      using 1(2) tasks_ok_rotate [OF t] by (intro cache_okI) (simp_all add: owed_def)
    then show ?thesis
      using None by (simp add: scheduleCollectionRefresh.simps Let_def)
  next
    case (Some code)
    have st: "state_ok Q (?task # tasks ?c) ?c"
      using 1(2) t by (simp add: state_ok_def owed_def)
    have code: "code \<noteq> ConflictingOperationInProgress"
      using 1(4) Some by auto
    then have inv: "invariant (code \<noteq> ConflictingOperationInProgress) = Inr ()"
      by simp
    obtain c' where "onRefreshFailed sched ?task code ?c = Inr c'" "cache_ok Q c'"
      using 1(1) [OF refl refl Some inv st 1(4)] by blast
    with code show ?thesis
      using Some by (simp add: scheduleCollectionRefresh.simps Let_def)
  qed
next
  case (2 sched t code c)
  let ?c = "onStats (onRefreshCompleted (task_existing t) False) c"
  have o: "owed Q (key t) ?c"
    by (rule finished_owed [OF 2(2)])
  obtain e n where e: "task_db t < length (db_heap ?c)" "collEntry ?c (task_db t) (task_nss t) = Some e"
    "entries ?c (key t) = Some e" "refreshCompletionNotification e = Some n"
    using owed_entry [OF o] .
  show ?case
  proof (cases "code = ConflictingOperationInProgress \<and> task_attempt t < kMaxInconsistentRoutingInfoRefreshAttempts")
    case True
    then show ?thesis
      using 2(1) [OF refl e(2) True o] 2(3) e(2) by (simp add: onRefreshFailed.simps Let_def)
  next
    case False
    obtain c2 where c2: "notify (refreshCompletionNotification e) (Inl (Error code)) ?c = Inr c2"
      "entries c2 = entries ?c" "databases c2 = databases ?c" "db_heap c2 = db_heap ?c" "tasks c2 = tasks ?c"
      "stats c2 = stats ?c"
      and ok: "\<And>e'. entry_ok Q (notifications ?c) (snd (key t)) e' \<Longrightarrow> refreshCompletionNotification e' = None \<Longrightarrow>
        entries_ok Q ((entries ?c)(key t \<mapsto> e')) (notifications c2)"
      using owed_notify [OF o e(3,4)] by blast
    let ?e = "e\<lparr>refreshCompletionNotification := None\<rparr>"
    have "entry_ok Q (notifications ?c) (snd (key t)) e"
      using o e(3) unfolding owed_def entries_ok_def by blast
    then have "entry_ok Q (notifications ?c) (snd (key t)) ?e"
      by (simp add: entry_ok_def)
    then have "cache_ok Q (setEntry (task_db t) (task_nss t) ?e c2)"
      using ok [of ?e] o c2 e(1) by (intro cache_okI) (simp_all add: owed_def refreshing_set)
    then show ?thesis
      unfolding onRefreshFailed.simps Let_def e(2) option.case if_not_P [OF False] c2(1) rbind_simps by blast
  qed
qed

subsection \<open>The operations keep the invariant\<close>

definition table_fault :: "refresh_env \<Rightarrow> 32 word \<Rightarrow> refresh_task \<Rightarrow> collection_and_changed_chunks result \<Rightarrow> bool" where
  "table_fault env seq t sw \<longleftrightarrow>
     (\<exists>f. refreshCollectionRoutingInfo env seq (task_nss t) (task_existing t) sw = Inl f \<and> (\<forall>code. f \<noteq> Error code))"

lemma refreshCallback_ok:
  assumes ok: "state_ok Q (t # tasks c) c" and sched: "\<forall>n. sched n \<noteq> Some ConflictingOperationInProgress"
    and Q: "\<forall>seq' cm. refreshCollectionRoutingInfo env seq (task_nss t) (task_existing t) sw = Inr (seq', Some cm) \<longrightarrow> Q (task_nss t) cm"
    and fault: "\<not> table_fault env seq t sw"
  shows "\<exists>seq' c'. refreshCallback env sched seq t sw c = Inr (seq', c') \<and> cache_ok Q c'"
proof (cases "refreshCollectionRoutingInfo env seq (task_nss t) (task_existing t) sw")
  case (Inl f)
  then obtain code where "f = Error code"
    using fault by (cases f) (auto simp: table_fault_def)
  moreover obtain c' where "onRefreshFailed sched t code c = Inr c'" "cache_ok Q c'"
    using refresh_scheduled(2) [OF sched ok] by blast
  ultimately show ?thesis
    using Inl by (simp add: refreshCallback_def)
next
  case (Inr r)
  obtain seq' new where r: "r = (seq', new)"
    by fastforce
  let ?c = "onStats (onRefreshCompleted (task_existing t) True) c"
  have o: "owed Q (key t) ?c"
    by (rule finished_owed [OF ok])
  obtain e n where e: "task_db t < length (db_heap ?c)" "collEntry ?c (task_db t) (task_nss t) = Some e"
    "entries ?c (key t) = Some e" "refreshCompletionNotification e = Some n"
    using owed_entry [OF o] .
  obtain c2 where c2: "notify (refreshCompletionNotification e) (Inr ()) ?c = Inr c2"
    "entries c2 = entries ?c" "databases c2 = databases ?c" "db_heap c2 = db_heap ?c" "tasks c2 = tasks ?c" "stats c2 = stats ?c"
    and set: "\<And>e'. entry_ok Q (notifications ?c) (snd (key t)) e' \<Longrightarrow> refreshCompletionNotification e' = None \<Longrightarrow>
      entries_ok Q ((entries ?c)(key t \<mapsto> e')) (notifications c2)"
    and erase: "entries_ok Q ((entries ?c)(key t := None)) (notifications c2)"
    using owed_notify [OF o e(3,4)] by blast
  let ?e = "\<lambda>cm. e\<lparr>needsRefresh := False, refreshCompletionNotification := None, routingInfo := Some cm\<rparr>"
  define c' where "c' = (case new of None \<Rightarrow> eraseEntry (task_db t) (task_nss t) c2
    | Some cm \<Rightarrow> setEntry (task_db t) (task_nss t) (?e cm) c2)"
  have "cache_ok Q c'"
  proof (cases new)
    case None
    then show ?thesis
      unfolding c'_def using erase o c2 e(1) by (intro cache_okI) (simp_all add: owed_def refreshing_set)
  next
    case (Some cm)
    then have "entry_ok Q (notifications ?c) (snd (key t)) (?e cm)"
      using Q Inr r by (simp add: entry_ok_def)
    then show ?thesis
      unfolding c'_def using Some set [of "?e cm"] o c2 e(1) by (intro cache_okI) (simp_all add: owed_def refreshing_set)
  qed
  moreover have "refreshCallback env sched seq t sw c = Inr (seq', c')"
    using Inr r e(2) c2(1) by (simp add: refreshCallback_def Let_def c'_def split: option.split)
  ultimately show ?thesis
    by blast
qed

lemma runTask_ok:
  assumes ok: "cache_ok Q c" and i: "i < length (tasks c)" and sched: "\<forall>n. sched n \<noteq> Some ConflictingOperationInProgress"
    and Q: "\<forall>seq' cm. refreshCollectionRoutingInfo env seq (task_nss (tasks c ! i)) (task_existing (tasks c ! i)) sw
      = Inr (seq', Some cm) \<longrightarrow> Q (task_nss (tasks c ! i)) cm"
    and fault: "\<not> table_fault env seq (tasks c ! i) sw"
  shows "\<exists>seq' c'. runTask env sched seq i sw c = Inr (seq', c') \<and> cache_ok Q c'"
proof -
  let ?ts = "take i (tasks c) @ drop (Suc i) (tasks c)"
  have "tasks_ok Q (refreshing (entries c)) (take i (tasks c) @ tasks c ! i # drop (Suc i) (tasks c)) (stats c)"
    using ok i by (simp add: cache_ok_def state_ok_def id_take_nth_drop [symmetric])
  then have "state_ok Q (tasks c ! i # tasks (c\<lparr>tasks := ?ts\<rparr>)) (c\<lparr>tasks := ?ts\<rparr>)"
    using ok tasks_ok_remove by (simp add: cache_ok_def state_ok_def)
  then show ?thesis
    unfolding runTask_def by (rule refreshCallback_ok) (fact sched Q fault)+
qed

definition pending :: "catalog_cache \<Rightarrow> nat \<Rightarrow> string \<Rightarrow> nat option" where
  "pending c db ns = (case entries c (db, ns) of Some e \<Rightarrow> refreshCompletionNotification e | None \<Rightarrow> None)"

lemma cache_ok_parts:
  assumes "cache_ok Q c"
  shows "\<And>name db. map_of (databases c) name = Some db \<Longrightarrow> db < length (db_heap c)"
    "entries_ok Q (entries c) (notifications c)" "tasks_ok Q (refreshing (entries c)) (tasks c) (stats c)"
    "\<And>k e. entries c k = Some e \<Longrightarrow> entry_ok Q (notifications c) (snd k) e"
proof -
  show "db < length (db_heap c)" if "map_of (databases c) name = Some db" for name db
    using assms map_of_SomeD [OF that] unfolding cache_ok_def state_ok_def by (metis snd_conv)
  show ok: "entries_ok Q (entries c) (notifications c)" "tasks_ok Q (refreshing (entries c)) (tasks c) (stats c)"
    using assms by (simp_all add: cache_ok_def state_ok_def)
  show "entry_ok Q (notifications c) (snd k) e" if "entries c k = Some e" for k e
    using ok(1) that unfolding entries_ok_def by blast
qed

lemma cache_ok_setEntry:
  assumes "cache_ok Q c" "db < length (db_heap c)" "entry_ok Q (notifications c) ns e"
    "refreshCompletionNotification e = pending c db ns"
  shows "cache_ok Q (setEntry db ns e c)"
proof -
  note ok = cache_ok_parts [OF assms(1)]
  have "entries_ok Q ((entries c)((db, ns) \<mapsto> e)) (notifications c)"
  proof (rule entries_ok_set [OF ok(2)])
    fix k' e' n
    assume n: "entries c k' = Some e'" "refreshCompletionNotification e = Some n" "refreshCompletionNotification e' = Some n"
    then obtain e0 where "entries c (db, ns) = Some e0" "refreshCompletionNotification e0 = Some n"
      using assms(4) by (auto simp: pending_def split: option.splits)
    then show "k' = (db, ns)"
      using ok(2) n(1,3) unfolding entries_ok_def by blast
  qed (use assms(3) in simp)
  moreover have "refreshing ((entries c)((db, ns) \<mapsto> e)) = refreshing (entries c)"
    using assms(4) by (auto simp: pending_def refreshing_def split: option.splits if_splits)
  ultimately show ?thesis
    using assms(1,2) ok(3) by (simp add: cache_ok_def state_ok_def)
qed

lemma invalidate_ok: "cache_ok Q c \<Longrightarrow> cache_ok Q (invalidateShardedCollection nss c)"
proof -
  assume ok: "cache_ok Q c"
  show ?thesis
  proof (cases "map_of (databases c) (nss_db nss)")
    case (Some db)
    then have db: "db < length (db_heap c)"
      using cache_ok_parts(1) [OF ok] by blast
    let ?e = "(case collEntry c db nss of Some e \<Rightarrow> e | None \<Rightarrow> new_entry)\<lparr>needsRefresh := True\<rparr>"
    have "entry_ok Q (notifications c) nss ?e"
      using cache_ok_parts(4) [OF ok, of "(db, nss)"] db
      by (auto simp: entry_ok_def new_entry_def entries_def split: option.splits)
    moreover have "refreshCompletionNotification ?e = pending c db nss"
      using db by (simp add: pending_def entries_def new_entry_def split: option.splits)
    ultimately show ?thesis
      using cache_ok_setEntry [OF ok db] Some by (simp add: invalidateShardedCollection_def)
  qed (use ok in \<open>simp add: invalidateShardedCollection_def\<close>)
qed

lemma stale_ok:
  assumes ok: "cache_ok Q c"
  shows "\<exists>c'. onStaleConfigError ccri c = Inr c' \<and> cache_ok Q c'"
proof -
  define c1 where "c1 = onStats (\<lambda>s. s\<lparr>countStaleConfigErrors := countStaleConfigErrors s + 1\<rparr>) c"
  have ok1: "cache_ok Q c1"
    using ok by (simp add: c1_def cache_ok_def state_ok_def tasks_ok_def)
  note parts = cache_ok_parts [OF ok1]
  show ?thesis
  proof (cases "ci_cm ccri")
    case None
    then show ?thesis
      using invalidate_ok [OF ok1] by (simp add: onStaleConfigError_def Let_def c1_def)
  next
    case (Some cm)
    have stale: "cache_ok Q (setEntry db (cm_nss cm) (e\<lparr>needsRefresh := True\<rparr>) c1)" "routingInfo e \<noteq> None"
      if db: "map_of (databases c1) (nss_db (cm_nss cm)) = Some db" and e: "collEntry c1 db (cm_nss cm) = Some e" "\<not> needsRefresh e" for db e
    proof -
      have len: "db < length (db_heap c1)"
        using parts(1) [OF db] .
      have en: "entries c1 (db, cm_nss cm) = Some e"
        using e(1) unfolding collEntry_entries [OF len] .
      have eok: "entry_ok Q (notifications c1) (cm_nss cm) e"
        using parts(4) [OF en] by simp
      then show "routingInfo e \<noteq> None"
        using e(2) by (simp add: entry_ok_def)
      show "cache_ok Q (setEntry db (cm_nss cm) (e\<lparr>needsRefresh := True\<rparr>) c1)"
        using eok en by (intro cache_ok_setEntry [OF ok1 len]) (simp_all add: entry_ok_def pending_def)
    qed
    show ?thesis
      unfolding onStaleConfigError_def Let_def Some option.case c1_def [symmetric]
      using ok1 stale(1) by (auto split: option.split dest: stale(2))
  qed
qed

lemma purgeCollection_ok:
  assumes ok: "cache_ok Q c" and idle: "\<forall>t\<in>set (tasks c). task_nss t \<noteq> nss"
  shows "cache_ok Q (purgeCollection nss c)"
proof (cases "map_of (databases c) (nss_db nss)")
  case (Some db)
  note parts = cache_ok_parts [OF ok]
  have db: "db < length (db_heap c)"
    using parts(1) [OF Some] .
  have "(db, nss) \<notin> key ` set (tasks c)"
    using idle by auto
  moreover have "key ` set (tasks c) = refreshing (entries c)"
    using parts(3) by (simp only: tasks_ok_def)
  ultimately have "refreshing (entries c) - {(db, nss)} = refreshing (entries c)"
    by blast
  then have "cache_ok Q (eraseEntry db nss c)"
    using ok parts(3) entries_ok_erase [OF parts(2)] db by (intro cache_okI) (simp_all add: cache_ok_def state_ok_def refreshing_set)
  then show ?thesis
    using Some by (simp add: purgeCollection_def)
qed (use ok in \<open>simp add: purgeCollection_def\<close>)

lemma purge_ok:
  assumes "cache_ok Q c"
  shows "cache_ok Q (purgeDatabase name c)" "cache_ok Q (purgeAllDatabases c)"
  using assms unfolding cache_ok_def state_ok_def purgeDatabase_def purgeAllDatabases_def
  by (auto simp: AList.delete_eq)

lemma set_AList_update: "set (AList.update k v xs) \<subseteq> insert (k, v) (set xs)"
  by (induction xs) auto

lemma collectionEntries_new:
  assumes "\<forall>ns e. map_of es ns = Some e \<longrightarrow> e = new_entry"
  shows "\<forall>ns e. map_of (collectionEntries colls es) ns = Some e \<longrightarrow> e = new_entry"
  using assms
proof (induction colls es rule: collectionEntries.induct)
  case (2 coll colls es)
  have "\<forall>ns e. map_of (if getDropped coll then es else AList.update (the (coll_fullNs coll)) new_entry es) ns = Some e
      \<longrightarrow> e = new_entry"
    using 2(2) by (cases "getDropped coll") (auto simp: update_conv' split: if_splits)
  then show ?case
    unfolding collectionEntries.simps by (rule 2(1))
qed simp

lemma getDatabaseEntry_ok:
  assumes ok: "cache_ok Q c" and get: "getDatabaseEntry cv name c = Inr (c', db)"
  shows "cache_ok Q c'" "db < length (db_heap c')"
proof -
  have "cache_ok Q c' \<and> db < length (db_heap c')"
  proof (cases "map_of (databases c) name")
    case (Some x)
    then show ?thesis
      using ok get cache_ok_parts(1) [OF ok Some] by (simp add: getDatabaseEntry_def)
  next
    case None
    then obtain entry colls where c': "c' = c\<lparr>db_heap := db_heap c @ [entry], databases := AList.update name db (databases c)\<rparr>"
      and db: "db = length (db_heap c)" and entry: "collections entry = collectionEntries colls []"
      using get by (auto simp: getDatabaseEntry_def rbind_Inr_iff Let_def)
    have E: "entries c' k = (if fst k = db then map_of (collectionEntries colls []) (snd k) else entries c k)" for k
      using entry by (auto simp: c' entries_def collEntry_def nth_append db)
    have new: "map_of (collectionEntries colls []) ns = Some e \<Longrightarrow> e = new_entry" for ns e
      using collectionEntries_new [of "[]" colls] by simp
    have old: "entries c k = None" if "fst k = db" for k
      using that db by (simp add: entries_def)
    have cases: "e = new_entry \<or> entries c k = Some e" if "entries c' k = Some e" for k e
      using that new unfolding E by (metis (full_types))
    have N: "notifications c' = notifications c"
      by (simp add: c')
    have "entries_ok Q (entries c') (notifications c')"
      unfolding entries_ok_def
    proof (intro conjI allI impI)
      fix k e
      assume "entries c' k = Some e"
      then consider "e = new_entry" | "entries c k = Some e"
        using cases by blast
      then show "entry_ok Q (notifications c') (snd k) e"
        unfolding N by cases (simp add: entry_ok_def new_entry_def, rule cache_ok_parts(4) [OF ok])
    next
      fix k k' e e' n
      assume "entries c' k = Some e" "entries c' k' = Some e'" "refreshCompletionNotification e = Some n"
        "refreshCompletionNotification e' = Some n"
      moreover from this have "entries c k = Some e" "entries c k' = Some e'"
        using cases [of k e] cases [of k' e'] by (auto simp: new_entry_def)
      ultimately show "k = k'"
        using cache_ok_parts(2) [OF ok] unfolding entries_ok_def by blast
    qed
    moreover have "refreshing (entries c') = refreshing (entries c)"
    proof (intro equalityI subsetI)
      fix k
      assume "k \<in> refreshing (entries c')"
      then show "k \<in> refreshing (entries c)"
        using cases [of k] by (auto simp: refreshing_def new_entry_def)
    next
      fix k
      assume "k \<in> refreshing (entries c)"
      then show "k \<in> refreshing (entries c')"
        using old [of k] by (auto simp: refreshing_def E)
    qed
    moreover have "\<forall>d\<in>set (databases c'). snd d < length (db_heap c')"
    proof
      fix d
      assume "d \<in> set (databases c')"
      then have "d = (name, db) \<or> d \<in> set (databases c)"
        using set_AList_update [of name db "databases c"] by (auto simp: c')
      then show "snd d < length (db_heap c')"
        using ok db by (auto simp: c' cache_ok_def state_ok_def less_Suc_eq)
    qed
    ultimately show ?thesis
      using cache_ok_parts(3) [OF ok] db by (simp add: c' cache_ok_def state_ok_def)
  qed
  then show "cache_ok Q c'" "db < length (db_heap c')"
    by simp_all
qed

lemma entries_ok_notify: "entries_ok Q E N \<Longrightarrow> entries_ok Q E (N @ [x])"
  unfolding entries_ok_def entry_ok_def by (metis length_append_singleton less_SucI nth_append)

lemma new_refresh_owed:
  assumes ok: "cache_ok Q c" and db: "db < length (db_heap c)" and e: "entries c (db, nss) = Some e"
    "needsRefresh e" "refreshCompletionNotification e = None"
  defines "n \<equiv> length (notifications c)"
  shows "owed Q (db, nss) (setEntry db nss (e\<lparr>refreshCompletionNotification := Some n, routingInfo := None\<rparr>)
      (c\<lparr>notifications := notifications c @ [None]\<rparr>))"
proof -
  note parts = cache_ok_parts [OF ok]
  let ?e = "e\<lparr>refreshCompletionNotification := Some n, routingInfo := None\<rparr>"
  have "entries_ok Q ((entries c)((db, nss) \<mapsto> ?e)) (notifications c @ [None])"
  proof (rule entries_ok_set [OF entries_ok_notify [OF parts(2)]])
    show "entry_ok Q (notifications c @ [None]) (snd (db, nss)) ?e"
      using e(2) by (simp add: entry_ok_def n_def)
    fix k' e' m
    assume "entries c k' = Some e'" "refreshCompletionNotification ?e = Some m" "refreshCompletionNotification e' = Some m"
    then have "m = n" "m < length (notifications c)"
      using parts(4) [of k' e'] by (auto simp: entry_ok_def)
    then show "k' = (db, nss)"
      by (simp add: n_def)
  qed
  moreover have "(db, nss) \<notin> refreshing (entries c)"
    using e by (simp add: refreshing_def)
  ultimately show ?thesis
    using ok parts(3) db by (simp add: owed_def refreshing_set(2) [of ?e n] cache_ok_def state_ok_def)
qed

definition view_ok :: "config_view \<Rightarrow> bool" where
  "view_ok cv \<longleftrightarrow> (\<forall>dbName. length (findOnConfig (cv_nearest cv) [(''_id'', String dbName)]) \<le> 1
     \<and> length (findOnConfig (cv_primary cv) [(''_id'', String dbName)]) \<le> 1)"

lemma fetch_no_fault:
  assumes "length (findOnConfig dbs [(''_id'', String name)]) \<le> 1" "fetchDatabaseMetadata dbs name = Inl f"
  shows "\<exists>code. f = Error code"
proof -
  have "bsonExtractStringField doc n = Inl g \<Longrightarrow> \<exists>code. g = Error code" for doc n g
    by (auto simp: bsonExtractStringField_def bsonExtractTypedField_def bsonExtractField_def
        split: option.splits if_splits bson_value.splits)
  moreover have "bsonExtractBooleanFieldWithDefault doc n v = Inl g \<Longrightarrow> \<exists>code. g = Error code" for doc n v g
    by (auto simp: bsonExtractBooleanFieldWithDefault_def bsonExtractField_def split: option.splits if_splits bson_value.splits)
  ultimately have "Database_fromBSON doc = Inl g \<Longrightarrow> \<exists>code. g = Error code" for doc g
    by (auto simp: Database_fromBSON_def rbind_Inl_iff)
  then show ?thesis
    using assms by (auto simp: fetchDatabaseMetadata_def split: list.splits)
qed

lemma getDatabaseEntry_no_fault:
  assumes "view_ok cv" "getDatabaseEntry cv name c = Inl f"
  shows "\<exists>code. f = Error code"
proof -
  have fetch: "fetchDatabaseMetadata (cv_nearest cv) name = Inl g \<or> fetchDatabaseMetadata (cv_primary cv) name = Inl g
      \<Longrightarrow> \<exists>code. g = Error code" for g
    using assms(1) fetch_no_fault unfolding view_ok_def by blast
  have db: "getDatabase (cv_nearest cv) (cv_primary cv) name = Inl g \<Longrightarrow> \<exists>code. g = Error code" for g
    using fetch by (auto simp: getDatabase_def split: if_splits sum.splits fault.splits error_code.splits)
  have "parseCollections ds = Inl g \<Longrightarrow> \<exists>code. g = Error code" for ds g
    by (induction ds) (auto simp: rbind_Inl_iff split: sum.splits)
  moreover have "getDatabase (cv_nearest cv) (cv_primary cv) name = Inr d \<Longrightarrow> name \<noteq> []" for d
    by (auto simp: getDatabase_def validDBName_def)
  ultimately show ?thesis
    using assms(2) db by (auto simp: getDatabaseEntry_def getCollections_def rbind_Inl_iff Let_def split: option.splits)
qed

text \<open>A pass of the answering loop never aborts, keeps the invariant, and answers with tables that satisfy \<open>Q\<close>.\<close>

lemma getCollectionRoutingInfo_ok:
  assumes ok: "cache_ok Q c" and sched: "\<forall>n. sched n \<noteq> Some ConflictingOperationInProgress" and cv: "view_ok cv"
  shows "\<exists>c' l. getCollectionRoutingInfo env cv sched nss c = Inr (c', l) \<and> cache_ok Q c' \<and>
    (\<forall>info cm. l = Answer (Inr info) \<longrightarrow> ci_cm info = Some cm \<longrightarrow> Q nss cm)"
proof (cases "getDatabaseEntry cv (nss_db nss) c")
  case (Inl f)
  then show ?thesis
    using getDatabaseEntry_no_fault [OF cv Inl] ok by (auto simp: getCollectionRoutingInfo_def)
next
  case (Inr r)
  obtain c1 db where r: "r = (c1, db)"
    by fastforce
  then have get: "getDatabaseEntry cv (nss_db nss) c = Inr (c1, db)"
    using Inr by simp
  note g = getDatabaseEntry_ok [OF ok get]
  note parts = cache_ok_parts [OF g(1)]
  show ?thesis
  proof (cases "collEntry c1 db nss")
    case None
    then show ?thesis
      using get g(1) by (cases "getShard env (primaryShardId (db_heap c1 ! db))") (simp_all add: getCollectionRoutingInfo_def)
  next
    case (Some e)
    then have e: "entries c1 (db, nss) = Some e"
      using g(2) by (simp add: entries_def)
    have eok: "entry_ok Q (notifications c1) nss e"
      using parts(4) [OF e] by simp
    show ?thesis
    proof (cases "needsRefresh e \<and> refreshCompletionNotification e = None")
      case True
      note owe = new_refresh_owed [OF g e True [THEN conjunct1] True [THEN conjunct2]]
      have "\<forall>cm. routingInfo e = Some cm \<longrightarrow> Q nss cm"
        using eok by (simp add: entry_ok_def)
      then obtain c' where "scheduleCollectionRefresh sched db (routingInfo e) nss 1
          (setEntry db nss (e\<lparr>refreshCompletionNotification := Some (length (notifications c1)), routingInfo := None\<rparr>)
            (c1\<lparr>notifications := notifications c1 @ [None]\<rparr>)) = Inr c'" "cache_ok Q c'"
        using refresh_scheduled(1) [OF sched owe] by blast
      then show ?thesis
        using get Some True by (simp add: getCollectionRoutingInfo_def Let_def)
    next
      case False
      then show ?thesis
        using get Some g(1) eok by (auto simp: getCollectionRoutingInfo_def entry_ok_def split: option.split)
    qed
  qed
qed

lemma empty_cache_ok: "cache_ok Q empty_cache"
  by (simp add: cache_ok_def state_ok_def empty_cache_def entries_ok_def entries_def tasks_ok_def refreshing_def active_def)

end
