(* ===== verification/Router_System.thy ===== *)
theory Router_System
  imports Cache_Invariant
begin

text \<open>
  The router and the config server together: commits on the config server interleave with lookups,
  invalidations, purges and background refreshes of the router's cache. The only restriction on
  the interleaving is that a collection is not purged while it is refreshed. In every reachable
  state, no operation of the cache aborts and every cached routing table is a snapshot of the
  metadata: it mirrors a state the config server has been in.
\<close>

subsection \<open>The system\<close>

record router_system =
  sys_chunks :: store
  sys_cache :: catalog_cache
  sys_seq :: "32 word"

text \<open>What the loader may answer: an error, or for the collection in question the chunks that changed.\<close>

definition loader_answer ::
    "string \<Rightarrow> oid \<Rightarrow> store \<Rightarrow> refresh_task \<Rightarrow> collection_and_changed_chunks result \<Rightarrow> bool" where
  "loader_answer ns ep st t sw \<longleftrightarrow> (\<exists>code. sw = Inl (Error code)) \<or> task_nss t \<noteq> ns \<or>
     (\<exists>colls. sw = getChangedChunks colls st ns (startingVersion (task_existing t)) \<and>
       (\<forall>coll. getCollection colls ns = Inr coll \<longrightarrow> coll_epoch coll = Some ep))"

inductive system_step :: "string \<Rightarrow> oid \<Rightarrow> refresh_env \<Rightarrow> router_system \<Rightarrow> router_system \<Rightarrow> bool" for ns ep env where
  commit: "config_step ns (sys_chunks s) st' \<Longrightarrow> system_step ns ep env s (s\<lparr>sys_chunks := st'\<rparr>)"
| lookup: "\<lbrakk>\<forall>n. sched n \<noteq> Some ConflictingOperationInProgress; view_ok cv;
    getCollectionRoutingInfo env cv sched nss (sys_cache s) = Inr (c', l)\<rbrakk>
    \<Longrightarrow> system_step ns ep env s (s\<lparr>sys_cache := c'\<rparr>)"
| refresh: "\<lbrakk>\<forall>n. sched n \<noteq> Some ConflictingOperationInProgress; i < length (tasks (sys_cache s));
    loader_answer ns ep (sys_chunks s) (tasks (sys_cache s) ! i) sw;
    runTask env sched (sys_seq s) i sw (sys_cache s) = Inr (seq', c')\<rbrakk>
    \<Longrightarrow> system_step ns ep env s (s\<lparr>sys_cache := c', sys_seq := seq'\<rparr>)"
| invalidate: "system_step ns ep env s (s\<lparr>sys_cache := invalidateShardedCollection nss (sys_cache s)\<rparr>)"
| stale: "onStaleConfigError ccri (sys_cache s) = Inr c' \<Longrightarrow> system_step ns ep env s (s\<lparr>sys_cache := c'\<rparr>)"
| purge: "\<forall>t\<in>set (tasks (sys_cache s)). task_nss t \<noteq> nss
    \<Longrightarrow> system_step ns ep env s (s\<lparr>sys_cache := purgeCollection nss (sys_cache s)\<rparr>)"
| purge_db: "system_step ns ep env s (s\<lparr>sys_cache := purgeDatabase name (sys_cache s)\<rparr>)"
| purge_all: "system_step ns ep env s (s\<lparr>sys_cache := purgeAllDatabases (sys_cache s)\<rparr>)"

definition snapshot ::
    "string \<Rightarrow> oid \<Rightarrow> bson_key \<Rightarrow> bson_key \<Rightarrow> store \<Rightarrow> string \<Rightarrow> chunk_manager \<Rightarrow> bool" where
  "snapshot ns ep a b st nss cm \<longleftrightarrow> (nss = ns \<longrightarrow>
     (\<exists>st0. config_ok ns ep a b st0 \<and> mirrors ns ep a b st0 cm \<and> (config_step ns)\<^sup>*\<^sup>* st0 st))"

lemma snapshot_step: "\<lbrakk>snapshot ns ep a b st nss cm; config_step ns st st'\<rbrakk> \<Longrightarrow> snapshot ns ep a b st' nss cm"
  unfolding snapshot_def by (meson rtranclp.rtrancl_into_rtrancl)

lemma loaded_snapshot:
  assumes st: "config_ok ns ep a b st" "key_space a b" and ans: "loader_answer ns ep st t sw"
    and existing: "\<And>cm. task_existing t = Some cm \<Longrightarrow> snapshot ns ep a b st (task_nss t) cm"
    and r: "refreshCollectionRoutingInfo env seq (task_nss t) (task_existing t) sw = Inr (seq', Some cm)"
  shows "snapshot ns ep a b st (task_nss t) cm"
proof (cases "task_nss t = ns")
  case True
  have "sw \<noteq> Inl f" for f
    using r by (auto simp: refreshCollectionRoutingInfo_def split: if_splits)
  then obtain colls cc where load: "getChangedChunks colls st ns (startingVersion (task_existing t)) = Inr cc" "sw = Inr cc"
    and ep: "\<forall>coll. getCollection colls ns = Inr coll \<longrightarrow> coll_epoch coll = Some ep"
    using ans True unfolding loader_answer_def by (metis sum.exhaust)
  then have "cc_epoch cc = ep"
    using getChangedChunks_Inr [OF load(1)] by (metis option.sel)
  moreover have "chunkManagerFrom env seq ns (task_existing t) cc = Inr (seq', cm)"
    using r True load(2) by (auto simp: refreshCollectionRoutingInfo_def rbind_Inr_iff split: if_splits)
  moreover have "earlier_table ns ep a b st (task_existing t)"
    using existing True reachable_keeps unfolding earlier_table_def snapshot_def by blast
  ultimately have "mirrors ns ep a b st cm"
    using loaded_mirrors [OF st _ load(1)] by blast
  then show ?thesis
    using st(1) by (auto simp: snapshot_def)
qed (simp add: snapshot_def)

definition system_ok :: "string \<Rightarrow> oid \<Rightarrow> bson_key \<Rightarrow> bson_key \<Rightarrow> router_system \<Rightarrow> bool" where
  "system_ok ns ep a b s \<longleftrightarrow> config_ok ns ep a b (sys_chunks s) \<and> cache_ok (snapshot ns ep a b (sys_chunks s)) (sys_cache s)"

lemma runTask_no_fault: "runTask env sched seq i sw c = Inr r \<Longrightarrow> \<not> table_fault env seq (tasks c ! i) sw"
  by (auto simp: runTask_def refreshCallback_def table_fault_def split: fault.splits)

lemma system_step_ok:
  assumes "system_step ns ep env s s'" "system_ok ns ep a b s" "key_space a b"
  shows "system_ok ns ep a b s'"
proof -
  let ?Q = "snapshot ns ep a b (sys_chunks s)"
  have ok: "config_ok ns ep a b (sys_chunks s)" "cache_ok ?Q (sys_cache s)"
    using assms(2) by (simp_all add: system_ok_def)
  show ?thesis
    using assms(1)
  proof cases
    case (commit st')
    have "cache_ok (snapshot ns ep a b st') (sys_cache s)"
      by (rule cache_ok_mono [OF ok(2)]) (rule snapshot_step [OF _ commit(2)])
    then show ?thesis
      using commit config_step_keeps [OF commit(2) ok(1)] by (simp add: system_ok_def)
  next
    case (lookup sched cv nss c' l)
    then have "cache_ok ?Q c'"
      using getCollectionRoutingInfo_ok [OF ok(2) lookup(2,3), of env nss] by auto
    then show ?thesis
      using lookup(1) ok(1) by (simp add: system_ok_def)
  next
    case (refresh sched i sw seq' c')
    let ?t = "tasks (sys_cache s) ! i"
    have "?t \<in> set (tasks (sys_cache s))"
      using refresh(3) by simp
    then have "\<And>cm. task_existing ?t = Some cm \<Longrightarrow> ?Q (task_nss ?t) cm"
      using cache_ok_parts(3) [OF ok(2)] unfolding tasks_ok_def by blast
    then have "\<forall>seq' cm. refreshCollectionRoutingInfo env (sys_seq s) (task_nss ?t) (task_existing ?t) sw = Inr (seq', Some cm)
        \<longrightarrow> ?Q (task_nss ?t) cm"
      using loaded_snapshot [OF ok(1) assms(3) refresh(4)] by blast
    from runTask_ok [OF ok(2) refresh(3,2) this runTask_no_fault [OF refresh(5)]] have "cache_ok ?Q c'"
      using refresh(5) by simp
    then show ?thesis
      using refresh(1) ok(1) by (simp add: system_ok_def)
  next
    case (stale ccri c')
    then show ?thesis
      using stale_ok [OF ok(2), of ccri] ok(1) by (auto simp: system_ok_def)
  next
    case (purge nss)
    then show ?thesis
      using purgeCollection_ok [OF ok(2)] ok(1) by (simp add: system_ok_def)
  next
    case (invalidate nss)
    then show ?thesis
      using invalidate_ok [OF ok(2)] ok(1) by (simp add: system_ok_def)
  next
    case (purge_db name)
    then show ?thesis
      using purge_ok(1) [OF ok(2)] ok(1) by (simp add: system_ok_def)
  next
    case purge_all
    then show ?thesis
      using purge_ok(2) [OF ok(2)] ok(1) by (simp add: system_ok_def)
  qed
qed

lemma system_reachable_ok:
  assumes "(system_step ns ep env)\<^sup>*\<^sup>* s0 s" "config_ok ns ep a b (sys_chunks s0)" "sys_cache s0 = empty_cache" "key_space a b"
  shows "system_ok ns ep a b s"
  using assms(1)
proof (induction rule: rtranclp_induct)
  case base
  then show ?case
    using assms(2,3) empty_cache_ok by (simp add: system_ok_def)
qed (use system_step_ok assms(4) in blast)

subsection \<open>Properties of the system\<close>



subsection \<open>A sample run\<close>

definition sample_view :: config_view where
  "sample_view = \<lparr>cv_nearest = [], cv_primary = [[(''_id'', String ''d''), (''primary'', String ''s0''), (''partitioned'', Bool True)]],
     cv_collections = sample_collections\<rparr>"

definition sample_system :: router_system where
  "sample_system = \<lparr>sys_chunks = sample_store, sys_cache = empty_cache, sys_seq = 0\<rparr>"

definition sample_loading :: catalog_cache where
  "sample_loading = \<lparr>databases = [(''d'', 0)],
     db_heap = [\<lparr>primaryShardId = ''s0'', shardingEnabled = True,
       collections = [(''d.c'', \<lparr>needsRefresh = True, refreshCompletionNotification = Some 0, routingInfo = None\<rparr>)]\<rparr>],
     notifications = [None],
     tasks = [\<lparr>task_db = 0, task_nss = ''d.c'', task_existing = None, task_attempt = 1\<rparr>],
     stats = \<lparr>countStaleConfigErrors = 0, numActiveIncrementalRefreshes = 0, countIncrementalRefreshesStarted = 0,
       numActiveFullRefreshes = 1, countFullRefreshesStarted = 1, countFailedRefreshes = 0\<rparr>\<rparr>"

lemma sample_view_ok: "view_ok sample_view"
  by (simp add: view_ok_def sample_view_def findOnConfig_def)

lemma sample_lookup:
  "getCollectionRoutingInfo sample_env sample_view (\<lambda>_. None) ''d.c'' empty_cache = Inr (sample_loading, WaitFor 0)"
  by code_simp

lemma sample_loaded_step: "system_step ''d.c'' 7 sample_env sample_system (sample_system\<lparr>sys_cache := sample_loading\<rparr>)"
  by (rule system_step.lookup [of "\<lambda>_. None" sample_view _ "''d.c''" _ _ "WaitFor 0"]) (simp_all add: sample_view_ok sample_lookup sample_system_def)

lemma sample_loaded_run:
  "(system_step ''d.c'' 7 sample_env)\<^sup>*\<^sup>* sample_system (sample_system\<lparr>sys_cache := sample_loading\<rparr>)"
  using sample_loaded_step by (rule r_into_rtranclp)

lemma nss_db_sample [simp]: "nss_db ''d.c'' = ''d''"
  by (simp add: nss_db_def)

lemma sample_fresh_table:
  obtains sw seq' cm c' where "loader_answer ''d.c'' 7 sample_store (tasks sample_loading ! 0) sw"
    "runTask sample_env (\<lambda>_. None) 0 0 sw sample_loading = Inr (seq', c')"
    "getCollectionRoutingInfo sample_env sample_view (\<lambda>_. None) ''d.c'' c'
       = Inr (c', Answer (Inr \<lparr>ci_primaryId = ''s0'', ci_nss = [], ci_cm = Some cm\<rparr>))"
proof -
  have "earlier_table ''d.c'' 7 (keyOf min_key) (keyOf max_key) sample_store None"
    by (simp add: earlier_table_def)
  then obtain cc seq' cm where cc: "getChangedChunks sample_collections sample_store ''d.c'' (startingVersion None) = Inr cc"
    and r: "refreshCollectionRoutingInfo sample_env 0 ''d.c'' None (Inr cc) = Inr (seq', Some cm)"
    by (rule refresh_succeeds [OF sample_ok sample_key_space _ _ sample_ready, where seq = 0]) auto
  have "getCollection sample_collections ''d.c'' = Inr coll \<Longrightarrow> coll_epoch coll = Some 7" for coll
    by (auto simp: sample_collection_epoch)
  then have "loader_answer ''d.c'' 7 sample_store (tasks sample_loading ! 0) (Inr cc)"
    using cc by (auto simp: loader_answer_def sample_loading_def intro!: exI [of _ sample_collections])
  moreover obtain c' where "runTask sample_env (\<lambda>_. None) 0 0 (Inr cc) sample_loading = Inr (seq', c')"
    "c' = setEntry 0 ''d.c'' \<lparr>needsRefresh = False, refreshCompletionNotification = None, routingInfo = Some cm\<rparr>
      (onStats (onRefreshCompleted None True) (sample_loading\<lparr>tasks := [], notifications := [Some (Inr ())]\<rparr>))"
    using r by (simp add: runTask_def refreshCallback_def sample_loading_def collEntry_def notify_def onStats_def Let_def)
  ultimately show thesis
    by (intro that [of "Inr cc" seq' c' cm]) (simp_all add: getCollectionRoutingInfo_def getDatabaseEntry_def collEntry_def
        setEntry_def setCollections_def onStats_def sample_loading_def)
qed



subsection \<open>Purging and invalidating during a refresh\<close>

lemma collEntry_purged:
  assumes "map_of (databases c) (nss_db nss) = Some db" "db < length (db_heap c)"
  shows "collEntry (purgeCollection nss c) db nss = None" "tasks (purgeCollection nss c) = tasks c"
    "databases (purgeCollection nss c) = databases c"
    "primaryShardId (db_heap (purgeCollection nss c) ! db) = primaryShardId (db_heap c ! db)"
  using assms by (simp_all add: purgeCollection_def eraseEntry_def setCollections_def collEntry_def delete_conv')

text \<open>
  C38: purging a collection while its routing table is refreshed aborts the router. The callback of the
  refresh looks for the entry of the collection, which is gone, and fails an invariant, whatever the
  load returned. Until then, lookups answer that the collection is not sharded.
\<close>

theorem purge_during_refresh_aborts:
  assumes "map_of (databases c) (nss_db nss) = Some db" "db < length (db_heap c)"
    "i < length (tasks c)" "task_db (tasks c ! i) = db" "task_nss (tasks c ! i) = nss"
    "\<not> table_fault env seq (tasks c ! i) sw" "getShard env (primaryShardId (db_heap c ! db)) = Inr ()"
  shows "runTask env sched seq i sw (purgeCollection nss c) = Inl Fatal
    \<and> getCollectionRoutingInfo env cv sched nss (purgeCollection nss c)
      = Inr (purgeCollection nss c, Answer (Inr \<lparr>ci_primaryId = primaryShardId (db_heap c ! db), ci_nss = nss, ci_cm = None\<rparr>))"
proof -
  note p = collEntry_purged [OF assms(1,2)]
  have gone: "collEntry (onStats f (purgeCollection nss c\<lparr>tasks := ts\<rparr>)) db nss = None" for f ts
    using p(1) by (simp add: collEntry_def onStats_def)
  have "onRefreshFailed sched (tasks c ! i) code (purgeCollection nss c\<lparr>tasks := ts\<rparr>) = Inl Fatal" for code ts
    using gone assms(4,5) by (simp add: onRefreshFailed.simps Let_def)
  then have "runTask env sched seq i sw (purgeCollection nss c) = Inl Fatal"
    using assms(4,5,6) gone p(2) unfolding runTask_def refreshCallback_def table_fault_def Let_def
    by (auto split: sum.split fault.split)
  moreover have "getDatabaseEntry cv (nss_db nss) (purgeCollection nss c) = Inr (purgeCollection nss c, db)"
    using assms(1) p(3) by (simp add: getDatabaseEntry_def)
  ultimately show ?thesis
    using p(1,4) assms(7) by (simp add: getCollectionRoutingInfo_def)
qed

theorem purge_during_refresh_aborts_witness:
  "runTask sample_env (\<lambda>_. None) 0 0 (Inl (Error NamespaceNotFound)) (purgeCollection ''d.c'' sample_loading) = Inl Fatal"
  using purge_during_refresh_aborts [of sample_loading "''d.c''" 0 0 sample_env 0 "Inl (Error NamespaceNotFound)" "\<lambda>_. None"]
  by (simp add: sample_loading_def table_fault_def refreshCollectionRoutingInfo_def sample_env_def)

text \<open>
  C39: an invalidation that arrives while the collection is refreshed is lost. It does not change the
  cache, so a refresh whose load was answered before the invalidation completes as if it had not
  happened: it installs the table it loaded, marks the entry as fresh, and the next lookup answers
  with that table without another refresh.
\<close>

theorem invalidation_during_refresh_lost:
  assumes "cache_ok Q c" "map_of (databases c) (nss_db nss) = Some db" "i < length (tasks c)"
    "task_db (tasks c ! i) = db" "task_nss (tasks c ! i) = nss"
    "refreshCollectionRoutingInfo env seq nss (task_existing (tasks c ! i)) sw = Inr (seq', Some cm)"
  shows "\<exists>c'. runTask env sched seq i sw (invalidateShardedCollection nss c) = Inr (seq', c')
    \<and> getCollectionRoutingInfo env cv sched nss c'
      = Inr (c', Answer (Inr \<lparr>ci_primaryId = primaryShardId (db_heap c ! db), ci_nss = [], ci_cm = Some cm\<rparr>))"
proof -
  note parts = cache_ok_parts [OF assms(1)]
  have "key (tasks c ! i) \<in> refreshing (entries c)"
    using parts(3) nth_mem [OF assms(3)] unfolding tasks_ok_def by blast
  then obtain e n where e: "db < length (db_heap c)" "collEntry c db nss = Some e" "entries c (db, nss) = Some e"
    "refreshCompletionNotification e = Some n"
    using refreshing_entry [of "(db, nss)" c] assms(4,5) unfolding fst_conv snd_conv by metis
  then have need: "needsRefresh e" and unset: "notifications c ! n = None"
    using parts(4) [OF e(3)] by (auto simp: entry_ok_def)
  have "AList.update nss (e\<lparr>needsRefresh := True\<rparr>) (collections (db_heap c ! db)) = collections (db_heap c ! db)"
    using e(2) need by (simp add: collEntry_def update_triv)
  then have same: "invalidateShardedCollection nss c = c"
    using assms(2) e(2) by (simp add: invalidateShardedCollection_def setEntry_def setCollections_def)
  define c2 where "c2 = (onStats (onRefreshCompleted (task_existing (tasks c ! i)) True)
    (c\<lparr>tasks := take i (tasks c) @ drop (Suc i) (tasks c)\<rparr>))\<lparr>notifications := (notifications c)[n := Some (Inr ())]\<rparr>"
  define c' where "c' = setEntry db nss (e\<lparr>needsRefresh := False, refreshCompletionNotification := None, routingInfo := Some cm\<rparr>) c2"
  have "runTask env sched seq i sw c = Inr (seq', c')"
    using assms(4-6) e(2,4) unset
    by (simp add: runTask_def refreshCallback_def Let_def collEntry_def notify_def onStats_def c'_def c2_def)
  moreover have "databases c' = databases c" "primaryShardId (db_heap c' ! db) = primaryShardId (db_heap c ! db)"
    "collEntry c' db nss = Some (e\<lparr>needsRefresh := False, refreshCompletionNotification := None, routingInfo := Some cm\<rparr>)"
    using e(1) by (simp_all add: c'_def c2_def setEntry_def setCollections_def collEntry_def onStats_def update_conv')
  ultimately show ?thesis
    using same assms(2) by (simp add: getCollectionRoutingInfo_def getDatabaseEntry_def)
qed

theorem invalidation_during_refresh_lost_witness:
  "\<exists>sw seq' c' cm. runTask sample_env (\<lambda>_. None) 0 0 sw (invalidateShardedCollection ''d.c'' sample_loading) = Inr (seq', c')
    \<and> getCollectionRoutingInfo sample_env sample_view (\<lambda>_. None) ''d.c'' c'
      = Inr (c', Answer (Inr \<lparr>ci_primaryId = ''s0'', ci_nss = [], ci_cm = Some cm\<rparr>))"
proof -
  have "system_ok ''d.c'' 7 (keyOf min_key) (keyOf max_key) (sample_system\<lparr>sys_cache := sample_loading\<rparr>)"
    by (rule system_reachable_ok [OF sample_loaded_run]) (simp_all add: sample_system_def sample_ok sample_key_space)
  then have ok: "cache_ok (snapshot ''d.c'' 7 (keyOf min_key) (keyOf max_key) sample_store) sample_loading"
    by (simp add: system_ok_def sample_system_def)
  have "earlier_table ''d.c'' 7 (keyOf min_key) (keyOf max_key) sample_store None"
    by (simp add: earlier_table_def)
  then obtain cc seq' cm where "refreshCollectionRoutingInfo sample_env 0 ''d.c'' None (Inr cc) = Inr (seq', Some cm)"
    by (rule refresh_succeeds [OF sample_ok sample_key_space _ _ sample_ready, where seq = 0]) auto
  then show ?thesis
    using invalidation_during_refresh_lost [OF ok, of "''d.c''" 0 0 sample_env 0 "Inr cc" seq' cm "\<lambda>_. None" sample_view]
    by (auto simp: sample_loading_def)
qed

end
