(* ===== verification/Zones.thy ===== *)
theory Zones
  imports Catalog_Loader
begin

text \<open>
  Zones and the distribution of a collection's chunks: the documents of \<open>config.tags\<close>
  (\<open>s/catalog/type_tags.cpp\<close>), reading them through the catalog client, and the
  \<open>DistributionStatus\<close> of the balancer (\<open>db/s/balancer/balancer_policy.cpp\<close>), which keeps the chunks
  of every shard and the zone ranges of the collection. A collection's zone ranges are disjoint
  whatever ranges are added, and the zone of a chunk is the zone whose range includes the chunk.
\<close>

subsection \<open>Documents of zones\<close>

record tags_type =
  tags_ns :: "string option"
  tags_tag :: "string option"
  tags_minKey :: "bson_obj option"
  tags_maxKey :: "bson_obj option"

definition Tags_fromBSON :: "bson_obj \<Rightarrow> tags_type result" where
  "Tags_fromBSON source =
     rbind (bsonExtractStringField source ''ns'') (\<lambda>tagsNs.
     rbind (bsonExtractStringField source ''tag'') (\<lambda>tagsTag.
     rbind (ChunkRange_fromBSON source) (\<lambda>tagRange.
       Inr \<lparr>tags_ns = Some tagsNs, tags_tag = Some tagsTag,
         tags_minKey = Some (minKey tagRange), tags_maxKey = Some (maxKey tagRange)\<rparr>)))"

definition Tags_validate :: "tags_type \<Rightarrow> unit result" where
  "Tags_validate t =
     (if tags_ns t = None \<or> tags_ns t = Some [] then Inl (Error NoSuchKey)
      else if tags_tag t = None \<or> tags_tag t = Some [] then Inl (Error NoSuchKey)
      else case tags_minKey t of None \<Rightarrow> Inl (Error NoSuchKey) | Some mn \<Rightarrow>
      if mn = [] then Inl (Error NoSuchKey)
      else case tags_maxKey t of None \<Rightarrow> Inl (Error NoSuchKey) | Some mx \<Rightarrow>
      if mx = [] then Inl (Error NoSuchKey)
      else if nFields mn \<noteq> nFields mx then Inl (Error BadValue)
      else if \<not> fieldNamesMatch mn mx then Inl (Error BadValue)
      else if woCompare mn mx \<ge> 0 then Inl (Error BadValue)
      else Inr ())"

definition Tags_toBSON :: "tags_type \<Rightarrow> bson_obj" where
  "Tags_toBSON t =
     opt_field ''ns'' String (tags_ns t) @ opt_field ''tag'' String (tags_tag t)
     @ opt_field ''min'' Object (tags_minKey t) @ opt_field ''max'' Object (tags_maxKey t)"

text \<open>The result of the query sorted by ascending \<open>min\<close>; a missing field sorts as null.\<close>

definition minValue :: "bson_obj \<Rightarrow> bson_value" where
  "minValue d = (case getField d ''min'' of None \<Rightarrow> JstNULL | Some v \<Rightarrow> v)"

fun insertByMin :: "bson_obj \<Rightarrow> store \<Rightarrow> store" where
  "insertByMin d [] = [d]"
| "insertByMin d (e # es) =
     (if compareValues (minValue d) (minValue e) \<le> 0 then d # e # es else e # insertByMin d es)"

definition sortByMin :: "store \<Rightarrow> store" where
  "sortByMin ds = foldr insertByMin ds []"

fun parseTags :: "bson_obj list \<Rightarrow> tags_type list result" where
  "parseTags [] = Inr []"
| "parseTags (obj # objs) =
     rbind (Tags_fromBSON obj) (\<lambda>tagRes. rbind (parseTags objs) (\<lambda>tags. Inr (tagRes # tags)))"

definition getTagsForCollection :: "store \<Rightarrow> string \<Rightarrow> tags_type list result" where
  "getTagsForCollection st collectionNs = parseTags (sortByMin (findOnConfig st [(''ns'', String collectionNs)]))"

subsection \<open>The distribution of a collection\<close>

record zone_range =
  zone_min :: bson_obj
  zone_max :: bson_obj
  zone_name :: string

text \<open>
  The map from shards to their chunks is only searched and summed up, so the order of its entries
  does not matter; the set of zone names is iterated in order.
\<close>

record distribution_status =
  ds_nss :: string
  shardChunks :: "(shard_id \<times> chunk_type list) list"
  zoneRanges :: "(bson_obj, zone_range) omap"
  allTags :: "(string, unit) omap"

definition DistributionStatus :: "string \<Rightarrow> (shard_id \<times> chunk_type list) list \<Rightarrow> distribution_status" where
  "DistributionStatus nss shardToChunksMap =
     \<lparr>ds_nss = nss, shardChunks = shardToChunksMap, zoneRanges = [], allTags = []\<rparr>"

definition dist_tags :: "distribution_status \<Rightarrow> string list" where
  "dist_tags d = map fst (allTags d)"

definition dist_getChunks :: "distribution_status \<Rightarrow> shard_id \<Rightarrow> chunk_type list result" where
  "dist_getChunks d sh = (case map_of (shardChunks d) sh of None \<Rightarrow> Inl Fatal | Some chunks \<Rightarrow> Inr chunks)"

definition totalChunks :: "distribution_status \<Rightarrow> nat" where
  "totalChunks d = sum_list (map (\<lambda>shardChunk. length (snd shardChunk)) (shardChunks d))"

definition numberOfChunksInShard :: "distribution_status \<Rightarrow> shard_id \<Rightarrow> nat result" where
  "numberOfChunksInShard d sh = rbind (dist_getChunks d sh) (\<lambda>chunks. Inr (length chunks))"

definition addRangeToZone :: "zone_range \<Rightarrow> distribution_status \<Rightarrow> distribution_status result" where
  "addRangeToZone r d =
     (let zr = zoneRanges d;
          minIntersect = om_upper_bound woCompare (zone_min r) zr;
          maxIntersect = om_upper_bound woCompare (zone_max r) zr
      in if minIntersect \<noteq> maxIntersect then
           rbind (invariant (minIntersect < length zr)) (\<lambda>_.
           rbind (if woCompare (zone_min (snd (zr ! minIntersect))) (zone_max r) < 0 then Inr (snd (zr ! minIntersect))
                  else if maxIntersect < length zr then Inr (snd (zr ! maxIntersect))
                  else Inl UndefinedBehaviour) (\<lambda>intersectingRange.
             if woCompare (zone_min intersectingRange) (zone_min r) = 0
               \<and> woCompare (zone_max intersectingRange) (zone_max r) = 0
               \<and> zone_name intersectingRange = zone_name r
             then Inr d
             else Inl (Error RangeOverlapConflict)))
         else
           rbind (if minIntersect < length zr \<and> 0 < woCompare (zone_max r) (zone_min (snd (zr ! minIntersect)))
                  then rbind (invariant (woCompare (zone_max r) (zone_max (snd (zr ! minIntersect))) < 0)) (\<lambda>_.
                    Inl (Error RangeOverlapConflict))
                  else Inr ()) (\<lambda>_.
             Inr (d\<lparr>zoneRanges := om_insert woCompare (zone_max r) r zr,
                    allTags := om_insert stringdata_compare (zone_name r) () (allTags d)\<rparr>)))"

definition getTagForChunk :: "distribution_status \<Rightarrow> chunk_type \<Rightarrow> string" where
  "getTagForChunk d chunk =
     (let zr = zoneRanges d;
          minIntersect = om_upper_bound woCompare (the (chunk_min chunk)) zr;
          maxIntersect = om_lower_bound woCompare (the (chunk_max chunk)) zr
      in if minIntersect \<noteq> maxIntersect then []
         else if minIntersect = length zr then []
         else let intersectRange = snd (zr ! minIntersect)
              in if woCompare (zone_min intersectRange) (the (chunk_min chunk)) \<le> 0
                   \<and> woCompare (the (chunk_max chunk)) (zone_max intersectRange) \<le> 0
                 then zone_name intersectRange
                 else [])"

definition numberOfChunksInShardWithTag :: "distribution_status \<Rightarrow> shard_id \<Rightarrow> string \<Rightarrow> nat result" where
  "numberOfChunksInShardWithTag d sh tag =
     rbind (dist_getChunks d sh) (\<lambda>chunks. Inr (length (filter (\<lambda>chunk. tag = getTagForChunk d chunk) chunks)))"

fun sumChunksWithTag :: "distribution_status \<Rightarrow> string \<Rightarrow> (shard_id \<times> chunk_type list) list \<Rightarrow> nat result" where
  "sumChunksWithTag d tag [] = Inr 0"
| "sumChunksWithTag d tag (shardChunk # rest) =
     rbind (numberOfChunksInShardWithTag d (fst shardChunk) tag) (\<lambda>n.
     rbind (sumChunksWithTag d tag rest) (\<lambda>total. Inr (n + total)))"

definition totalChunksWithTag :: "distribution_status \<Rightarrow> string \<Rightarrow> nat result" where
  "totalChunksWithTag d tag = sumChunksWithTag d tag (shardChunks d)"


subsection \<open>Disjoint zones\<close>

abbreviation zone_ivl :: "zone_range \<Rightarrow> bson_key \<times> bson_key" where
  "zone_ivl z \<equiv> (keyOf (zone_min z), keyOf (zone_max z))"

definition zones_ok :: "(bson_obj, zone_range) omap \<Rightarrow> bool" where
  "zones_ok zr \<longleftrightarrow> (\<forall>e\<in>set zr. fst e = zone_max (snd e) \<and> keyOf (zone_min (snd e)) < keyOf (zone_max (snd e)))
     \<and> sorted_wrt (\<lambda>e f. keyOf (zone_max (snd e)) \<le> keyOf (zone_min (snd f))) zr"

definition in_zone :: "(bson_obj, zone_range) omap \<Rightarrow> bson_key \<Rightarrow> string \<Rightarrow> bool" where
  "in_zone zr k n \<longleftrightarrow> (\<exists>e\<in>set zr. k \<in> ivl (zone_ivl (snd e)) \<and> n = zone_name (snd e))"

lemma zones_empty [simp]: "zones_ok []"
  by (simp add: zones_ok_def)

lemma zones_mem: "\<lbrakk>zones_ok zr; e \<in> set zr\<rbrakk> \<Longrightarrow> fst e = zone_max (snd e) \<and> keyOf (zone_min (snd e)) < keyOf (zone_max (snd e))"
  by (simp add: zones_ok_def)

lemma zones_sorted:
  assumes "zones_ok zr"
  shows "om_sorted woCompare zr"
proof -
  have "sorted_wrt (\<lambda>e f. keyOf (zone_max (snd e)) \<le> keyOf (zone_min (snd f))) zr"
    using assms by (simp add: zones_ok_def)
  then show ?thesis
    unfolding om_sorted_def key_simps
  proof (rule sorted_wrt_mono_rel [rotated])
    fix e f
    assume "e \<in> set zr" "f \<in> set zr" "keyOf (zone_max (snd e)) \<le> keyOf (zone_min (snd f))"
    then show "keyOf (fst e) < keyOf (fst f)"
      using zones_mem [OF assms, of e] zones_mem [OF assms, of f] by (metis le_less_trans)
  qed
qed

lemma sorted_wrt_either: "\<lbrakk>sorted_wrt R xs; x \<in> set xs; y \<in> set xs; x \<noteq> y\<rbrakk> \<Longrightarrow> R x y \<or> R y x"
  by (induction xs) auto

text \<open>Two zones that share a key are the same entry.\<close>

lemma zones_disjoint:
  assumes "zones_ok zr" "e \<in> set zr" "f \<in> set zr" "k \<in> ivl (zone_ivl (snd e))" "k \<in> ivl (zone_ivl (snd f))"
  shows "e = f"
proof (rule ccontr)
  assume "e \<noteq> f"
  then have "keyOf (zone_max (snd e)) \<le> keyOf (zone_min (snd f)) \<or> keyOf (zone_max (snd f)) \<le> keyOf (zone_min (snd e))"
    using sorted_wrt_either [OF _ assms(2,3)] assms(1) unfolding zones_ok_def by blast
  then show False
    using assms(4,5) by (auto simp: ivl_def)
qed

lemma in_zone_unique: "\<lbrakk>zones_ok zr; in_zone zr k m; in_zone zr k n\<rbrakk> \<Longrightarrow> m = n"
  unfolding in_zone_def using zones_disjoint by metis

lemma ivls_meet:
  assumes "a < b" "c < d" "c < b" "a < (d :: 'k :: linorder)"
  shows "max a c \<in> ivl (a, b)" "max a c \<in> ivl (c, d)"
  using assms by (auto simp: ivl_def)

text \<open>What the two positions that \<open>addRangeToZone\<close> and \<open>getTagForChunk\<close> look up mean.\<close>

lemma zones_upper_bound:
  assumes "zones_ok zr"
  shows "set (take (om_upper_bound woCompare x zr) zr) = {e \<in> set zr. keyOf (zone_max (snd e)) \<le> keyOf x}"
    "set (drop (om_upper_bound woCompare x zr) zr) = {e \<in> set zr. keyOf x < keyOf (zone_max (snd e))}"
  using zones_mem [OF assms]
  by (auto simp: bson.take_om_upper_bound [OF zones_sorted [OF assms]] bson.drop_om_upper_bound [OF zones_sorted [OF assms]] key_simps)

lemma zones_lower_bound:
  assumes "zones_ok zr"
  shows "set (take (om_lower_bound woCompare x zr) zr) = {e \<in> set zr. keyOf (zone_max (snd e)) < keyOf x}"
    "set (drop (om_lower_bound woCompare x zr) zr) = {e \<in> set zr. keyOf x \<le> keyOf (zone_max (snd e))}"
  using zones_mem [OF assms]
  by (auto simp: bson.take_om_lower_bound [OF zones_sorted [OF assms]] bson.drop_om_lower_bound [OF zones_sorted [OF assms]] key_simps)

lemma nth_in_drop: "i < length xs \<Longrightarrow> xs ! i \<in> set (drop i xs)"
  by (metis Cons_nth_drop_Suc list.set_intros(1))

lemma nth_in_take: "\<lbrakk>i < j; i < length xs\<rbrakk> \<Longrightarrow> xs ! i \<in> set (take j xs)"
  by (auto simp: in_set_conv_nth)

lemma zones_after:
  assumes "zones_ok zr" "i < length zr" "e \<in> set (drop i zr)"
  shows "e = zr ! i \<or> keyOf (zone_max (snd (zr ! i))) \<le> keyOf (zone_min (snd e))"
proof -
  have "sorted_wrt (\<lambda>e f. keyOf (zone_max (snd e)) \<le> keyOf (zone_min (snd f))) (zr ! i # drop (Suc i) zr)"
    using assms(1,2) by (metis Cons_nth_drop_Suc sorted_wrt_drop zones_ok_def)
  moreover have "e = zr ! i \<or> e \<in> set (drop (Suc i) zr)"
    using assms(2,3) by (metis Cons_nth_drop_Suc set_ConsD)
  ultimately show ?thesis
    by auto
qed

subsection \<open>Adding a zone\<close>

definition same_zone :: "zone_range \<Rightarrow> zone_range \<Rightarrow> bool" where
  "same_zone r z \<longleftrightarrow> zone_ivl z = zone_ivl r \<and> zone_name z = zone_name r"

lemma same_zone_key: "same_zone r z \<Longrightarrow> k \<in> ivl (zone_ivl z) \<longleftrightarrow> k \<in> ivl (zone_ivl r)"
  by (simp add: same_zone_def)

text \<open>When the two positions differ, the zone at the first one meets the new range.\<close>

lemma add_partial:
  assumes ok: "zones_ok (zoneRanges d)" and r: "keyOf (zone_min r) < keyOf (zone_max r)"
    and ij: "om_upper_bound woCompare (zone_min r) (zoneRanges d) \<noteq> om_upper_bound woCompare (zone_max r) (zoneRanges d)"
  obtains e k where "e \<in> set (zoneRanges d)" "k \<in> ivl (zone_ivl (snd e))" "k \<in> ivl (zone_ivl r)"
    "addRangeToZone r d = (if same_zone r (snd e) then Inr d else Inl (Error RangeOverlapConflict))"
proof -
  let ?zr = "zoneRanges d"
  let ?i = "om_upper_bound woCompare (zone_min r) ?zr" and ?j = "om_upper_bound woCompare (zone_max r) ?zr"
  have "\<not> ?j < ?i"
  proof
    assume "?j < ?i"
    then have "?zr ! ?j \<in> set (take ?i ?zr)" "?zr ! ?j \<in> set (drop ?j ?zr)"
      using om_upper_bound_le_length [of woCompare "zone_min r" ?zr] by (auto intro!: nth_in_take nth_in_drop)
    then have "keyOf (zone_max (snd (?zr ! ?j))) \<le> keyOf (zone_min r)" "keyOf (zone_max r) < keyOf (zone_max (snd (?zr ! ?j)))"
      by (simp_all add: zones_upper_bound [OF ok])
    then show False
      using r by order
  qed
  then have i: "?i < ?j" "?i < length ?zr"
    using ij om_upper_bound_le_length [of woCompare "zone_max r" ?zr] by simp_all
  define e where "e = ?zr ! ?i"
  have "e \<in> set (take ?j ?zr)" "e \<in> set (drop ?i ?zr)"
    using i by (simp_all add: e_def nth_in_take nth_in_drop)
  then have e: "e \<in> set ?zr" "keyOf (zone_min r) < keyOf (zone_max (snd e))" "keyOf (zone_max (snd e)) \<le> keyOf (zone_max r)"
    by (simp_all add: zones_upper_bound [OF ok])
  have lt: "keyOf (zone_min (snd e)) < keyOf (zone_max (snd e))"
    using zones_mem [OF ok e(1)] by simp
  then have "keyOf (zone_min (snd e)) < keyOf (zone_max r)"
    using e(3) by simp
  moreover have "addRangeToZone r d = (if same_zone r (snd e) then Inr d else Inl (Error RangeOverlapConflict))"
    using ij i(2) \<open>keyOf (zone_min (snd e)) < keyOf (zone_max r)\<close>
    by (simp add: addRangeToZone_def Let_def invariant_def same_zone_def key_simps flip: e_def)
  ultimately show thesis
    using that [OF e(1) ivls_meet(2) ivls_meet(1)] r e(2) lt by blast
qed

text \<open>When they coincide, every zone is below or above the new range, or the next zone includes it.\<close>

lemma add_inside:
  assumes ok: "zones_ok (zoneRanges d)" and r: "keyOf (zone_min r) < keyOf (zone_max r)"
    and ij: "om_upper_bound woCompare (zone_min r) (zoneRanges d) = om_upper_bound woCompare (zone_max r) (zoneRanges d)"
  shows "(\<forall>e\<in>set (zoneRanges d). \<not> same_zone r (snd e)) \<and>
    ((\<exists>e\<in>set (zoneRanges d). \<exists>k. k \<in> ivl (zone_ivl (snd e)) \<and> k \<in> ivl (zone_ivl r))
        \<and> addRangeToZone r d = Inl (Error RangeOverlapConflict)
     \<or> (\<forall>e\<in>set (zoneRanges d). keyOf (zone_max (snd e)) \<le> keyOf (zone_min r) \<or> keyOf (zone_max r) \<le> keyOf (zone_min (snd e)))
        \<and> addRangeToZone r d = Inr (d\<lparr>zoneRanges := om_insert woCompare (zone_max r) r (zoneRanges d),
            allTags := om_insert stringdata_compare (zone_name r) () (allTags d)\<rparr>))"
proof -
  let ?zr = "zoneRanges d"
  let ?i = "om_upper_bound woCompare (zone_max r) ?zr"
  have below: "keyOf (zone_max (snd e)) \<le> keyOf (zone_min r)" if "e \<in> set ?zr" "keyOf (zone_max (snd e)) \<le> keyOf (zone_max r)" for e
    using zones_upper_bound(1) [OF ok, of "zone_min r"] zones_upper_bound(1) [OF ok, of "zone_max r"] that unfolding ij by blast
  have "\<not> same_zone r (snd e)" if "e \<in> set ?zr" for e
    using below [OF that] r by (auto simp: same_zone_def)
  moreover have "(\<exists>e\<in>set ?zr. \<exists>k. k \<in> ivl (zone_ivl (snd e)) \<and> k \<in> ivl (zone_ivl r))
      \<and> addRangeToZone r d = Inl (Error RangeOverlapConflict)"
    if i: "?i < length ?zr" "keyOf (zone_min (snd (?zr ! ?i))) < keyOf (zone_max r)"
  proof -
    define e where "e = ?zr ! ?i"
    have "e \<in> set (drop ?i ?zr)"
      using i by (simp add: e_def nth_in_drop)
    then have e: "e \<in> set ?zr" "keyOf (zone_max r) < keyOf (zone_max (snd e))"
      by (simp_all add: zones_upper_bound [OF ok])
    then have "addRangeToZone r d = Inl (Error RangeOverlapConflict)"
      using i ij by (simp add: addRangeToZone_def Let_def invariant_def key_simps flip: e_def)
    moreover have "keyOf (zone_min (snd e)) < keyOf (zone_max (snd e))" "keyOf (zone_min r) < keyOf (zone_max (snd e))"
      using zones_mem [OF ok e(1)] e(2) r by (simp, order)
    ultimately show ?thesis
      using ivls_meet [OF _ r] e(1) i(2) unfolding e_def by blast
  qed
  moreover have "(\<forall>e\<in>set ?zr. keyOf (zone_max (snd e)) \<le> keyOf (zone_min r) \<or> keyOf (zone_max r) \<le> keyOf (zone_min (snd e)))"
    if i: "\<not> (?i < length ?zr \<and> keyOf (zone_min (snd (?zr ! ?i))) < keyOf (zone_max r))"
  proof
    fix e
    assume e: "e \<in> set ?zr"
    show "keyOf (zone_max (snd e)) \<le> keyOf (zone_min r) \<or> keyOf (zone_max r) \<le> keyOf (zone_min (snd e))"
    proof (cases "keyOf (zone_max (snd e)) \<le> keyOf (zone_max r)")
      case False
      then have "e \<in> set (drop ?i ?zr)"
        using e by (simp add: zones_upper_bound [OF ok])
      moreover from this have "?i < length ?zr"
        by (metis drop_all empty_iff empty_set not_less)
      moreover from this have "keyOf (zone_max r) \<le> keyOf (zone_min (snd (?zr ! ?i)))" "?zr ! ?i \<in> set ?zr"
        using i by simp_all
      ultimately show ?thesis
        using zones_after [OF ok, of ?i e] zones_mem [OF ok, of "?zr ! ?i"] by force
    qed (use e below in blast)
  qed
  moreover have "addRangeToZone r d = Inr (d\<lparr>zoneRanges := om_insert woCompare (zone_max r) r ?zr,
        allTags := om_insert stringdata_compare (zone_name r) () (allTags d)\<rparr>)"
    if "\<not> (?i < length ?zr \<and> keyOf (zone_min (snd (?zr ! ?i))) < keyOf (zone_max r))"
    using ij that by (auto simp: addRangeToZone_def Let_def key_simps)
  ultimately show ?thesis
    by blast
qed

lemma zones_insert:
  assumes ok: "zones_ok zr" and r: "keyOf (zone_min r) < keyOf (zone_max r)"
    and apart: "\<forall>e\<in>set zr. keyOf (zone_max (snd e)) \<le> keyOf (zone_min r) \<or> keyOf (zone_max r) \<le> keyOf (zone_min (snd e))"
  shows "zones_ok (om_insert woCompare (zone_max r) r zr)"
    "set (om_insert woCompare (zone_max r) r zr) = insert (zone_max r, r) (set zr)"
proof -
  note mem = zones_mem [OF ok]
  have neq: "\<forall>e\<in>set zr. woCompare (fst e) (zone_max r) \<noteq> 0"
  proof
    fix e
    assume "e \<in> set zr"
    then show "woCompare (fst e) (zone_max r) \<noteq> 0"
      using apart mem [of e] r unfolding key_simps by force
  qed
  show set: "set (om_insert woCompare (zone_max r) r zr) = insert (zone_max r, r) (set zr)"
    by (rule bson.set_om_insert [OF zones_sorted [OF ok] neq])
  have below: "keyOf (zone_max (snd e)) \<le> keyOf (zone_min r)" if "e \<in> set zr" "keyOf (fst e) < keyOf (zone_max r)" for e
    using that apart mem [OF that(1)] by force
  have above: "keyOf (zone_max r) \<le> keyOf (zone_min (snd e))" if "e \<in> set zr" "keyOf (zone_max r) < keyOf (fst e)" for e
    using that apart mem [OF that(1)] r by force
  have "keyOf (zone_max (snd e)) \<le> keyOf (zone_min (snd f))"
    if "e \<in> set zr" "keyOf (fst e) < keyOf (zone_max r)" "f \<in> set zr" "keyOf (zone_max r) < keyOf (fst f)" for e f
    using below [OF that(1,2)] above [OF that(3,4)] r by order
  moreover have "sorted_wrt (\<lambda>e f. keyOf (zone_max (snd e)) \<le> keyOf (zone_min (snd f))) (filter P zr)" for P
    using ok by (simp add: zones_ok_def sorted_wrt_filter)
  ultimately have "sorted_wrt (\<lambda>e f. keyOf (zone_max (snd e)) \<le> keyOf (zone_min (snd f))) (om_insert woCompare (zone_max r) r zr)"
    using below above unfolding bson.om_insert_fresh [OF zones_sorted [OF ok] neq] key_simps sorted_wrt_append
      sorted_wrt.simps list.set set_filter ball_simps(7) snd_conv by blast
  then show "zones_ok (om_insert woCompare (zone_max r) r zr)"
    using r mem unfolding zones_ok_def set by (metis fst_conv insertE snd_conv)
qed

lemma in_zone_insert:
  assumes "set zr' = insert (x, r) (set zr)"
    and apart: "\<forall>e\<in>set zr. keyOf (zone_max (snd e)) \<le> keyOf (zone_min r) \<or> keyOf (zone_max r) \<le> keyOf (zone_min (snd e))"
  shows "in_zone zr' k n \<longleftrightarrow> (if k \<in> ivl (zone_ivl r) then n = zone_name r else in_zone zr k n)"
proof -
  have "k \<notin> ivl (zone_ivl (snd e))" if "e \<in> set zr" "k \<in> ivl (zone_ivl r)" for e
    using apart that by (fastforce simp: ivl_def)
  then show ?thesis
    unfolding in_zone_def assms(1) by auto
qed

text \<open>The form in which the callers use it.\<close>

lemma addRange_ok:
  assumes "zones_ok (zoneRanges d)" "keyOf (zone_min r) < keyOf (zone_max r)"
  shows "addRangeToZone r d = Inl (Error RangeOverlapConflict)
    \<or> (\<exists>d'. addRangeToZone r d = Inr d' \<and> zones_ok (zoneRanges d') \<and> shardChunks d' = shardChunks d \<and> ds_nss d' = ds_nss d
         \<and> set (zoneRanges d') \<subseteq> insert (zone_max r, r) (set (zoneRanges d)))"
proof (cases "om_upper_bound woCompare (zone_min r) (zoneRanges d) = om_upper_bound woCompare (zone_max r) (zoneRanges d)")
  case True
  note inside = add_inside [OF assms True, THEN conjunct2]
  then show ?thesis
  proof (elim disjE conjE)
    assume apart: "\<forall>e\<in>set (zoneRanges d). keyOf (zone_max (snd e)) \<le> keyOf (zone_min r) \<or> keyOf (zone_max r) \<le> keyOf (zone_min (snd e))"
      and "addRangeToZone r d = Inr (d\<lparr>zoneRanges := om_insert woCompare (zone_max r) r (zoneRanges d),
            allTags := om_insert stringdata_compare (zone_name r) () (allTags d)\<rparr>)"
    then show ?thesis
      using zones_insert [OF assms apart] by simp
  qed simp
next
  case False
  obtain e k where "e \<in> set (zoneRanges d)" "k \<in> ivl (zone_ivl (snd e))" "k \<in> ivl (zone_ivl r)"
    "addRangeToZone r d = (if same_zone r (snd e) then Inr d else Inl (Error RangeOverlapConflict))"
    by (rule add_partial [OF assms False])
  then show ?thesis
    using assms(1) by (auto split: if_splits)
qed

text \<open>
  C15: the zones of a collection stay disjoint. Adding a range to a zone succeeds exactly when the range
  meets no zone of the collection or is a zone of the collection already. It then leaves the chunks
  as they are and assigns exactly the keys of the range to the zone. Otherwise it fails with
  RangeOverlapConflict.
\<close>

theorem addRangeToZone_correct:
  assumes "zones_ok (zoneRanges d)" "keyOf (zone_min r) < keyOf (zone_max r)"
  shows "if (\<forall>e\<in>set (zoneRanges d). ivl (zone_ivl (snd e)) \<inter> ivl (zone_ivl r) = {}) \<or> (\<exists>e\<in>set (zoneRanges d). same_zone r (snd e))
    then \<exists>d'. addRangeToZone r d = Inr d' \<and> zones_ok (zoneRanges d') \<and> shardChunks d' = shardChunks d
      \<and> (\<forall>k n. in_zone (zoneRanges d') k n \<longleftrightarrow> (if k \<in> ivl (zone_ivl r) then n = zone_name r else in_zone (zoneRanges d) k n))
    else addRangeToZone r d = Inl (Error RangeOverlapConflict)"
proof (cases "om_upper_bound woCompare (zone_min r) (zoneRanges d) = om_upper_bound woCompare (zone_max r) (zoneRanges d)")
  case True
  consider (meets) "\<exists>e\<in>set (zoneRanges d). \<exists>k. k \<in> ivl (zone_ivl (snd e)) \<and> k \<in> ivl (zone_ivl r)"
      "addRangeToZone r d = Inl (Error RangeOverlapConflict)"
    | (apart) "\<forall>e\<in>set (zoneRanges d). keyOf (zone_max (snd e)) \<le> keyOf (zone_min r) \<or> keyOf (zone_max r) \<le> keyOf (zone_min (snd e))"
      "addRangeToZone r d = Inr (d\<lparr>zoneRanges := om_insert woCompare (zone_max r) r (zoneRanges d),
            allTags := om_insert stringdata_compare (zone_name r) () (allTags d)\<rparr>)"
    using add_inside [OF assms True] by blast
  then show ?thesis
  proof cases
    case meets
    then show ?thesis
      using add_inside [OF assms True] by auto
  next
    case apart
    then have "\<forall>e\<in>set (zoneRanges d). ivl (zone_ivl (snd e)) \<inter> ivl (zone_ivl r) = {}"
      by (fastforce simp: ivl_def)
    then show ?thesis
      using apart(2) zones_insert(1) [OF assms apart(1)] in_zone_insert [OF zones_insert(2) [OF assms apart(1)] apart(1)] by simp
  qed
next
  case False
  then obtain e k where e: "e \<in> set (zoneRanges d)" "k \<in> ivl (zone_ivl (snd e))" "k \<in> ivl (zone_ivl r)"
    "addRangeToZone r d = (if same_zone r (snd e) then Inr d else Inl (Error RangeOverlapConflict))"
    using add_partial [OF assms] by blast
  have "same_zone r (snd e)" if "f \<in> set (zoneRanges d)" "same_zone r (snd f)" for f
    using zones_disjoint [OF assms(1) e(1) that(1) e(2)] e(3) same_zone_key [OF that(2)] that(2) by blast
  moreover have "in_zone (zoneRanges d) x n \<longleftrightarrow> (if x \<in> ivl (zone_ivl r) then n = zone_name r else in_zone (zoneRanges d) x n)"
    if "same_zone r (snd e)" for x n
  proof -
    have "in_zone (zoneRanges d) x (zone_name r)" if "x \<in> ivl (zone_ivl r)"
      using e(1) that \<open>same_zone r (snd e)\<close> unfolding in_zone_def same_zone_def by metis
    then show ?thesis
      using in_zone_unique [OF assms(1)] by auto
  qed
  ultimately show ?thesis
    using e assms(1) by auto
qed


definition sample_zone :: zone_range where
  "sample_zone = \<lparr>zone_min = int_key 0, zone_max = int_key 10, zone_name = ''Z''\<rparr>"

theorem addRangeToZone_correct_witness:
  "\<exists>d'. addRangeToZone sample_zone (DistributionStatus ''d.c'' []) = Inr d'
    \<and> in_zone (zoneRanges d') (keyOf (int_key 5)) ''Z'' \<and> \<not> in_zone (zoneRanges d') (keyOf (int_key 10)) ''Z''"
proof -
  let ?d = "DistributionStatus ''d.c'' []"
  have "zones_ok (zoneRanges ?d)" "\<forall>e\<in>set (zoneRanges ?d). ivl (zone_ivl (snd e)) \<inter> ivl (zone_ivl sample_zone) = {}"
    "keyOf (zone_min sample_zone) < keyOf (zone_max sample_zone)"
    by (simp_all add: DistributionStatus_def sample_zone_def)
  then obtain d' where "addRangeToZone sample_zone ?d = Inr d'"
    "\<forall>k n. in_zone (zoneRanges d') k n \<longleftrightarrow> (if k \<in> ivl (zone_ivl sample_zone) then n = zone_name sample_zone else in_zone (zoneRanges ?d) k n)"
    using addRangeToZone_correct [of ?d sample_zone] by auto
  then show ?thesis
    by (simp add: sample_zone_def DistributionStatus_def in_zone_def [of "[]"] ivl_def)
qed

subsection \<open>The zone of a chunk\<close>

abbreviation ct_lo :: "chunk_type \<Rightarrow> bson_key" where
  "ct_lo c \<equiv> keyOf (the (chunk_min c))"

abbreviation ct_hi :: "chunk_type \<Rightarrow> bson_key" where
  "ct_hi c \<equiv> keyOf (the (chunk_max c))"

lemma tag_position:
  assumes ok: "zones_ok zr" and e: "e \<in> set zr" "keyOf (zone_min (snd e)) \<le> ct_lo c" "ct_hi c \<le> keyOf (zone_max (snd e))"
    and c: "ct_lo c < ct_hi c"
  shows "\<exists>i<length zr. zr ! i = e \<and> om_upper_bound woCompare (the (chunk_min c)) zr = i \<and> om_lower_bound woCompare (the (chunk_max c)) zr = i"
proof -
  obtain xs ys where zr: "zr = xs @ e # ys"
    using e(1) by (meson split_list)
  then have pre: "\<forall>f\<in>set xs. keyOf (zone_max (snd f)) \<le> keyOf (zone_min (snd e))"
    using ok by (simp add: zones_ok_def sorted_wrt_append)
  have fst: "f \<in> set zr \<Longrightarrow> fst f = zone_max (snd f)" for f
    using zones_mem [OF ok] by blast
  have "keyOf (fst f) \<le> ct_lo c" if "f \<in> set xs" for f
    using pre that e(2) fst [of f] zr by fastforce
  moreover from this have "keyOf (fst f) < ct_hi c" if "f \<in> set xs" for f
    using that c by fastforce
  moreover have "ct_lo c < keyOf (fst e)" "ct_hi c \<le> keyOf (fst e)"
    using e c unfolding fst [OF e(1)] by order+
  ultimately have "takeWhile (\<lambda>f. \<not> woCompare (the (chunk_min c)) (fst f) < 0) zr = xs"
    "takeWhile (\<lambda>f. woCompare (fst f) (the (chunk_max c)) < 0) zr = xs"
    unfolding zr key_simps by (simp_all add: not_less)
  then show ?thesis
    by (intro exI [of _ "length xs"]) (simp add: om_upper_bound_def om_lower_bound_def zr)
qed

text \<open>
  C16: the zone of a chunk is the name of the only zone whose range includes the range of the chunk, and
  empty when no range includes it.
\<close>

theorem getTagForChunk_correct:
  assumes "zones_ok (zoneRanges d)" "ct_lo c < ct_hi c"
  shows "if \<exists>e\<in>set (zoneRanges d). {ct_lo c..<ct_hi c} \<subseteq> ivl (zone_ivl (snd e))
    then \<forall>k\<in>{ct_lo c..<ct_hi c}. in_zone (zoneRanges d) k (getTagForChunk d c)
    else getTagForChunk d c = []"
proof (cases "\<exists>e\<in>set (zoneRanges d). {ct_lo c..<ct_hi c} \<subseteq> ivl (zone_ivl (snd e))")
  case True
  then obtain e where e: "e \<in> set (zoneRanges d)" "{ct_lo c..<ct_hi c} \<subseteq> ivl (zone_ivl (snd e))"
    by blast
  then have lo: "keyOf (zone_min (snd e)) \<le> ct_lo c" "ct_lo c < keyOf (zone_max (snd e))"
    using assms(2) by (auto simp: ivl_def)
  have hi: "ct_hi c \<le> keyOf (zone_max (snd e))"
  proof (rule ccontr)
    assume "\<not> ct_hi c \<le> keyOf (zone_max (snd e))"
    then have "keyOf (zone_max (snd e)) \<in> {ct_lo c..<ct_hi c}"
      using lo by (simp add: not_le)
    then show False
      using e(2) by (auto simp: ivl_def)
  qed
  have "getTagForChunk d c = zone_name (snd e)"
    using tag_position [OF assms(1) e(1) lo(1) hi assms(2)] lo hi by (auto simp: getTagForChunk_def Let_def key_simps)
  then show ?thesis
    using True e unfolding in_zone_def by auto
next
  case False
  have "\<not> (keyOf (zone_min (snd e)) \<le> ct_lo c \<and> ct_hi c \<le> keyOf (zone_max (snd e)))" if "e \<in> set (zoneRanges d)" for e
    using False that by (fastforce simp: ivl_def)
  then have "getTagForChunk d c = []"
    using om_upper_bound_le_length [of woCompare "the (chunk_min c)" "zoneRanges d"]
    unfolding getTagForChunk_def Let_def key_simps by (metis le_neq_implies_less nth_mem)
  then show ?thesis
    using False by simp
qed

theorem getTagForChunk_correct_witness:
  "\<exists>d. addRangeToZone sample_zone (DistributionStatus ''d.c'' []) = Inr d
    \<and> getTagForChunk d (ChunkType_empty\<lparr>chunk_min := Some (int_key 0), chunk_max := Some (int_key 5)\<rparr>) = ''Z''
    \<and> getTagForChunk d (ChunkType_empty\<lparr>chunk_min := Some (int_key 5), chunk_max := Some max_key\<rparr>) = []"
proof -
  let ?d = "(DistributionStatus ''d.c'' [])\<lparr>zoneRanges := [(int_key 10, sample_zone)], allTags := [(''Z'', ())]\<rparr>"
  let ?c = "\<lambda>l h. ChunkType_empty\<lparr>chunk_min := Some l, chunk_max := Some h\<rparr>"
  have ok: "zones_ok (zoneRanges ?d)"
    by (simp add: zones_ok_def sample_zone_def)
  have "keyOf (int_key 5) < keyOf (int_key 10)"
    by simp
  then have "\<not> {keyOf (int_key 5)..<keyOf max_key} \<subseteq> {keyOf (int_key 0)..<keyOf (int_key 10)}"
    by (auto simp: subset_iff intro!: exI [of _ "keyOf (int_key 10)"])
  then have "getTagForChunk ?d (?c (int_key 5) max_key) = []"
    using getTagForChunk_correct [OF ok, of "?c (int_key 5) max_key"] by (simp add: sample_zone_def ivl_def ChunkType_empty_def)
  moreover have "in_zone (zoneRanges ?d) (keyOf (int_key 0)) (getTagForChunk ?d (?c (int_key 0) (int_key 5)))"
    using getTagForChunk_correct [OF ok, of "?c (int_key 0) (int_key 5)"]
    by (simp add: sample_zone_def ivl_def ChunkType_empty_def)
  moreover have "addRangeToZone sample_zone (DistributionStatus ''d.c'' []) = Inr ?d"
    by (simp add: addRangeToZone_def DistributionStatus_def sample_zone_def om_upper_bound_def om_insert_def om_lower_bound_def Let_def)
  ultimately show ?thesis
    by (auto simp: in_zone_def sample_zone_def)
qed

end
