(* ===== verification/Balancer_Policy.thy ===== *)
theory Balancer_Policy
  imports Zones
begin

text \<open>
  The policy of the balancer (\<open>db/s/balancer/balancer_policy.cpp\<close>, \<open>cluster_statistics.cpp\<close>): which chunks
  of a collection to move between which shards. Draining shards come first, then chunks outside
  their zone, then every zone is evened out by a loop that ends because each round uses up a shard.
  The proposed migrations never share a shard, go to shards that may receive the chunk, and each
  has a reason; on the statistics of a cluster no internal check of the policy fails.
\<close>

subsection \<open>Statistics of the shards\<close>

record shard_statistics =
  ss_shardId :: shard_id
  maxSizeMB :: "64 word"
  currSizeMB :: "64 word"
  isDraining :: bool
  shardTags :: "string list"
  mongoVersion :: string

definition isSizeMaxed :: "shard_statistics \<Rightarrow> bool" where
  "isSizeMaxed stat =
     (if maxSizeMB stat = 0 \<or> currSizeMB stat = 0 then False else currSizeMB stat \<ge> maxSizeMB stat)"

subsection \<open>Migrations\<close>

record migrate_info =
  mi_ns :: string
  mi_to :: shard_id
  mi_from :: shard_id
  mi_minKey :: bson_obj
  mi_maxKey :: bson_obj
  mi_version :: chunk_version

definition MigrateInfo :: "shard_id \<Rightarrow> chunk_type \<Rightarrow> migrate_info result" where
  "MigrateInfo a_to a_chunk =
     rbind (invariant (validate a_chunk = Inr ())) (\<lambda>_.
     rbind (invariant (ShardId_isValid a_to)) (\<lambda>_.
       Inr \<lparr>mi_ns = the (chunk_ns a_chunk), mi_to = a_to, mi_from = the (chunk_shard a_chunk),
         mi_minKey = the (chunk_min a_chunk), mi_maxKey = the (chunk_max a_chunk),
         mi_version = the (chunk_version a_chunk)\<rparr>))"

type_synonym moves = "migrate_info list \<times> shard_id set"

definition useShard :: "shard_id \<Rightarrow> shard_id set \<Rightarrow> shard_id set result" where
  "useShard s usedShards = rbind (invariant (s \<notin> usedShards)) (\<lambda>_. Inr (insert s usedShards))"

definition emplaceMigration :: "shard_id \<Rightarrow> shard_id \<Rightarrow> chunk_type \<Rightarrow> moves \<Rightarrow> moves result" where
  "emplaceMigration donor to chunk st =
     rbind (MigrateInfo to chunk) (\<lambda>migration.
     rbind (useShard donor (snd st)) (\<lambda>used1.
     rbind (useShard to used1) (\<lambda>used2.
       Inr (fst st @ [migration], used2))))"

subsection \<open>Choice of shards\<close>

definition isShardSuitableReceiver :: "shard_statistics \<Rightarrow> string \<Rightarrow> unit result" where
  "isShardSuitableReceiver stat chunkTag =
     (if isSizeMaxed stat then Inl (Error IllegalOperation)
      else if isDraining stat then Inl (Error IllegalOperation)
      else if chunkTag \<noteq> [] \<and> chunkTag \<notin> set (shardTags stat) then Inl (Error IllegalOperation)
      else Inr ())"

text \<open>The numbers of chunks are kept in 32 bits while the shards are compared.\<close>

fun leastLoaded ::
    "distribution_status \<Rightarrow> string \<Rightarrow> shard_id set \<Rightarrow> shard_id \<Rightarrow> 32 word \<Rightarrow> shard_statistics list \<Rightarrow> shard_id result" where
  "leastLoaded d tag excludedShards best minChunks [] = Inr best"
| "leastLoaded d tag excludedShards best minChunks (stat # stats) =
     (if ss_shardId stat \<in> excludedShards then leastLoaded d tag excludedShards best minChunks stats
      else case isShardSuitableReceiver stat tag of
        Inl _ \<Rightarrow> leastLoaded d tag excludedShards best minChunks stats
      | Inr _ \<Rightarrow>
          rbind (numberOfChunksInShard d (ss_shardId stat)) (\<lambda>n.
            let myChunks = word_of_nat n
            in if myChunks \<ge> minChunks then leastLoaded d tag excludedShards best minChunks stats
               else leastLoaded d tag excludedShards (ss_shardId stat) myChunks stats))"

definition getLeastLoadedReceiverShard ::
    "shard_statistics list \<Rightarrow> distribution_status \<Rightarrow> string \<Rightarrow> shard_id set \<Rightarrow> shard_id result" where
  "getLeastLoadedReceiverShard shardStats d tag excludedShards =
     leastLoaded d tag excludedShards [] (- 1) shardStats"

fun mostOverloaded ::
    "distribution_status \<Rightarrow> string \<Rightarrow> shard_id set \<Rightarrow> shard_id \<Rightarrow> 32 word \<Rightarrow> shard_statistics list \<Rightarrow> shard_id result" where
  "mostOverloaded d chunkTag excludedShards worst maxChunks [] = Inr worst"
| "mostOverloaded d chunkTag excludedShards worst maxChunks (stat # stats) =
     (if ss_shardId stat \<in> excludedShards then mostOverloaded d chunkTag excludedShards worst maxChunks stats
      else rbind (numberOfChunksInShardWithTag d (ss_shardId stat) chunkTag) (\<lambda>n.
        let shardChunkCount = word_of_nat n
        in if shardChunkCount \<le> maxChunks then mostOverloaded d chunkTag excludedShards worst maxChunks stats
           else mostOverloaded d chunkTag excludedShards (ss_shardId stat) shardChunkCount stats))"

definition getMostOverloadedShard ::
    "shard_statistics list \<Rightarrow> distribution_status \<Rightarrow> string \<Rightarrow> shard_id set \<Rightarrow> shard_id result" where
  "getMostOverloadedShard shardStats d chunkTag excludedShards =
     mostOverloaded d chunkTag excludedShards [] 0 shardStats"

subsection \<open>Draining shards and zone violations\<close>

fun drainShard ::
    "shard_statistics list \<Rightarrow> distribution_status \<Rightarrow> shard_id \<Rightarrow> chunk_type list \<Rightarrow> moves \<Rightarrow> moves result" where
  "drainShard shardStats d donor [] st = Inr st"
| "drainShard shardStats d donor (chunk # chunks) st =
     (if getJumbo chunk then drainShard shardStats d donor chunks st
      else rbind (getLeastLoadedReceiverShard shardStats d (getTagForChunk d chunk) (snd st)) (\<lambda>to.
        if \<not> ShardId_isValid to then drainShard shardStats d donor chunks st
        else rbind (invariant (to \<noteq> donor)) (\<lambda>_. emplaceMigration donor to chunk st)))"

fun drainShards ::
    "shard_statistics list \<Rightarrow> distribution_status \<Rightarrow> shard_statistics list \<Rightarrow> moves \<Rightarrow> moves result" where
  "drainShards shardStats d [] st = Inr st"
| "drainShards shardStats d (stat # stats) st =
     (if \<not> isDraining stat then drainShards shardStats d stats st
      else if ss_shardId stat \<in> snd st then drainShards shardStats d stats st
      else rbind (dist_getChunks d (ss_shardId stat)) (\<lambda>chunks.
           if chunks = [] then drainShards shardStats d stats st
           else rbind (drainShard shardStats d (ss_shardId stat) chunks st) (drainShards shardStats d stats)))"

fun enforceZones ::
    "shard_statistics list \<Rightarrow> distribution_status \<Rightarrow> shard_statistics \<Rightarrow> chunk_type list \<Rightarrow> moves \<Rightarrow> moves result" where
  "enforceZones shardStats d stat [] st = Inr st"
| "enforceZones shardStats d stat (chunk # chunks) st =
     (let tag = getTagForChunk d chunk
      in if tag = [] then enforceZones shardStats d stat chunks st
         else if tag \<in> set (shardTags stat) then enforceZones shardStats d stat chunks st
         else if getJumbo chunk then enforceZones shardStats d stat chunks st
         else rbind (getLeastLoadedReceiverShard shardStats d tag (snd st)) (\<lambda>to.
           if \<not> ShardId_isValid to then enforceZones shardStats d stat chunks st
           else rbind (invariant (to \<noteq> ss_shardId stat)) (\<lambda>_. emplaceMigration (ss_shardId stat) to chunk st)))"

fun enforceAllZones ::
    "shard_statistics list \<Rightarrow> distribution_status \<Rightarrow> shard_statistics list \<Rightarrow> moves \<Rightarrow> moves result" where
  "enforceAllZones shardStats d [] st = Inr st"
| "enforceAllZones shardStats d (stat # stats) st =
     (if ss_shardId stat \<in> snd st then enforceAllZones shardStats d stats st
      else rbind (dist_getChunks d (ss_shardId stat)) (\<lambda>chunks.
           rbind (enforceZones shardStats d stat chunks st) (enforceAllZones shardStats d stats)))"

subsection \<open>Evening out a zone\<close>

fun moveOneChunk :: "distribution_status \<Rightarrow> string \<Rightarrow> shard_id \<Rightarrow> chunk_type list \<Rightarrow> moves \<Rightarrow> moves option result" where
  "moveOneChunk d tag to [] st = Inr None"
| "moveOneChunk d tag to (chunk # chunks) st =
     (if getTagForChunk d chunk \<noteq> tag then moveOneChunk d tag to chunks st
      else if getJumbo chunk then moveOneChunk d tag to chunks st
      else rbind (emplaceMigration (the (chunk_shard chunk)) to chunk st) (\<lambda>st'. Inr (Some st')))"

text \<open>\<open>None\<close> stands for the result false: no migration was added.\<close>

definition singleZoneBalance ::
    "shard_statistics list \<Rightarrow> distribution_status \<Rightarrow> string \<Rightarrow> nat \<Rightarrow> nat \<Rightarrow> moves \<Rightarrow> moves option result" where
  "singleZoneBalance shardStats d tag idealNumberOfChunksPerShardForTag imbalanceThreshold st =
     rbind (getMostOverloadedShard shardStats d tag (snd st)) (\<lambda>donor.
     if \<not> ShardId_isValid donor then Inr None else
     rbind (numberOfChunksInShardWithTag d donor tag) (\<lambda>max.
     if max \<le> idealNumberOfChunksPerShardForTag then Inr None else
     rbind (getLeastLoadedReceiverShard shardStats d tag (snd st)) (\<lambda>to.
     if \<not> ShardId_isValid to then Inr None else
     rbind (numberOfChunksInShardWithTag d to tag) (\<lambda>min.
     if min \<ge> idealNumberOfChunksPerShardForTag then Inr None else
     let imbalance = max - idealNumberOfChunksPerShardForTag
     in if imbalance < imbalanceThreshold then Inr None
        else rbind (dist_getChunks d donor) (\<lambda>chunks. moveOneChunk d tag to chunks st)))))"

text \<open>Every round of the loop uses up a receiver.\<close>

lemma leastLoaded_result:
  assumes "leastLoaded d tag ex best m stats = Inr r"
  shows "r = best \<or> (\<exists>s\<in>set stats. r = ss_shardId s \<and> ss_shardId s \<notin> ex \<and> isShardSuitableReceiver s tag = Inr ())"
  using assms
  by (induction d tag ex best m stats rule: leastLoaded.induct)
    (auto simp: Let_def rbind_Inr_iff split: if_splits sum.splits)

lemma receiver_suitable:
  assumes "getLeastLoadedReceiverShard stats d tag ex = Inr r" "ShardId_isValid r"
  obtains s where "s \<in> set stats" "r = ss_shardId s" "ss_shardId s \<notin> ex" "isShardSuitableReceiver s tag = Inr ()"
  using assms leastLoaded_result [of d tag ex "[]" "- 1" stats r]
  by (auto simp: getLeastLoadedReceiverShard_def ShardId_isValid_def)

lemma emplaceMigration_Inr:
  "emplaceMigration donor to chunk st = Inr st' \<longleftrightarrow>
     validate chunk = Inr () \<and> to \<noteq> [] \<and> donor \<notin> snd st \<and> to \<notin> insert donor (snd st)
     \<and> (\<exists>m. MigrateInfo to chunk = Inr m \<and> st' = (fst st @ [m], insert to (insert donor (snd st))))"
  by (auto simp: emplaceMigration_def MigrateInfo_def useShard_def invariant_def ShardId_isValid_def rbind_Inr_iff split: if_splits)

lemma moveOneChunk_Some:
  assumes "moveOneChunk d tag to chunks st = Inr (Some st')"
  obtains chunk where "chunk \<in> set chunks" "getTagForChunk d chunk = tag" "\<not> getJumbo chunk"
    "emplaceMigration (the (chunk_shard chunk)) to chunk st = Inr st'"
  using assms
  by (induction d tag to chunks st rule: moveOneChunk.induct) (auto simp: rbind_Inr_iff split: if_splits)

lemma singleZoneBalance_Some:
  assumes "singleZoneBalance stats d tag ideal thr st = Inr (Some st')"
  obtains donor to mx mn chunks where "getMostOverloadedShard stats d tag (snd st) = Inr donor" "ShardId_isValid donor"
    "numberOfChunksInShardWithTag d donor tag = Inr mx" "ideal < mx" "thr \<le> mx - ideal"
    "getLeastLoadedReceiverShard stats d tag (snd st) = Inr to" "ShardId_isValid to"
    "numberOfChunksInShardWithTag d to tag = Inr mn" "mn < ideal"
    "dist_getChunks d donor = Inr chunks" "moveOneChunk d tag to chunks st = Inr (Some st')"
  using assms unfolding singleZoneBalance_def Let_def
  by (auto simp: rbind_Inr_iff not_le not_less split: if_splits)

lemma singleZoneBalance_uses:
  assumes "singleZoneBalance stats d tag ideal thr st = Inr (Some st')"
  shows "card (ss_shardId ` set stats - snd st') < card (ss_shardId ` set stats - snd st)"
proof -
  obtain to donor chunk where to: "getLeastLoadedReceiverShard stats d tag (snd st) = Inr to" "ShardId_isValid to"
    and "emplaceMigration donor to chunk st = Inr st'"
    using assms by (elim singleZoneBalance_Some moveOneChunk_Some)
  then have "snd st' = insert to (insert donor (snd st))"
    by (auto simp: emplaceMigration_Inr)
  moreover have "to \<in> ss_shardId ` set stats - snd st"
    using receiver_suitable [OF to] by blast
  ultimately show ?thesis
    by (intro psubset_card_mono) auto
qed

function balanceZone ::
    "shard_statistics list \<Rightarrow> distribution_status \<Rightarrow> string \<Rightarrow> nat \<Rightarrow> nat \<Rightarrow> moves \<Rightarrow> moves result" where
  "balanceZone shardStats d tag idealNumberOfChunksPerShardForTag imbalanceThreshold st =
     (case singleZoneBalance shardStats d tag idealNumberOfChunksPerShardForTag imbalanceThreshold st of
        Inl f \<Rightarrow> Inl f
      | Inr None \<Rightarrow> Inr st
      | Inr (Some st') \<Rightarrow> balanceZone shardStats d tag idealNumberOfChunksPerShardForTag imbalanceThreshold st')"
  by pat_completeness auto
termination
  by (relation "measure (\<lambda>(stats, _, _, _, _, st). card (ss_shardId ` set stats - snd st))")
    (simp_all add: singleZoneBalance_uses)

subsection \<open>The policy\<close>

definition kDefaultImbalanceThreshold :: nat where
  "kDefaultImbalanceThreshold = 2"

definition kAggressiveImbalanceThreshold :: nat where
  "kAggressiveImbalanceThreshold = 1"

definition imbalanceThreshold :: "distribution_status \<Rightarrow> bool \<Rightarrow> nat" where
  "imbalanceThreshold d shouldAggressivelyBalance =
     (if shouldAggressivelyBalance \<or> totalChunks d < 20 then kAggressiveImbalanceThreshold else kDefaultImbalanceThreshold)"

definition shardsWithTag :: "shard_statistics list \<Rightarrow> string \<Rightarrow> nat" where
  "shardsWithTag shardStats tag = length (filter (\<lambda>stat. tag = [] \<or> tag \<in> set (shardTags stat)) shardStats)"

definition chunksWithTag :: "distribution_status \<Rightarrow> string \<Rightarrow> nat result" where
  "chunksWithTag d tag = (if tag = [] then Inr (totalChunks d) else totalChunksWithTag d tag)"

definition idealChunksPerShard :: "nat \<Rightarrow> nat \<Rightarrow> nat" where
  "idealChunksPerShard chunks shards = chunks div shards + (if chunks mod shards \<noteq> 0 then 1 else 0)"

fun balanceZones ::
    "shard_statistics list \<Rightarrow> distribution_status \<Rightarrow> nat \<Rightarrow> string list \<Rightarrow> moves \<Rightarrow> moves result" where
  "balanceZones shardStats d threshold [] st = Inr st"
| "balanceZones shardStats d threshold (tag # tags) st =
     rbind (chunksWithTag d tag) (\<lambda>totalNumberOfChunksWithTag.
       let totalNumberOfShardsWithTag = shardsWithTag shardStats tag
       in if totalNumberOfShardsWithTag = 0 then balanceZones shardStats d threshold tags st
          else rbind (balanceZone shardStats d tag
                 (idealChunksPerShard totalNumberOfChunksWithTag totalNumberOfShardsWithTag) threshold st)
               (balanceZones shardStats d threshold tags))"

definition balance :: "shard_statistics list \<Rightarrow> distribution_status \<Rightarrow> bool \<Rightarrow> shard_id set \<Rightarrow> moves result" where
  "balance shardStats d shouldAggressivelyBalance usedShards =
     rbind (drainShards shardStats d shardStats ([], usedShards)) (\<lambda>st.
     rbind (if dist_tags d \<noteq> [] then enforceAllZones shardStats d shardStats st else Inr st) (\<lambda>st.
       balanceZones shardStats d (imbalanceThreshold d shouldAggressivelyBalance) (dist_tags d @ [[]]) st))"

definition balanceSingleChunk ::
    "chunk_type \<Rightarrow> shard_statistics list \<Rightarrow> distribution_status \<Rightarrow> migrate_info option result" where
  "balanceSingleChunk chunk shardStats d =
     rbind (getLeastLoadedReceiverShard shardStats d (getTagForChunk d chunk) {}) (\<lambda>newShardId.
       if \<not> ShardId_isValid newShardId \<or> newShardId = the (chunk_shard chunk) then Inr None
       else rbind (MigrateInfo newShardId chunk) (\<lambda>m. Inr (Some m)))"

declare balanceZone.simps [simp del]

subsection \<open>Proposals\<close>

text \<open>
  The statistics of a cluster: every shard has its own non-empty identifier and an entry in the
  distribution, and the chunks listed for a shard are valid chunks of that shard.
\<close>

definition cluster_ok :: "shard_statistics list \<Rightarrow> distribution_status \<Rightarrow> bool" where
  "cluster_ok stats d \<longleftrightarrow> distinct (map ss_shardId stats)
     \<and> (\<forall>s\<in>set stats. ss_shardId s \<noteq> [] \<and> (\<exists>cs. dist_getChunks d (ss_shardId s) = Inr cs))
     \<and> (\<forall>sh cs. dist_getChunks d sh = Inr cs \<longrightarrow> (\<forall>c\<in>set cs. validate c = Inr () \<and> chunk_shard c = Some sh))"

text \<open>
  The reasons to move a chunk: the donor is draining, the donor is not in the zone of the chunk, or
  the zone is uneven: the donor has at least the threshold more chunks of the zone than the even
  share, the receiver has fewer than the share.
\<close>

definition uneven :: "shard_statistics list \<Rightarrow> distribution_status \<Rightarrow> nat \<Rightarrow> string \<Rightarrow> shard_id \<Rightarrow> shard_id \<Rightarrow> bool" where
  "uneven stats d threshold tag donor to \<longleftrightarrow> (\<exists>total mx mn. chunksWithTag d tag = Inr total
     \<and> numberOfChunksInShardWithTag d donor tag = Inr mx \<and> numberOfChunksInShardWithTag d to tag = Inr mn
     \<and> idealChunksPerShard total (shardsWithTag stats tag) + threshold \<le> mx
     \<and> mn < idealChunksPerShard total (shardsWithTag stats tag))"

definition reason :: "shard_statistics list \<Rightarrow> distribution_status \<Rightarrow> nat \<Rightarrow> shard_statistics \<Rightarrow> shard_statistics \<Rightarrow> chunk_type \<Rightarrow> bool" where
  "reason stats d threshold donor to c \<longleftrightarrow> isDraining donor
     \<or> getTagForChunk d c \<noteq> [] \<and> getTagForChunk d c \<notin> set (shardTags donor)
     \<or> uneven stats d threshold (getTagForChunk d c) (ss_shardId donor) (ss_shardId to)"

definition moves_chunk :: "shard_statistics list \<Rightarrow> distribution_status \<Rightarrow> shard_statistics \<Rightarrow> shard_statistics \<Rightarrow> chunk_type \<Rightarrow> migrate_info \<Rightarrow> bool" where
  "moves_chunk stats d donor to c m \<longleftrightarrow> donor \<in> set stats \<and> to \<in> set stats
     \<and> (\<exists>cs. dist_getChunks d (ss_shardId donor) = Inr cs \<and> c \<in> set cs) \<and> \<not> getJumbo c
     \<and> isShardSuitableReceiver to (getTagForChunk d c) = Inr ()
     \<and> MigrateInfo (ss_shardId to) c = Inr m \<and> mi_from m = ss_shardId donor"

definition proposed :: "shard_statistics list \<Rightarrow> distribution_status \<Rightarrow> nat \<Rightarrow> migrate_info \<Rightarrow> bool" where
  "proposed stats d threshold m \<longleftrightarrow> (\<exists>donor to c. moves_chunk stats d donor to c m \<and> reason stats d threshold donor to c)"

definition ends :: "migrate_info list \<Rightarrow> shard_id list" where
  "ends migrations = concat (map (\<lambda>m. [mi_from m, mi_to m]) migrations)"

definition moves_ok :: "shard_statistics list \<Rightarrow> distribution_status \<Rightarrow> nat \<Rightarrow> shard_id set \<Rightarrow> moves \<Rightarrow> bool" where
  "moves_ok stats d threshold used st \<longleftrightarrow> (\<forall>m\<in>set (fst st). proposed stats d threshold m)
     \<and> distinct (ends (fst st)) \<and> set (ends (fst st)) \<inter> used = {} \<and> snd st = used \<union> set (ends (fst st))"

lemma cluster_parts:
  assumes "cluster_ok stats d"
  shows "\<And>s t. \<lbrakk>s \<in> set stats; t \<in> set stats; ss_shardId s = ss_shardId t\<rbrakk> \<Longrightarrow> s = t"
    "\<And>s. s \<in> set stats \<Longrightarrow> ss_shardId s \<noteq> []"
    "\<And>s. s \<in> set stats \<Longrightarrow> \<exists>cs. dist_getChunks d (ss_shardId s) = Inr cs"
    "\<And>sh cs c. \<lbrakk>dist_getChunks d sh = Inr cs; c \<in> set cs\<rbrakk> \<Longrightarrow> validate c = Inr () \<and> chunk_shard c = Some sh"
  using assms unfolding cluster_ok_def by (auto simp: distinct_map dest: inj_onD)

lemma emplace_ok:
  assumes "cluster_ok stats d" "moves_ok stats d thr used st" "donor \<in> set stats" "to \<in> set stats"
    "ss_shardId donor \<notin> snd st" "ss_shardId to \<notin> snd st" "donor \<noteq> to"
    "dist_getChunks d (ss_shardId donor) = Inr cs" "c \<in> set cs" "\<not> getJumbo c"
    "isShardSuitableReceiver to (getTagForChunk d c) = Inr ()" "reason stats d thr donor to c"
  shows "\<exists>st'. emplaceMigration (ss_shardId donor) (ss_shardId to) c st = Inr st' \<and> moves_ok stats d thr used st'"
proof -
  note cl = cluster_parts [OF assms(1)]
  have c: "validate c = Inr ()" "chunk_shard c = Some (ss_shardId donor)"
    using cl(4) [OF assms(8,9)] by simp_all
  then obtain m where m: "MigrateInfo (ss_shardId to) c = Inr m" "mi_from m = ss_shardId donor" "mi_to m = ss_shardId to"
    using cl(2) [OF assms(4)] by (auto simp: MigrateInfo_def invariant_def ShardId_isValid_def)
  have neq: "ss_shardId to \<noteq> ss_shardId donor"
    using cl(1) assms(3,4,7) by blast
  have "proposed stats d thr m"
    unfolding proposed_def moves_chunk_def using assms m by blast
  then have "moves_ok stats d thr used (fst st @ [m], insert (ss_shardId to) (insert (ss_shardId donor) (snd st)))"
    using assms(2,5,6) neq m(2,3) by (auto simp: moves_ok_def ends_def)
  then show ?thesis
    unfolding emplaceMigration_Inr using c(1) cl(2) [OF assms(4)] assms(5,6) neq m(1) by blast
qed

lemma leastLoaded_total:
  "\<forall>s\<in>set stats. \<exists>cs. dist_getChunks d (ss_shardId s) = Inr cs \<Longrightarrow> \<exists>r. leastLoaded d tag ex best m stats = Inr r"
  by (induction d tag ex best m stats rule: leastLoaded.induct)
    (auto simp: Let_def numberOfChunksInShard_def rbind_def split: sum.splits)

lemma mostOverloaded_total:
  "\<forall>s\<in>set stats. \<exists>cs. dist_getChunks d (ss_shardId s) = Inr cs \<Longrightarrow> \<exists>r. mostOverloaded d tag ex best m stats = Inr r"
  by (induction d tag ex best m stats rule: mostOverloaded.induct)
    (auto simp: Let_def numberOfChunksInShardWithTag_def rbind_def split: sum.splits)

lemma mostOverloaded_result:
  assumes "mostOverloaded d tag ex best m stats = Inr r"
  shows "r = best \<or> (\<exists>s\<in>set stats. r = ss_shardId s \<and> ss_shardId s \<notin> ex)"
  using assms
  by (induction d tag ex best m stats rule: mostOverloaded.induct) (auto simp: Let_def rbind_Inr_iff split: if_splits)

lemma receiver_total: "cluster_ok stats d \<Longrightarrow> \<exists>r. getLeastLoadedReceiverShard stats d tag ex = Inr r"
  unfolding getLeastLoadedReceiverShard_def by (rule leastLoaded_total) (simp add: cluster_ok_def)

lemma donor_total: "cluster_ok stats d \<Longrightarrow> \<exists>r. getMostOverloadedShard stats d tag ex = Inr r"
  unfolding getMostOverloadedShard_def by (rule mostOverloaded_total) (simp add: cluster_ok_def)

lemma donor_found:
  assumes "getMostOverloadedShard stats d tag ex = Inr r" "ShardId_isValid r"
  obtains s where "s \<in> set stats" "r = ss_shardId s" "ss_shardId s \<notin> ex"
  using assms mostOverloaded_result [of d tag ex "[]" 0 stats r]
  by (auto simp: getMostOverloadedShard_def ShardId_isValid_def)

lemma drainShard_ok:
  assumes "cluster_ok stats d" "moves_ok stats d thr used st" "donor \<in> set stats" "isDraining donor"
    "ss_shardId donor \<notin> snd st" "dist_getChunks d (ss_shardId donor) = Inr cs" "set chunks \<subseteq> set cs"
  shows "\<exists>st'. drainShard stats d (ss_shardId donor) chunks st = Inr st' \<and> moves_ok stats d thr used st'"
  using assms(7)
proof (induction chunks)
  case (Cons c chunks)
  obtain r where r: "getLeastLoadedReceiverShard stats d (getTagForChunk d c) (snd st) = Inr r"
    using receiver_total [OF assms(1)] by blast
  show ?case
  proof (cases "getJumbo c \<or> \<not> ShardId_isValid r")
    case False
    then obtain to where to: "to \<in> set stats" "r = ss_shardId to" "ss_shardId to \<notin> snd st"
      "isShardSuitableReceiver to (getTagForChunk d c) = Inr ()"
      using receiver_suitable [OF r] by blast
    then have "\<not> isDraining to"
      by (auto simp: isShardSuitableReceiver_def split: if_splits)
    then have "donor \<noteq> to" "ss_shardId to \<noteq> ss_shardId donor"
      using assms(3,4) to(1) cluster_parts(1) [OF assms(1)] by blast+
    moreover have "reason stats d thr donor to c"
      using assms(4) by (simp add: reason_def)
    ultimately show ?thesis
      using emplace_ok [OF assms(1,2,3) to(1) assms(5) to(3) _ assms(6) _ _ to(4)] Cons.prems False r to(2)
      by (simp add: invariant_def)
  qed (use Cons assms(2) r in auto)
qed (use assms(2) in simp)

lemma drainShards_ok:
  assumes "cluster_ok stats d" "moves_ok stats d thr used st" "set ss \<subseteq> set stats"
  shows "\<exists>st'. drainShards stats d ss st = Inr st' \<and> moves_ok stats d thr used st'"
  using assms(2,3)
proof (induction ss arbitrary: st)
  case (Cons s ss)
  show ?case
  proof (cases "isDraining s \<and> ss_shardId s \<notin> snd st")
    case True
    obtain cs where cs: "dist_getChunks d (ss_shardId s) = Inr cs"
      using cluster_parts(3) [OF assms(1)] Cons.prems(2) by auto
    then obtain st' where "drainShard stats d (ss_shardId s) cs st = Inr st'" "moves_ok stats d thr used st'"
      using drainShard_ok [OF assms(1) Cons.prems(1) _ _ _ cs subset_refl] Cons.prems(2) True by auto
    then show ?thesis
      using Cons True cs by simp
  qed (use Cons in auto)
qed simp

lemma enforceZones_ok:
  assumes "cluster_ok stats d" "moves_ok stats d thr used st" "donor \<in> set stats"
    "ss_shardId donor \<notin> snd st" "dist_getChunks d (ss_shardId donor) = Inr cs" "set chunks \<subseteq> set cs"
  shows "\<exists>st'. enforceZones stats d donor chunks st = Inr st' \<and> moves_ok stats d thr used st'"
  using assms(6)
proof (induction chunks)
  case (Cons c chunks)
  let ?tag = "getTagForChunk d c"
  obtain r where r: "getLeastLoadedReceiverShard stats d ?tag (snd st) = Inr r"
    using receiver_total [OF assms(1)] by blast
  show ?case
  proof (cases "?tag = [] \<or> ?tag \<in> set (shardTags donor) \<or> getJumbo c \<or> \<not> ShardId_isValid r")
    case False
    then obtain to where to: "to \<in> set stats" "r = ss_shardId to" "ss_shardId to \<notin> snd st"
      "isShardSuitableReceiver to ?tag = Inr ()"
      using receiver_suitable [OF r] by blast
    then have "?tag \<in> set (shardTags to)"
      using False by (auto simp: isShardSuitableReceiver_def split: if_splits)
    then have "donor \<noteq> to" "ss_shardId to \<noteq> ss_shardId donor"
      using assms(3) False to(1) cluster_parts(1) [OF assms(1)] by blast+
    moreover have "reason stats d thr donor to c"
      using False by (simp add: reason_def)
    ultimately show ?thesis
      using emplace_ok [OF assms(1,2,3) to(1) assms(4) to(3) _ assms(5) _ _ to(4)] Cons.prems False r to(2)
      by (simp add: invariant_def Let_def)
  qed (use Cons assms(2) r in \<open>auto simp: Let_def\<close>)
qed (use assms(2) in simp)

lemma enforceAllZones_ok:
  assumes "cluster_ok stats d" "moves_ok stats d thr used st" "set ss \<subseteq> set stats"
  shows "\<exists>st'. enforceAllZones stats d ss st = Inr st' \<and> moves_ok stats d thr used st'"
  using assms(2,3)
proof (induction ss arbitrary: st)
  case (Cons s ss)
  show ?case
  proof (cases "ss_shardId s \<in> snd st")
    case False
    obtain cs where cs: "dist_getChunks d (ss_shardId s) = Inr cs"
      using cluster_parts(3) [OF assms(1)] Cons.prems(2) by auto
    then obtain st' where "enforceZones stats d s cs st = Inr st'" "moves_ok stats d thr used st'"
      using enforceZones_ok [OF assms(1) Cons.prems(1) _ _ cs subset_refl] Cons.prems(2) False by auto
    then show ?thesis
      using Cons False cs by simp
  qed (use Cons in auto)
qed simp

lemma moveOneChunk_ok:
  assumes "cluster_ok stats d" "moves_ok stats d thr used st" "donor \<in> set stats" "to \<in> set stats" "donor \<noteq> to"
    "ss_shardId donor \<notin> snd st" "ss_shardId to \<notin> snd st" "dist_getChunks d (ss_shardId donor) = Inr cs" "set chunks \<subseteq> set cs"
    "isShardSuitableReceiver to tag = Inr ()" "uneven stats d thr tag (ss_shardId donor) (ss_shardId to)"
  shows "\<exists>r. moveOneChunk d tag (ss_shardId to) chunks st = Inr r \<and> (\<forall>st'. r = Some st' \<longrightarrow> moves_ok stats d thr used st')"
  using assms(9)
proof (induction chunks)
  case (Cons c chunks)
  show ?case
  proof (cases "getTagForChunk d c \<noteq> tag \<or> getJumbo c")
    case False
    have "chunk_shard c = Some (ss_shardId donor)"
      using cluster_parts(4) [OF assms(1,8)] Cons.prems by simp
    moreover have "reason stats d thr donor to c"
      using False assms(11) by (simp add: reason_def)
    ultimately show ?thesis
      using emplace_ok [OF assms(1-4,6,7,5,8), of c] Cons.prems False assms(10) by auto
  qed (use Cons in auto)
qed simp

lemma numberWithTag_total:
  assumes "cluster_ok stats d" "s \<in> set stats"
  shows "\<exists>n. numberOfChunksInShardWithTag d (ss_shardId s) tag = Inr n"
  using cluster_parts(3) [OF assms] by (auto simp: numberOfChunksInShardWithTag_def)

lemma singleZoneBalance_ok:
  assumes "cluster_ok stats d" "moves_ok stats d thr used st" "chunksWithTag d tag = Inr tot"
    "ideal = idealChunksPerShard tot (shardsWithTag stats tag)"
  shows "\<exists>r. singleZoneBalance stats d tag ideal thr st = Inr r \<and> (\<forall>st'. r = Some st' \<longrightarrow> moves_ok stats d thr used st')"
proof -
  obtain x y where x: "getMostOverloadedShard stats d tag (snd st) = Inr x" and y: "getLeastLoadedReceiverShard stats d tag (snd st) = Inr y"
    using donor_total [OF assms(1)] receiver_total [OF assms(1)] by blast
  show ?thesis
  proof (cases "ShardId_isValid x \<and> ShardId_isValid y")
    case True
    then obtain donor to where donor: "donor \<in> set stats" "x = ss_shardId donor" "ss_shardId donor \<notin> snd st"
      and to: "to \<in> set stats" "y = ss_shardId to" "ss_shardId to \<notin> snd st" "isShardSuitableReceiver to tag = Inr ()"
      using donor_found [OF x] receiver_suitable [OF y] by metis
    obtain mx mn cs where n: "numberOfChunksInShardWithTag d x tag = Inr mx" "numberOfChunksInShardWithTag d y tag = Inr mn"
      "dist_getChunks d x = Inr cs"
      using numberWithTag_total [OF assms(1) donor(1)] numberWithTag_total [OF assms(1) to(1)] cluster_parts(3) [OF assms(1) donor(1)]
      unfolding donor(2) to(2) by blast
    show ?thesis
    proof (cases "ideal < mx \<and> mn < ideal \<and> thr \<le> mx - ideal")
      case far: True
      then have "donor \<noteq> to" "uneven stats d thr tag (ss_shardId donor) (ss_shardId to)"
        using n assms(3,4) unfolding uneven_def donor(2) to(2) by auto
      then show ?thesis
        using moveOneChunk_ok [OF assms(1,2) donor(1) to(1) _ donor(3) to(3) _ subset_refl to(4)] far n x y True
        unfolding donor(2) to(2) by (simp add: singleZoneBalance_def Let_def)
    qed (use n x y True in \<open>auto simp: singleZoneBalance_def Let_def\<close>)
  next
    case False
    have "\<exists>n. numberOfChunksInShardWithTag d x tag = Inr n" if "ShardId_isValid x"
      using donor_found [OF x that] numberWithTag_total [OF assms(1)] by metis
    then show ?thesis
      using False x y by (auto simp: singleZoneBalance_def Let_def)
  qed
qed

lemma balanceZone_ok:
  assumes "cluster_ok stats d" "moves_ok stats d thr used st" "chunksWithTag d tag = Inr tot"
    "ideal = idealChunksPerShard tot (shardsWithTag stats tag)"
  shows "\<exists>st'. balanceZone stats d tag ideal thr st = Inr st' \<and> moves_ok stats d thr used st'"
  using assms
proof (induction stats d tag ideal thr st rule: balanceZone.induct)
  case (1 stats d tag ideal thr st)
  obtain r where r: "singleZoneBalance stats d tag ideal thr st = Inr r" "\<forall>st'. r = Some st' \<longrightarrow> moves_ok stats d thr used st'"
    using singleZoneBalance_ok [OF 1(2-5)] by blast
  show ?case
  proof (cases r)
    case None
    then show ?thesis
      using r 1(3) by (simp add: balanceZone.simps)
  next
    case (Some st')
    then show ?thesis
      using r 1 by (simp add: balanceZone.simps [of _ _ _ _ _ st])
  qed
qed

lemma sumChunksWithTag_total: "set es \<subseteq> set (shardChunks d) \<Longrightarrow> \<exists>n. sumChunksWithTag d tag es = Inr n"
proof (induction es)
  case (Cons e es)
  then have "map_of (shardChunks d) (fst e) \<noteq> None"
    by (auto simp: map_of_eq_None_iff intro!: image_eqI)
  then show ?case
    using Cons by (auto simp: numberOfChunksInShardWithTag_def dist_getChunks_def)
qed simp

lemma chunksWithTag_total: "\<exists>n. chunksWithTag d tag = Inr n"
  using sumChunksWithTag_total [of "shardChunks d" d] by (simp add: chunksWithTag_def totalChunksWithTag_def)

lemma balanceZones_ok:
  assumes "cluster_ok stats d" "moves_ok stats d thr used st"
  shows "\<exists>st'. balanceZones stats d thr tags st = Inr st' \<and> moves_ok stats d thr used st'"
  using assms(2)
proof (induction tags arbitrary: st)
  case (Cons tag tags)
  obtain n where n: "chunksWithTag d tag = Inr n"
    using chunksWithTag_total by blast
  then obtain st' where "balanceZone stats d tag (idealChunksPerShard n (shardsWithTag stats tag)) thr st = Inr st'"
    "moves_ok stats d thr used st'"
    using balanceZone_ok [OF assms(1) Cons.prems n refl] by blast
  then show ?case
    using Cons n by (simp add: Let_def)
qed simp

lemma balance_ok:
  assumes "cluster_ok stats d"
  shows "\<exists>st. balance stats d aggressive used = Inr st \<and> moves_ok stats d (imbalanceThreshold d aggressive) used st"
proof -
  let ?thr = "imbalanceThreshold d aggressive"
  have "moves_ok stats d ?thr used ([], used)"
    by (simp add: moves_ok_def ends_def)
  then obtain st1 where 1: "drainShards stats d stats ([], used) = Inr st1" "moves_ok stats d ?thr used st1"
    using drainShards_ok [OF assms _ subset_refl] by blast
  obtain st2 where 2: "(if dist_tags d \<noteq> [] then enforceAllZones stats d stats st1 else Inr st1) = Inr st2" "moves_ok stats d ?thr used st2"
    using enforceAllZones_ok [OF assms 1(2) subset_refl] 1(2) by (cases "dist_tags d = []") auto
  obtain st3 where "balanceZones stats d ?thr (dist_tags d @ [[]]) st2 = Inr st3" "moves_ok stats d ?thr used st3"
    using balanceZones_ok [OF assms 2(2)] by blast
  then show ?thesis
    using 1(1) 2(1) by (simp add: balance_def)
qed

text \<open>
  C10: on the statistics of a cluster the balancer returns, no internal check fails, and what it proposes
  is sound. The migrations can run in parallel: no shard takes part in two of them, none takes part
  that was used before, and exactly the shards that take part are marked as used. Each migration
  moves a chunk that is not jumbo from its shard to another shard of the cluster that is not full,
  not draining and in the zone of the chunk, and it has a reason: the donor is draining, or outside
  the zone of the chunk, or the zone is uneven and the migration does not overshoot the even share.
\<close>

theorem balance_sound:
  assumes "cluster_ok stats d"
  shows "\<exists>migrations used'. balance stats d aggressive used = Inr (migrations, used')
    \<and> distinct (ends migrations) \<and> set (ends migrations) \<inter> used = {} \<and> used' = used \<union> set (ends migrations)
    \<and> (\<forall>m\<in>set migrations. proposed stats d (imbalanceThreshold d aggressive) m)"
  using balance_ok [OF assms, of aggressive used] by (auto simp: moves_ok_def)

subsection \<open>When nothing is proposed\<close>

definition chunkCount :: "distribution_status \<Rightarrow> shard_statistics \<Rightarrow> nat" where
  "chunkCount d s = (case dist_getChunks d (ss_shardId s) of Inr cs \<Rightarrow> length cs | _ \<Rightarrow> 0)"

definition tagCount :: "distribution_status \<Rightarrow> string \<Rightarrow> shard_statistics \<Rightarrow> nat" where
  "tagCount d tag s = (case numberOfChunksInShardWithTag d (ss_shardId s) tag of Inr n \<Rightarrow> n | _ \<Rightarrow> 0)"

definition small_cluster :: "shard_statistics list \<Rightarrow> distribution_status \<Rightarrow> bool" where
  "small_cluster stats d \<longleftrightarrow> (\<forall>s\<in>set stats. chunkCount d s < 2 ^ 32 - 1)"

definition suitable :: "shard_statistics list \<Rightarrow> string \<Rightarrow> shard_id set \<Rightarrow> shard_statistics \<Rightarrow> bool" where
  "suitable stats tag ex s \<longleftrightarrow> s \<in> set stats \<and> ss_shardId s \<notin> ex \<and> isShardSuitableReceiver s tag = Inr ()"

lemma chunkCount_number: "dist_getChunks d (ss_shardId s) = Inr cs \<Longrightarrow> numberOfChunksInShard d (ss_shardId s) = Inr (chunkCount d s)"
  by (simp add: chunkCount_def numberOfChunksInShard_def)

text \<open>
  Both choices of a shard are loops that keep the first best candidate. \<open>best_by lt w C b m r\<close> says what
  such a loop returns that starts with \<open>b\<close> of weight \<open>m\<close>: a candidate of strictly better weight than
  \<open>m\<close> that no candidate beats, or \<open>b\<close> when there is none.
\<close>

definition best_by :: "('w \<Rightarrow> 'w \<Rightarrow> bool) \<Rightarrow> (shard_statistics \<Rightarrow> 'w) \<Rightarrow> (shard_statistics \<Rightarrow> bool) \<Rightarrow> shard_id \<Rightarrow> 'w \<Rightarrow> shard_id \<Rightarrow> bool" where
  "best_by lt w C b m r \<longleftrightarrow> r = b \<and> (\<forall>s. C s \<longrightarrow> \<not> lt (w s) m)
     \<or> (\<exists>s. C s \<and> r = ss_shardId s \<and> lt (w s) m \<and> (\<forall>t. C t \<longrightarrow> \<not> lt (w t) (w s)))"

lemma best_by_keep:
  assumes "best_by lt w C b m r" "transp lt" "\<not> lt (w a) m"
  shows "best_by lt w (\<lambda>s. s = a \<or> C s) b m r"
  using assms(1) unfolding best_by_def
proof
  assume "r = b \<and> (\<forall>s. C s \<longrightarrow> \<not> lt (w s) m)"
  then show "r = b \<and> (\<forall>s. s = a \<or> C s \<longrightarrow> \<not> lt (w s) m)
      \<or> (\<exists>s. (s = a \<or> C s) \<and> r = ss_shardId s \<and> lt (w s) m \<and> (\<forall>t. t = a \<or> C t \<longrightarrow> \<not> lt (w t) (w s)))"
    using assms(3) by blast
next
  assume "\<exists>s. C s \<and> r = ss_shardId s \<and> lt (w s) m \<and> (\<forall>t. C t \<longrightarrow> \<not> lt (w t) (w s))"
  then obtain s where s: "C s" "r = ss_shardId s" "lt (w s) m" "\<forall>t. C t \<longrightarrow> \<not> lt (w t) (w s)"
    by blast
  moreover from s(3) have "\<not> lt (w a) (w s)"
    using assms(2,3) by (meson transpE)
  ultimately show "r = b \<and> (\<forall>s. s = a \<or> C s \<longrightarrow> \<not> lt (w s) m)
      \<or> (\<exists>s. (s = a \<or> C s) \<and> r = ss_shardId s \<and> lt (w s) m \<and> (\<forall>t. t = a \<or> C t \<longrightarrow> \<not> lt (w t) (w s)))"
    by blast
qed

lemma best_by_take:
  assumes "best_by lt w C (ss_shardId a) (w a) r" "transp lt" "irreflp lt" "lt (w a) m"
  shows "best_by lt w (\<lambda>s. s = a \<or> C s) b m r"
proof -
  obtain s where s: "s = a \<or> C s" "r = ss_shardId s" "s = a \<or> lt (w s) (w a)" "\<forall>t. C t \<longrightarrow> \<not> lt (w t) (w s)"
    using assms(1) unfolding best_by_def by blast
  have "lt (w s) m" "\<not> lt (w a) (w s)"
    using s(3) assms(2-4) by (meson transpE irreflpD)+
  then show ?thesis
    using s unfolding best_by_def by blast
qed

lemma best_by_cong: "\<lbrakk>best_by lt w C b m r; \<And>s. C' s \<longleftrightarrow> C s\<rbrakk> \<Longrightarrow> best_by lt w C' b m r"
  by (simp add: best_by_def)

lemma suitable_Cons:
  "suitable (a # stats) tag ex s \<longleftrightarrow> s = a \<and> ss_shardId a \<notin> ex \<and> isShardSuitableReceiver a tag = Inr () \<or> suitable stats tag ex s"
  by (auto simp: suitable_def)

lemma leastLoaded_least:
  assumes "leastLoaded d tag ex best m stats = Inr r" "\<forall>s\<in>set stats. \<exists>cs. dist_getChunks d (ss_shardId s) = Inr cs"
  shows "best_by (<) (\<lambda>s. word_of_nat (chunkCount d s)) (suitable stats tag ex) best m r"
  using assms
proof (induction stats arbitrary: best m)
  case (Cons a stats)
  obtain cs where "dist_getChunks d (ss_shardId a) = Inr cs"
    using Cons.prems(2) by auto
  note n = chunkCount_number [OF this]
  have rest: "\<forall>s\<in>set stats. \<exists>cs. dist_getChunks d (ss_shardId s) = Inr cs"
    using Cons.prems(2) by simp
  show ?case
  proof (cases "ss_shardId a \<in> ex \<or> isShardSuitableReceiver a tag \<noteq> Inr ()")
    case True
    then have "leastLoaded d tag ex best m stats = Inr r"
      using Cons.prems(1) by (cases "isShardSuitableReceiver a tag") (auto split: if_splits)
    from Cons.IH [OF this rest] show ?thesis
      by (rule best_by_cong) (use True in \<open>auto simp: suitable_Cons\<close>)
  next
    case False
    have "best_by (<) (\<lambda>s. word_of_nat (chunkCount d s)) (\<lambda>s. s = a \<or> suitable stats tag ex s) best m r"
    proof (cases "m \<le> word_of_nat (chunkCount d a)")
      case True
      then show ?thesis
        using Cons.IH [OF _ rest] Cons.prems(1) False n by (intro best_by_keep) (simp_all add: Let_def)
    next
      case less: False
      then show ?thesis
        using Cons.IH [OF _ rest] Cons.prems(1) False n by (intro best_by_take) (simp_all add: Let_def)
    qed
    then show ?thesis
      by (rule best_by_cong) (use False in \<open>auto simp: suitable_Cons\<close>)
  qed
qed (simp add: best_by_def suitable_def)

lemma tagCount_number:
  "dist_getChunks d (ss_shardId s) = Inr cs \<Longrightarrow> numberOfChunksInShardWithTag d (ss_shardId s) tag = Inr (tagCount d tag s)"
  by (simp add: tagCount_def numberOfChunksInShardWithTag_def)

lemma mostOverloaded_most:
  assumes "mostOverloaded d tag ex worst m stats = Inr r" "\<forall>s\<in>set stats. \<exists>cs. dist_getChunks d (ss_shardId s) = Inr cs"
  shows "best_by (>) (\<lambda>s. word_of_nat (tagCount d tag s)) (\<lambda>s. s \<in> set stats \<and> ss_shardId s \<notin> ex) worst m r"
  using assms
proof (induction stats arbitrary: worst m)
  case (Cons a stats)
  obtain cs where "dist_getChunks d (ss_shardId a) = Inr cs"
    using Cons.prems(2) by auto
  note n = tagCount_number [OF this, of tag]
  have rest: "\<forall>s\<in>set stats. \<exists>cs. dist_getChunks d (ss_shardId s) = Inr cs"
    using Cons.prems(2) by simp
  show ?case
  proof (cases "ss_shardId a \<in> ex")
    case True
    then have "mostOverloaded d tag ex worst m stats = Inr r"
      using Cons.prems(1) by simp
    from Cons.IH [OF this rest] show ?thesis
      by (rule best_by_cong) (use True in auto)
  next
    case False
    have "best_by (>) (\<lambda>s. word_of_nat (tagCount d tag s)) (\<lambda>s. s = a \<or> s \<in> set stats \<and> ss_shardId s \<notin> ex) worst m r"
    proof (cases "word_of_nat (tagCount d tag a) \<le> m")
      case True
      then show ?thesis
        using Cons.IH [OF _ rest] Cons.prems(1) False n by (intro best_by_keep) (simp_all add: Let_def)
    next
      case less: False
      then show ?thesis
        using Cons.IH [OF _ rest] Cons.prems(1) False n by (intro best_by_take) (simp_all add: Let_def)
    qed
    then show ?thesis
      by (rule best_by_cong) (use False in auto)
  qed
qed (simp add: best_by_def)

lemma count_word_less:
  assumes "m < 2 ^ 32" "n < 2 ^ 32"
  shows "(word_of_nat m :: 32 word) < word_of_nat n \<longleftrightarrow> m < n"
  using assms by (simp add: word_less_nat_alt unat_of_nat take_bit_nat_eq_self)

lemma count_word_max: "m < 2 ^ 32 - 1 \<Longrightarrow> (word_of_nat m :: 32 word) < - 1"
proof -
  have "(- 1 :: 32 word) = word_of_nat (2 ^ 32 - 1)"
    by (simp add: word_eq_iff_unsigned unsigned_minus_1_eq_mask mask_eq_exp_minus_1)
  then show "m < 2 ^ 32 - 1 \<Longrightarrow> (word_of_nat m :: 32 word) < - 1"
    by (simp only: count_word_less [of m "2 ^ 32 - 1"])
qed

lemma tagCount_le:
  assumes "cluster_ok stats d" "s \<in> set stats"
  shows "tagCount d tag s \<le> chunkCount d s"
proof -
  obtain cs where "dist_getChunks d (ss_shardId s) = Inr cs"
    using cluster_parts(3) [OF assms] by blast
  then show ?thesis
    by (simp add: tagCount_def chunkCount_def numberOfChunksInShardWithTag_def)
qed

lemma small_clusterD: "\<lbrakk>small_cluster stats d; s \<in> set stats\<rbrakk> \<Longrightarrow> chunkCount d s < 2 ^ 32 - 1"
  by (auto simp: small_cluster_def)

lemma receiver_best:
  assumes "cluster_ok stats d" "getLeastLoadedReceiverShard stats d tag ex = Inr r"
  shows "best_by (<) (\<lambda>s. word_of_nat (chunkCount d s) :: 32 word) (suitable stats tag ex) [] (- 1) r"
  using leastLoaded_least [of d tag ex "[]" "- 1" stats r] cluster_parts(3) [OF assms(1)] assms(2)
  by (simp add: getLeastLoadedReceiverShard_def)

text \<open>The receiver is missing only if no shard can receive, and is the shard with the fewest chunks.\<close>

lemma receiver_none:
  assumes "cluster_ok stats d" "small_cluster stats d" "getLeastLoadedReceiverShard stats d tag ex = Inr r" "\<not> ShardId_isValid r"
  shows "\<not> suitable stats tag ex s"
proof
  assume s: "suitable stats tag ex s"
  then have "chunkCount d s < 2 ^ 32 - 1"
    using small_clusterD [OF assms(2)] by (simp add: suitable_def)
  then have "(word_of_nat (chunkCount d s) :: 32 word) < - 1"
    by (rule count_word_max)
  then obtain t where "suitable stats tag ex t" "r = ss_shardId t"
    using receiver_best [OF assms(1,3)] s unfolding best_by_def by blast
  then show False
    using cluster_parts(2) [OF assms(1)] assms(4) by (auto simp: suitable_def ShardId_isValid_def)
qed

lemma receiver_least:
  assumes "cluster_ok stats d" "small_cluster stats d" "getLeastLoadedReceiverShard stats d tag ex = Inr r"
    "suitable stats tag ex s" "\<forall>t. suitable stats tag ex t \<longrightarrow> t \<noteq> s \<longrightarrow> chunkCount d s < chunkCount d t"
  shows "r = ss_shardId s"
proof -
  have small: "chunkCount d t < 2 ^ 32 - 1" if "suitable stats tag ex t" for t
    using small_clusterD [OF assms(2)] that by (simp add: suitable_def)
  obtain t where t: "suitable stats tag ex t" "r = ss_shardId t"
    "\<not> (word_of_nat (chunkCount d s) :: 32 word) < word_of_nat (chunkCount d t)"
    using receiver_best [OF assms(1,3)] assms(4) count_word_max [OF small [OF assms(4)]] unfolding best_by_def by blast
  then have "t = s"
    using assms(5) count_word_less [of "chunkCount d s" "chunkCount d t"] small [OF t(1)] small [OF assms(4)] by fastforce
  then show ?thesis
    using t(2) by simp
qed

lemma donor_most:
  assumes "cluster_ok stats d" "small_cluster stats d" "getMostOverloadedShard stats d tag {} = Inr r" "s \<in> set stats"
    "0 < tagCount d tag s" "\<forall>t\<in>set stats. t \<noteq> s \<longrightarrow> tagCount d tag t < tagCount d tag s"
  shows "r = ss_shardId s"
proof -
  have small: "tagCount d tag t < 2 ^ 32" if "t \<in> set stats" for t
    using small_clusterD [OF assms(2) that] tagCount_le [OF assms(1) that, of tag] by simp
  have best: "best_by (>) (\<lambda>s. word_of_nat (tagCount d tag s) :: 32 word) (\<lambda>s. s \<in> set stats \<and> ss_shardId s \<notin> {}) [] 0 r"
    using mostOverloaded_most [of d tag "{}" "[]" 0 stats r] cluster_parts(3) [OF assms(1)] assms(3)
    by (simp add: getMostOverloadedShard_def)
  have "(0 :: 32 word) < word_of_nat (tagCount d tag s)"
    using count_word_less [of 0 "tagCount d tag s"] small [OF assms(4)] assms(5) by simp
  then obtain t where t: "t \<in> set stats" "r = ss_shardId t"
    "\<not> (word_of_nat (tagCount d tag t) :: 32 word) < word_of_nat (tagCount d tag s)"
    using best assms(4) unfolding best_by_def by blast
  then have "t = s"
    using assms(6) count_word_less [of "tagCount d tag t" "tagCount d tag s"] small [OF t(1)] small [OF assms(4)] by fastforce
  then show ?thesis
    using t(2) by simp
qed

text \<open>Each phase leaves the moves as they are, or adds one.\<close>

definition no_receiver :: "shard_statistics list \<Rightarrow> distribution_status \<Rightarrow> string \<Rightarrow> shard_id set \<Rightarrow> bool" where
  "no_receiver stats d tag ex \<longleftrightarrow> (\<exists>r. getLeastLoadedReceiverShard stats d tag ex = Inr r \<and> \<not> ShardId_isValid r)"

lemma emplace_adds: "emplaceMigration donor to c st = Inr st' \<Longrightarrow> length (fst st) < length (fst st')"
  by (auto simp: emplaceMigration_Inr)

lemma drainShard_idle:
  "drainShard stats d donor chunks st = Inr st' \<Longrightarrow>
     st' = st \<and> (\<forall>c\<in>set chunks. getJumbo c \<or> no_receiver stats d (getTagForChunk d c) (snd st))
     \<or> length (fst st) < length (fst st')"
  by (induction chunks) (auto simp: rbind_Inr_iff no_receiver_def dest!: emplace_adds split: if_splits)

lemma drainShards_idle:
  "drainShards stats d ss st = Inr st' \<Longrightarrow>
     st' = st \<and> (\<forall>s\<in>set ss. isDraining s \<longrightarrow> ss_shardId s \<notin> snd st \<longrightarrow> (\<forall>cs. dist_getChunks d (ss_shardId s) = Inr cs \<longrightarrow>
       (\<forall>c\<in>set cs. getJumbo c \<or> no_receiver stats d (getTagForChunk d c) (snd st))))
     \<or> length (fst st) < length (fst st')"
proof (induction ss arbitrary: st)
  case (Cons s ss)
  show ?case
  proof (cases "isDraining s \<and> ss_shardId s \<notin> snd st \<and> dist_getChunks d (ss_shardId s) \<noteq> Inr []")
    case True
    then obtain cs st1 where cs: "dist_getChunks d (ss_shardId s) = Inr cs" "drainShard stats d (ss_shardId s) cs st = Inr st1"
      "drainShards stats d ss st1 = Inr st'"
      using Cons.prems by (auto simp: rbind_Inr_iff split: if_splits)
    show ?thesis
      using drainShard_idle [OF cs(2)] Cons.IH [OF cs(3)] cs(1) by fastforce
  next
    case False
    then have "drainShards stats d ss st = Inr st'"
      using Cons.prems by (auto simp: rbind_Inr_iff split: if_splits)
    then show ?thesis
      using Cons.IH [of st] False by fastforce
  qed
qed simp

lemma enforceZones_idle:
  "enforceZones stats d donor chunks st = Inr st' \<Longrightarrow>
     st' = st \<and> (\<forall>c\<in>set chunks. getTagForChunk d c = [] \<or> getTagForChunk d c \<in> set (shardTags donor) \<or> getJumbo c
       \<or> no_receiver stats d (getTagForChunk d c) (snd st))
     \<or> length (fst st) < length (fst st')"
  by (induction chunks) (auto simp: rbind_Inr_iff no_receiver_def Let_def dest!: emplace_adds split: if_splits)

lemma enforceAllZones_idle:
  "enforceAllZones stats d ss st = Inr st' \<Longrightarrow>
     st' = st \<and> (\<forall>s\<in>set ss. ss_shardId s \<notin> snd st \<longrightarrow> (\<forall>cs. dist_getChunks d (ss_shardId s) = Inr cs \<longrightarrow>
       (\<forall>c\<in>set cs. getTagForChunk d c = [] \<or> getTagForChunk d c \<in> set (shardTags s) \<or> getJumbo c
         \<or> no_receiver stats d (getTagForChunk d c) (snd st))))
     \<or> length (fst st) < length (fst st')"
proof (induction ss arbitrary: st)
  case (Cons s ss)
  show ?case
  proof (cases "ss_shardId s \<in> snd st")
    case False
    then obtain cs st1 where cs: "dist_getChunks d (ss_shardId s) = Inr cs" "enforceZones stats d s cs st = Inr st1"
      "enforceAllZones stats d ss st1 = Inr st'"
      using Cons.prems by (auto simp: rbind_Inr_iff)
    show ?thesis
      using enforceZones_idle [OF cs(2)] Cons.IH [OF cs(3)] cs(1) by fastforce
  qed (use Cons in auto)
qed simp

lemma moveOneChunk_adds: "moveOneChunk d tag to chunks st = Inr (Some st') \<Longrightarrow> length (fst st) < length (fst st')"
  by (elim moveOneChunk_Some emplace_adds)

lemma singleZoneBalance_adds: "singleZoneBalance stats d tag ideal thr st = Inr (Some st') \<Longrightarrow> length (fst st) < length (fst st')"
  by (elim singleZoneBalance_Some moveOneChunk_adds)

lemma balanceZone_idle:
  "balanceZone stats d tag ideal thr st = Inr st' \<Longrightarrow>
     st' = st \<and> singleZoneBalance stats d tag ideal thr st = Inr None \<or> length (fst st) < length (fst st')"
proof (induction stats d tag ideal thr st rule: balanceZone.induct)
  case (1 stats d tag ideal thr st)
  then obtain r where r: "singleZoneBalance stats d tag ideal thr st = Inr r"
    by (auto simp: balanceZone.simps [of _ _ _ _ _ st] split: sum.splits)
  show ?case
  proof (cases r)
    case (Some st1)
    then have "balanceZone stats d tag ideal thr st1 = Inr st'"
      using 1(2) r by (simp add: balanceZone.simps [of _ _ _ _ _ st])
    then show ?thesis
      using 1(1) [OF r Some] singleZoneBalance_adds [of stats d tag ideal thr st st1] r Some by auto
  qed (use 1(2) r in \<open>simp add: balanceZone.simps [of _ _ _ _ _ st]\<close>)
qed

lemma balanceZones_idle:
  "balanceZones stats d thr tags st = Inr st' \<Longrightarrow>
     st' = st \<and> (\<forall>tag\<in>set tags. \<forall>n. shardsWithTag stats tag \<noteq> 0 \<longrightarrow> chunksWithTag d tag = Inr n \<longrightarrow>
       singleZoneBalance stats d tag (idealChunksPerShard n (shardsWithTag stats tag)) thr st = Inr None)
     \<or> length (fst st) < length (fst st')"
proof (induction tags arbitrary: st)
  case (Cons tag tags)
  then obtain n where n: "chunksWithTag d tag = Inr n"
    by (auto simp: rbind_Inr_iff)
  show ?case
  proof (cases "shardsWithTag stats tag = 0")
    case False
    then obtain st1 where st1: "balanceZone stats d tag (idealChunksPerShard n (shardsWithTag stats tag)) thr st = Inr st1"
      "balanceZones stats d thr tags st1 = Inr st'"
      using Cons.prems n by (auto simp: rbind_Inr_iff)
    show ?thesis
      using balanceZone_idle [OF st1(1)] Cons.IH [OF st1(2)] n by fastforce
  qed (use Cons n in auto)
qed simp

definition movable :: "distribution_status \<Rightarrow> shard_statistics \<Rightarrow> chunk_type \<Rightarrow> bool" where
  "movable d s c \<longleftrightarrow> (\<exists>cs. dist_getChunks d (ss_shardId s) = Inr cs \<and> c \<in> set cs) \<and> \<not> getJumbo c"

definition misplaced :: "distribution_status \<Rightarrow> shard_statistics \<Rightarrow> chunk_type \<Rightarrow> bool" where
  "misplaced d s c \<longleftrightarrow> isDraining s
     \<or> dist_tags d \<noteq> [] \<and> getTagForChunk d c \<noteq> [] \<and> getTagForChunk d c \<notin> set (shardTags s)"

definition most_loaded :: "shard_statistics list \<Rightarrow> distribution_status \<Rightarrow> string \<Rightarrow> shard_statistics \<Rightarrow> bool" where
  "most_loaded stats d tag s \<longleftrightarrow> s \<in> set stats \<and> (\<forall>t\<in>set stats. t \<noteq> s \<longrightarrow> tagCount d tag t < tagCount d tag s)"

definition fewest_chunks :: "shard_statistics list \<Rightarrow> distribution_status \<Rightarrow> string \<Rightarrow> shard_statistics \<Rightarrow> bool" where
  "fewest_chunks stats d tag s \<longleftrightarrow> suitable stats tag {} s
     \<and> (\<forall>t. suitable stats tag {} t \<longrightarrow> t \<noteq> s \<longrightarrow> chunkCount d s < chunkCount d t)"

lemma moveOneChunk_None:
  "\<lbrakk>moveOneChunk d tag to chunks st = Inr None; c \<in> set chunks; getTagForChunk d c = tag\<rbrakk> \<Longrightarrow> getJumbo c"
  by (induction chunks) (auto simp: rbind_Inr_iff split: if_splits)

lemma zone_idle:
  assumes "cluster_ok stats d" "small_cluster stats d" "singleZoneBalance stats d tag ideal thr ([], {}) = Inr None" "0 < thr"
    "most_loaded stats d tag donor" "movable d donor c" "getTagForChunk d c = tag" "ideal + thr \<le> tagCount d tag donor"
    "fewest_chunks stats d tag to"
  shows "ideal \<le> tagCount d tag to"
proof (rule ccontr)
  assume less: "\<not> ideal \<le> tagCount d tag to"
  note cl = cluster_parts [OF assms(1)]
  have in_stats: "donor \<in> set stats" "to \<in> set stats"
    using assms(5,9) by (auto simp: most_loaded_def fewest_chunks_def suitable_def)
  obtain x y where x: "getMostOverloadedShard stats d tag {} = Inr x" and y: "getLeastLoadedReceiverShard stats d tag {} = Inr y"
    using donor_total [OF assms(1)] receiver_total [OF assms(1)] by blast
  have "x = ss_shardId donor" "y = ss_shardId to"
    using donor_most [OF assms(1,2) x in_stats(1)] receiver_least [OF assms(1,2) y] assms(4,5,8,9)
    by (auto simp: most_loaded_def fewest_chunks_def)
  moreover have "ShardId_isValid (ss_shardId donor)" "ShardId_isValid (ss_shardId to)"
    using cl(2) in_stats by (auto simp: ShardId_isValid_def)
  moreover obtain cs where cs: "dist_getChunks d (ss_shardId donor) = Inr cs" "c \<in> set cs" "\<not> getJumbo c"
    using assms(6) by (auto simp: movable_def)
  moreover have "numberOfChunksInShardWithTag d (ss_shardId to) tag = Inr (tagCount d tag to)"
    using cl(3) [OF in_stats(2)] tagCount_number by blast
  ultimately have "moveOneChunk d tag (ss_shardId to) cs ([], {}) = Inr None"
    using assms(3,4,8) x y less tagCount_number [OF cs(1), of tag]
    by (auto simp: singleZoneBalance_def Let_def split: if_splits)
  then show False
    using moveOneChunk_None [OF _ cs(2) assms(7)] cs(3) by blast
qed

lemma imbalanceThreshold_pos: "0 < imbalanceThreshold d aggressive"
  by (simp add: imbalanceThreshold_def kAggressiveImbalanceThreshold_def kDefaultImbalanceThreshold_def)


subsection \<open>Sample clusters\<close>

definition sample_stat :: "shard_id \<Rightarrow> string list \<Rightarrow> bool \<Rightarrow> shard_statistics" where
  "sample_stat sh tags draining = \<lparr>ss_shardId = sh, maxSizeMB = 0, currSizeMB = 0, isDraining = draining,
     shardTags = tags, mongoVersion = ''3.6.18''\<rparr>"

definition sample_chunk_on :: "shard_id \<Rightarrow> 32 word \<Rightarrow> chunk_type" where
  "sample_chunk_on sh n = ChunkType ''d.c'' \<lparr>minKey = int_key n, maxKey = int_key (n + 1)\<rparr> (ChunkVersion 1 0 7) sh"

definition sample_dist :: "(shard_id \<times> 32 word list) list \<Rightarrow> distribution_status" where
  "sample_dist m = DistributionStatus ''d.c'' (map (\<lambda>(sh, ns). (sh, map (sample_chunk_on sh) ns)) m)"

lemma cluster_okI:
  assumes "distinct (map ss_shardId stats)" "\<forall>s\<in>set stats. ss_shardId s \<noteq> [] \<and> ss_shardId s \<in> fst ` set (shardChunks d)"
    "\<forall>e\<in>set (shardChunks d). \<forall>c\<in>set (snd e). validate c = Inr () \<and> chunk_shard c = Some (fst e)"
  shows "cluster_ok stats d"
proof -
  have "(\<exists>cs. dist_getChunks d sh = Inr cs) \<longleftrightarrow> sh \<in> fst ` set (shardChunks d)" for sh
    using map_of_eq_None_iff [of "shardChunks d" sh] by (auto simp: dist_getChunks_def split: option.splits)
  then have "\<forall>s\<in>set stats. ss_shardId s \<noteq> [] \<and> (\<exists>cs. dist_getChunks d (ss_shardId s) = Inr cs)"
    using assms(2) by blast
  moreover have listed: "dist_getChunks d sh = Inr cs \<Longrightarrow> (sh, cs) \<in> set (shardChunks d)" for sh cs
    by (auto simp: dist_getChunks_def dest: map_of_SomeD split: option.splits)
  have "validate c = Inr () \<and> chunk_shard c = Some sh" if "dist_getChunks d sh = Inr cs" "c \<in> set cs" for sh cs c
    using bspec [OF assms(3) listed [OF that(1)]] that(2) by simp
  ultimately show ?thesis
    using assms(1) unfolding cluster_ok_def by blast
qed

lemma sample_version_set: "isSet (ChunkVersion 1 0 7)"
  by code_simp

lemma validate_sample [simp]:
  "\<lbrakk>sint n < sint (n + 1); sh \<noteq> []\<rbrakk> \<Longrightarrow> validate (sample_chunk_on sh n) = Inr ()" "chunk_shard (sample_chunk_on sh n) = Some sh"
  by (auto simp: sample_chunk_on_def ChunkType_def validate_iff sample_version_set key_simps)

theorem balance_sound_witness:
  "\<exists>m used. balance [sample_stat ''a'' [] True, sample_stat ''b'' [] False] (sample_dist [(''a'', [0]), (''b'', [])]) False {} = Inr ([m], used)
    \<and> mi_from m = ''a'' \<and> mi_to m = ''b'' \<and> used = {''a'', ''b''}"
proof -
  let ?stats = "[sample_stat ''a'' [] True, sample_stat ''b'' [] False]" and ?d = "sample_dist [(''a'', [0]), (''b'', [])]"
  have "cluster_ok ?stats ?d"
    by (rule cluster_okI) (simp_all add: sample_stat_def sample_dist_def DistributionStatus_def)
  then obtain ms used where r: "balance ?stats ?d False {} = Inr (ms, used)" "used = {} \<union> set (ends ms)"
    using balance_sound [of ?stats ?d False "{}"] by blast
  have "(case balance ?stats ?d False {} of Inr (ms, used) \<Rightarrow> map (\<lambda>m. (mi_from m, mi_to m)) ms = [(''a'', ''b'')] | _ \<Rightarrow> False)"
    by code_simp
  then show ?thesis
    using r by (auto simp: ends_def)
qed


definition uneven_stats :: "shard_statistics list" where
  "uneven_stats = map (\<lambda>sh. sample_stat sh [''Z''] False) [''a'', ''b'', ''c'']"

definition uneven_dist :: distribution_status where
  "uneven_dist = (sample_dist [(''a'', [0, 1, 2, 3, 4]), (''b'', [5, 20, 21, 22]), (''c'', [6, 7, 8])])
     \<lparr>zoneRanges := [(int_key 10, sample_zone)], allTags := [(''Z'', ())]\<rparr>"

lemma uneven_cluster: "cluster_ok uneven_stats uneven_dist"
  by (rule cluster_okI) (simp_all add: uneven_stats_def uneven_dist_def sample_stat_def sample_dist_def DistributionStatus_def)


end
