(* ===== verification/Balancer_Selection.thy ===== *)
theory Balancer_Selection
  imports Balancer_Policy
begin

text \<open>
  The selection of chunks to split and to move
  (\<open>db/s/balancer/balancer_chunk_selection_policy_impl.cpp\<close>): the distribution of a collection is built
  from its routing table and its zones, the boundaries of zones inside chunks become split points,
  and collections whose zones are aligned with their chunks are balanced, all with one set of used
  shards. The statistics of the shards, the order of the shuffled collections and the answers of the
  routing cache are parameters.

  The functions return a status and may throw. The outer result is what was thrown, the inner sum is
  the returned status.
\<close>

subsection \<open>Statuses\<close>

type_synonym 'a status_with = "error_code + 'a"

definition status :: "'a result \<Rightarrow> 'a status_with result" where
  "status r = (case r of Inl (Error code) \<Rightarrow> Inr (Inl code) | Inl f \<Rightarrow> Inl f | Inr x \<Rightarrow> Inr (Inr x))"

definition ifOK :: "'a status_with result \<Rightarrow> ('a \<Rightarrow> 'b status_with result) \<Rightarrow> 'b status_with result" where
  "ifOK r f = rbind r (\<lambda>s. case s of Inl code \<Rightarrow> Inr (Inl code) | Inr x \<Rightarrow> f x)"

subsection \<open>The distribution of a collection\<close>

definition touchShard :: "shard_statistics \<Rightarrow> (shard_id \<times> chunk_type list) list \<Rightarrow> (shard_id \<times> chunk_type list) list" where
  "touchShard stat m = (case map_of m (ss_shardId stat) of None \<Rightarrow> AList.update (ss_shardId stat) [] m | Some _ \<Rightarrow> m)"

definition pushChunk :: "shard_id \<Rightarrow> chunk_type \<Rightarrow> (shard_id \<times> chunk_type list) list \<Rightarrow> (shard_id \<times> chunk_type list) list" where
  "pushChunk sh c m = AList.update sh ((case map_of m sh of None \<Rightarrow> [] | Some cs \<Rightarrow> cs) @ [c]) m"

definition chunkTypeOf :: "string \<Rightarrow> chunk \<Rightarrow> chunk_type result" where
  "chunkTypeOf ns chunkEntry =
     rbind (setNS ns ChunkType_empty) (\<lambda>c1.
     rbind (setMin (getMin chunkEntry) c1) (\<lambda>c2.
     rbind (setMax (getMax chunkEntry) c2) (\<lambda>c3.
     rbind (setShard (shardId chunkEntry) (setJumbo (jumbo chunkEntry) c3)) (\<lambda>c4.
       setVersion (lastmod chunkEntry) c4))))"

fun collectChunks :: "string \<Rightarrow> chunk_map \<Rightarrow> (shard_id \<times> chunk_type list) list \<Rightarrow> (shard_id \<times> chunk_type list) list result" where
  "collectChunks ns [] m = Inr m"
| "collectChunks ns (e # es) m =
     rbind (chunkTypeOf ns (snd e)) (\<lambda>chunk. collectChunks ns es (pushChunk (shardId (snd e)) chunk m))"

fun addTags :: "bson_obj \<Rightarrow> tags_type list \<Rightarrow> distribution_status \<Rightarrow> distribution_status status_with result" where
  "addTags kp [] distribution = Inr (Inr distribution)"
| "addTags kp (tag # tags) distribution =
     rbind (extendRangeBound kp (the (tags_minKey tag)) False) (\<lambda>mn.
     rbind (extendRangeBound kp (the (tags_maxKey tag)) False) (\<lambda>mx.
     ifOK (status (addRangeToZone \<lparr>zone_min = mn, zone_max = mx, zone_name = the (tags_tag tag)\<rparr> distribution))
       (addTags kp tags)))"

definition createCollectionDistributionStatus ::
    "store \<Rightarrow> shard_statistics list \<Rightarrow> chunk_manager \<Rightarrow> distribution_status status_with result" where
  "createCollectionDistributionStatus tags allShards chunkMgr =
     rbind (collectChunks (cm_nss chunkMgr) (chunkMap chunkMgr) (fold touchShard allShards [])) (\<lambda>shardToChunksMap.
     ifOK (status (getTagsForCollection tags (cm_nss chunkMgr))) (\<lambda>collectionTags.
       addTags (cm_keyPattern chunkMgr) collectionTags (DistributionStatus (cm_nss chunkMgr) shardToChunksMap)))"

subsection \<open>Split points\<close>

record split_info =
  si_shardId :: shard_id
  si_nss :: string
  si_collectionVersion :: chunk_version
  si_chunkVersion :: chunk_version
  si_minKey :: bson_obj
  si_maxKey :: bson_obj
  si_splitKeys :: "bson_obj list"

type_synonym split_buffer = "(bson_obj, split_info) omap"

definition om_assign :: "('k \<Rightarrow> 'k \<Rightarrow> int) \<Rightarrow> 'k \<Rightarrow> 'v \<Rightarrow> ('k, 'v) omap \<Rightarrow> ('k, 'v) omap" where
  "om_assign cmp k v m = (let i = om_lower_bound cmp k m in m[i := (fst (m ! i), v)])"

definition addSplitPoint :: "string \<Rightarrow> chunk_version \<Rightarrow> chunk \<Rightarrow> bson_obj \<Rightarrow> split_buffer \<Rightarrow> split_buffer result" where
  "addSplitPoint nss version chunk splitPoint buf =
     (case om_find woCompare (getMin chunk) buf of
        None \<Rightarrow>
          Inr (om_insert woCompare (getMin chunk)
            \<lparr>si_shardId = shardId chunk, si_nss = nss, si_collectionVersion = version, si_chunkVersion = lastmod chunk,
             si_minKey = getMin chunk, si_maxKey = getMax chunk, si_splitKeys = [splitPoint]\<rparr> buf)
      | Some info \<Rightarrow>
          if 0 < woCompare splitPoint (last (si_splitKeys info))
          then Inr (om_assign woCompare (getMin chunk) (info\<lparr>si_splitKeys := si_splitKeys info @ [splitPoint]\<rparr>) buf)
          else rbind (invariant (woCompare splitPoint (last (si_splitKeys info)) = 0)) (\<lambda>_. Inr buf))"

fun splitAtZones :: "chunk_manager \<Rightarrow> string \<Rightarrow> (bson_obj, zone_range) omap \<Rightarrow> split_buffer \<Rightarrow> split_buffer result" where
  "splitAtZones cm nss [] buf = Inr buf"
| "splitAtZones cm nss (tagRangeEntry # zs) buf =
     (let tagRange = snd tagRangeEntry
      in rbind (findIntersectingChunkWithSimpleCollation cm (zone_min tagRange)) (\<lambda>chunkAtZoneMin.
         rbind (invariant (0 < woCompare (getMax chunkAtZoneMin) (zone_min tagRange))) (\<lambda>_.
         rbind (if woCompare (getMin chunkAtZoneMin) (zone_min tagRange) \<noteq> 0
                then addSplitPoint nss (collectionVersion cm) chunkAtZoneMin (zone_min tagRange) buf
                else Inr buf) (\<lambda>buf1.
         rbind (globalMax (cm_keyPattern cm)) (\<lambda>gmax.
           if woCompare (zone_max tagRange) gmax = 0 then splitAtZones cm nss zs buf1
           else rbind (findIntersectingChunkWithSimpleCollation cm (zone_max tagRange)) (\<lambda>chunkAtZoneMax.
                rbind (if woCompare (getMin chunkAtZoneMax) (zone_max tagRange) \<noteq> 0
                         \<and> woCompare (getMax chunkAtZoneMax) (zone_max tagRange) \<noteq> 0
                       then addSplitPoint nss (collectionVersion cm) chunkAtZoneMax (zone_max tagRange) buf1
                       else Inr buf1)
                  (splitAtZones cm nss zs)))))))"

definition getSplitCandidatesForCollection ::
    "store \<Rightarrow> (string \<Rightarrow> chunk_manager status_with) \<Rightarrow> string \<Rightarrow> shard_statistics list \<Rightarrow> split_info list status_with result" where
  "getSplitCandidatesForCollection tags routing nss shardStats =
     ifOK (Inr (routing nss)) (\<lambda>cm.
     ifOK (createCollectionDistributionStatus tags shardStats cm) (\<lambda>distribution.
     rbind (splitAtZones cm nss (zoneRanges distribution) []) (\<lambda>buf. Inr (Inr (map snd buf)))))"

fun selectSplits ::
    "store \<Rightarrow> (string \<Rightarrow> chunk_manager status_with) \<Rightarrow> shard_statistics list \<Rightarrow> collection_type list \<Rightarrow> split_info list \<Rightarrow> split_info list result" where
  "selectSplits tags routing shardStats [] splitCandidates = Inr splitCandidates"
| "selectSplits tags routing shardStats (coll # colls) splitCandidates =
     (if getDropped coll then selectSplits tags routing shardStats colls splitCandidates
      else rbind (getSplitCandidatesForCollection tags routing (the (coll_fullNs coll)) shardStats) (\<lambda>candidatesStatus.
        case candidatesStatus of
          Inl _ \<Rightarrow> selectSplits tags routing shardStats colls splitCandidates
        | Inr candidates \<Rightarrow> selectSplits tags routing shardStats colls (splitCandidates @ candidates)))"

definition selectChunksToSplit ::
    "shard_statistics list status_with \<Rightarrow> collection_type list status_with \<Rightarrow> (collection_type list \<Rightarrow> collection_type list)
      \<Rightarrow> store \<Rightarrow> (string \<Rightarrow> chunk_manager status_with) \<Rightarrow> split_info list status_with result" where
  "selectChunksToSplit shardStatsStatus collsStatus shuffle tags routing =
     ifOK (Inr shardStatsStatus) (\<lambda>shardStats.
     ifOK (Inr collsStatus) (\<lambda>collections.
       if collections = [] then Inr (Inr [])
       else rbind (selectSplits tags routing shardStats (shuffle collections) []) (\<lambda>splitCandidates.
         Inr (Inr splitCandidates))))"

subsection \<open>Migrations\<close>

fun checkZonesAligned :: "chunk_manager \<Rightarrow> (bson_obj, zone_range) omap \<Rightarrow> unit status_with result" where
  "checkZonesAligned cm [] = Inr (Inr ())"
| "checkZonesAligned cm (tagRangeEntry # zs) =
     (let tagRange = snd tagRangeEntry
      in rbind (findIntersectingChunkWithSimpleCollation cm (zone_min tagRange)) (\<lambda>chunkAtZoneMin.
         if woCompare (getMin chunkAtZoneMin) (zone_min tagRange) \<noteq> 0 then Inr (Inl IllegalOperation)
         else rbind (globalMax (cm_keyPattern cm)) (\<lambda>gmax.
           if woCompare (zone_max tagRange) gmax = 0 then checkZonesAligned cm zs
           else rbind (findIntersectingChunkWithSimpleCollation cm (zone_max tagRange)) (\<lambda>chunkAtZoneMax.
                if woCompare (getMin chunkAtZoneMax) (zone_max tagRange) \<noteq> 0
                  \<and> woCompare (getMax chunkAtZoneMax) (zone_max tagRange) \<noteq> 0
                then Inr (Inl IllegalOperation)
                else checkZonesAligned cm zs))))"

definition getMigrateCandidatesForCollection ::
    "store \<Rightarrow> (string \<Rightarrow> chunk_manager status_with) \<Rightarrow> string \<Rightarrow> shard_statistics list \<Rightarrow> bool \<Rightarrow> shard_id set
      \<Rightarrow> moves status_with result" where
  "getMigrateCandidatesForCollection tags routing nss shardStats aggressiveBalanceHint usedShards =
     ifOK (Inr (routing nss)) (\<lambda>cm.
     ifOK (createCollectionDistributionStatus tags shardStats cm) (\<lambda>distribution.
     ifOK (checkZonesAligned cm (zoneRanges distribution)) (\<lambda>_.
     rbind (balance shardStats distribution aggressiveBalanceHint usedShards) (\<lambda>st. Inr (Inr st)))))"

fun selectMoves ::
    "store \<Rightarrow> (string \<Rightarrow> chunk_manager status_with) \<Rightarrow> shard_statistics list \<Rightarrow> bool \<Rightarrow> collection_type list \<Rightarrow> moves \<Rightarrow> moves result" where
  "selectMoves tags routing shardStats aggressiveBalanceHint [] st = Inr st"
| "selectMoves tags routing shardStats aggressiveBalanceHint (coll # colls) st =
     (if getDropped coll then selectMoves tags routing shardStats aggressiveBalanceHint colls st
      else if \<not> getAllowBalance coll then selectMoves tags routing shardStats aggressiveBalanceHint colls st
      else rbind (getMigrateCandidatesForCollection tags routing (the (coll_fullNs coll)) shardStats aggressiveBalanceHint (snd st))
        (\<lambda>candidatesStatus.
          case candidatesStatus of
            Inl _ \<Rightarrow> selectMoves tags routing shardStats aggressiveBalanceHint colls st
          | Inr (candidates, usedShards) \<Rightarrow>
              selectMoves tags routing shardStats aggressiveBalanceHint colls (fst st @ candidates, usedShards)))"

definition selectChunksToMove ::
    "shard_statistics list status_with \<Rightarrow> collection_type list status_with \<Rightarrow> (collection_type list \<Rightarrow> collection_type list)
      \<Rightarrow> store \<Rightarrow> (string \<Rightarrow> chunk_manager status_with) \<Rightarrow> bool \<Rightarrow> migrate_info list status_with result" where
  "selectChunksToMove shardStatsStatus collsStatus shuffle tags routing aggressiveBalanceHint =
     ifOK (Inr shardStatsStatus) (\<lambda>shardStats.
       if length shardStats < 2 then Inr (Inr [])
       else ifOK (Inr collsStatus) (\<lambda>collections.
         if collections = [] then Inr (Inr [])
         else rbind (selectMoves tags routing shardStats aggressiveBalanceHint (shuffle collections) ([], {})) (\<lambda>st.
           Inr (Inr (fst st)))))"

definition selectSpecificChunkToMove ::
    "shard_statistics list status_with \<Rightarrow> store \<Rightarrow> (string \<Rightarrow> chunk_manager status_with) \<Rightarrow> chunk_type
      \<Rightarrow> migrate_info option status_with result" where
  "selectSpecificChunkToMove shardStatsStatus tags routing chunk =
     ifOK (Inr shardStatsStatus) (\<lambda>shardStats.
     ifOK (Inr (routing (the (chunk_ns chunk)))) (\<lambda>cm.
     ifOK (createCollectionDistributionStatus tags shardStats cm) (\<lambda>distribution.
     rbind (balanceSingleChunk chunk shardStats distribution) (\<lambda>m. Inr (Inr m)))))"

definition checkMoveAllowed ::
    "shard_statistics list status_with \<Rightarrow> store \<Rightarrow> (string \<Rightarrow> chunk_manager status_with) \<Rightarrow> chunk_type \<Rightarrow> shard_id
      \<Rightarrow> unit status_with result" where
  "checkMoveAllowed shardStatsStatus tags routing chunk newShardId =
     ifOK (Inr shardStatsStatus) (\<lambda>shardStats.
     ifOK (Inr (routing (the (chunk_ns chunk)))) (\<lambda>cm.
     ifOK (createCollectionDistributionStatus tags shardStats cm) (\<lambda>distribution.
       case find (\<lambda>stat. ss_shardId stat = newShardId) shardStats of
         None \<Rightarrow> Inr (Inl ShardNotFound)
       | Some stat \<Rightarrow> status (isShardSuitableReceiver stat (getTagForChunk distribution chunk)))))"

lemma status_simps [simp]:
  "status (Inr x) = Inr (Inr x)" "status (Inl (Error code)) = Inr (Inl code)"
  by (simp_all add: status_def)

lemma ifOK_simps [simp]:
  "ifOK (Inr (Inr x)) f = f x" "ifOK (Inr (Inl code)) f = Inr (Inl code)" "ifOK (Inl e) f = Inl e"
  by (simp_all add: ifOK_def)

subsection \<open>The distribution of a routing table\<close>

definition chunk_shape :: "chunk \<Rightarrow> bool" where
  "chunk_shape ch \<longleftrightarrow> getMin ch \<noteq> [] \<and> getMax ch \<noteq> [] \<and> map fst (getMin ch) = map fst (getMax ch)
     \<and> isSet (lastmod ch) \<and> shardId ch \<noteq> [] \<and> keyOf (getMin ch) < keyOf (getMax ch)"

definition typed :: "string \<Rightarrow> chunk \<Rightarrow> chunk_type" where
  "typed ns ch = \<lparr>chunk_ns = Some ns, chunk_min = Some (getMin ch), chunk_max = Some (getMax ch),
     chunk_version = Some (lastmod ch), chunk_shard = Some (shardId ch), chunk_jumbo = Some (jumbo ch)\<rparr>"

definition chunks_on :: "chunk_manager \<Rightarrow> shard_id \<Rightarrow> chunk_type list" where
  "chunks_on cm sh = map (typed (cm_nss cm)) (filter (\<lambda>ch. shardId ch = sh) (map snd (chunkMap cm)))"

lemma chunkTypeOf_typed: "\<lbrakk>ns \<noteq> []; chunk_shape ch\<rbrakk> \<Longrightarrow> chunkTypeOf ns ch = Inr (typed ns ch)"
  by (simp add: chunkTypeOf_def chunk_shape_def typed_def setNS_def setMin_def setMax_def setShard_def setVersion_def
      setJumbo_def ShardId_isValid_def ChunkType_empty_def invariant_def)

lemma validate_typed: "chunk_shape ch \<Longrightarrow> validate (typed ns ch) = Inr ()"
  by (simp add: validate_iff chunk_shape_def typed_def key_simps)

lemma map_of_touch: "map_of (touchShard s m) sh = (if sh = ss_shardId s \<and> map_of m sh = None then Some [] else map_of m sh)"
  by (auto simp: touchShard_def update_conv' split: option.splits)

lemma map_of_touch_all:
  "map_of (fold touchShard stats m) sh =
     (case map_of m sh of Some cs \<Rightarrow> Some cs | None \<Rightarrow> if sh \<in> ss_shardId ` set stats then Some [] else None)"
  by (induction stats arbitrary: m) (auto simp: map_of_touch split: option.splits)

definition extended :: "'a list option \<Rightarrow> 'a list \<Rightarrow> 'a list option" where
  "extended old cs = (case old of Some xs \<Rightarrow> Some (xs @ cs) | None \<Rightarrow> if cs = [] then None else Some cs)"

lemma extended_simps [simp]:
  "extended old [] = old" "extended (extended old [c]) cs = extended old (c # cs)" "extended (Some xs) cs = Some (xs @ cs)"
  by (simp_all add: extended_def split: option.split)

lemma map_of_push: "map_of (pushChunk sh c m) = (map_of m)(sh := extended (map_of m sh) [c])"
  by (auto simp: pushChunk_def extended_def update_conv' split: option.split)

lemma collectChunks_Inr:
  assumes "ns \<noteq> []" "\<forall>e\<in>set es. chunk_shape (snd e)"
  shows "\<exists>m'. collectChunks ns es m = Inr m' \<and>
    (\<forall>sh. map_of m' sh = extended (map_of m sh) (map (typed ns) (filter (\<lambda>ch. shardId ch = sh) (map snd es))))"
  using assms(2)
proof (induction es arbitrary: m)
  case (Cons e es)
  have "chunkTypeOf ns (snd e) = Inr (typed ns (snd e))"
    using Cons.prems by (simp add: chunkTypeOf_typed [OF assms(1)])
  then show ?case
    using Cons.IH [of "pushChunk (shardId (snd e)) (typed ns (snd e)) m"] Cons.prems by (auto simp: map_of_push)
qed simp

text \<open>Zones that cover whole, non-empty ranges of the key space.\<close>

definition tags_proper :: "bson_obj \<Rightarrow> bson_key \<Rightarrow> bson_key \<Rightarrow> tags_type list \<Rightarrow> bool" where
  "tags_proper kp a b tags \<longleftrightarrow> (\<forall>t\<in>set tags. \<exists>mn mx. extendRangeBound kp (the (tags_minKey t)) False = Inr mn
     \<and> extendRangeBound kp (the (tags_maxKey t)) False = Inr mx \<and> a \<le> keyOf mn \<and> keyOf mn < keyOf mx \<and> keyOf mx \<le> b)"

definition zones_within :: "bson_key \<Rightarrow> bson_key \<Rightarrow> (bson_obj, zone_range) omap \<Rightarrow> bool" where
  "zones_within a b zr \<longleftrightarrow> (\<forall>e\<in>set zr. a \<le> keyOf (zone_min (snd e)) \<and> keyOf (zone_max (snd e)) \<le> b)"

lemma addTags_ok:
  assumes "tags_proper kp a b tags" "zones_ok (zoneRanges d)" "zones_within a b (zoneRanges d)"
  shows "addTags kp tags d = Inr (Inl RangeOverlapConflict)
    \<or> (\<exists>d'. addTags kp tags d = Inr (Inr d') \<and> zones_ok (zoneRanges d') \<and> zones_within a b (zoneRanges d')
         \<and> shardChunks d' = shardChunks d \<and> ds_nss d' = ds_nss d)"
  using assms
proof (induction tags arbitrary: d)
  case (Cons t tags)
  obtain mn mx where ext: "extendRangeBound kp (the (tags_minKey t)) False = Inr mn"
    "extendRangeBound kp (the (tags_maxKey t)) False = Inr mx" "a \<le> keyOf mn" "keyOf mn < keyOf mx" "keyOf mx \<le> b"
    using Cons.prems(1) unfolding tags_proper_def by force
  define r where "r = \<lparr>zone_min = mn, zone_max = mx, zone_name = the (tags_tag t)\<rparr>"
  have "keyOf (zone_min r) < keyOf (zone_max r)"
    using ext by (simp add: r_def)
  then consider (conflict) "addRangeToZone r d = Inl (Error RangeOverlapConflict)"
    | (added) d1 where "addRangeToZone r d = Inr d1" "zones_ok (zoneRanges d1)" "shardChunks d1 = shardChunks d" "ds_nss d1 = ds_nss d"
      "set (zoneRanges d1) \<subseteq> insert (zone_max r, r) (set (zoneRanges d))"
    using addRange_ok [OF Cons.prems(2)] by blast
  then show ?case
  proof cases
    case conflict
    then show ?thesis
      using ext by (simp add: r_def)
  next
    case added
    have "zones_within a b (zoneRanges d1)"
      using added(5) Cons.prems(3) ext unfolding zones_within_def r_def by auto
    then show ?thesis
      using Cons.IH [of d1] Cons.prems(1) added ext by (simp add: tags_proper_def flip: r_def)
  qed
qed simp

definition stats_ok :: "shard_statistics list \<Rightarrow> bool" where
  "stats_ok stats \<longleftrightarrow> distinct (map ss_shardId stats) \<and> (\<forall>s\<in>set stats. ss_shardId s \<noteq> [])"

text \<open>
  A routing table the balancer can work with: it partitions the key space \<open>[a, b)\<close> into chunks of the
  shape the constructors accept, and the zones of the collection, if they can be read, lie in the
  key space.
\<close>

definition balanceable :: "store \<Rightarrow> bson_key \<Rightarrow> bson_key \<Rightarrow> chunk_manager \<Rightarrow> bool" where
  "balanceable tags a b cm \<longleftrightarrow> cm_nss cm \<noteq> [] \<and> chunk_partition a b (chunkMap cm) \<and> (\<forall>e\<in>set (chunkMap cm). chunk_shape (snd e))
     \<and> (\<exists>gmax. globalMax (cm_keyPattern cm) = Inr gmax \<and> keyOf gmax = b)
     \<and> ((\<exists>code. getTagsForCollection tags (cm_nss cm) = Inl (Error code))
        \<or> (\<exists>ts. getTagsForCollection tags (cm_nss cm) = Inr ts \<and> tags_proper (cm_keyPattern cm) a b ts))"

definition distribution_of :: "bson_key \<Rightarrow> bson_key \<Rightarrow> shard_statistics list \<Rightarrow> chunk_manager \<Rightarrow> distribution_status \<Rightarrow> bool" where
  "distribution_of a b stats cm d \<longleftrightarrow> cluster_ok stats d \<and> zones_ok (zoneRanges d) \<and> zones_within a b (zoneRanges d)
     \<and> (\<forall>sh cs. dist_getChunks d sh = Inr cs \<longrightarrow> cs = chunks_on cm sh)
     \<and> (\<forall>e\<in>set (chunkMap cm). dist_getChunks d (shardId (snd e)) = Inr (chunks_on cm (shardId (snd e))))"

lemma chunks_on_valid:
  assumes "\<forall>e\<in>set (chunkMap cm). chunk_shape (snd e)" "c \<in> set (chunks_on cm sh)"
  shows "validate c = Inr () \<and> chunk_shard c = Some sh"
  using assms by (auto simp: chunks_on_def validate_typed) (simp add: typed_def)

lemma distribution_ok:
  assumes "stats_ok stats" "balanceable tags a b cm"
  shows "(\<exists>code. createCollectionDistributionStatus tags stats cm = Inr (Inl code))
    \<or> (\<exists>d. createCollectionDistributionStatus tags stats cm = Inr (Inr d) \<and> distribution_of a b stats cm d)"
proof -
  let ?ns = "cm_nss cm"
  have cm: "?ns \<noteq> []" "\<forall>e\<in>set (chunkMap cm). chunk_shape (snd e)"
    using assms(2) by (simp_all add: balanceable_def)
  obtain m where m: "collectChunks ?ns (chunkMap cm) (fold touchShard stats []) = Inr m"
    "\<And>sh. map_of m sh = extended (if sh \<in> ss_shardId ` set stats then Some [] else None) (chunks_on cm sh)"
    using collectChunks_Inr [OF cm, of "fold touchShard stats []"] unfolding chunks_on_def map_of_touch_all by auto
  define d0 where "d0 = DistributionStatus ?ns m"
  have get: "dist_getChunks d0 sh = (if sh \<in> ss_shardId ` set stats \<or> chunks_on cm sh \<noteq> [] then Inr (chunks_on cm sh) else Inl Fatal)" for sh
    by (simp add: dist_getChunks_def d0_def DistributionStatus_def m(2) extended_def)
  have same: "dist_getChunks d sh = dist_getChunks d0 sh" if "shardChunks d = shardChunks d0" for d sh
    using that by (simp add: dist_getChunks_def)
  have listed: "chunks_on cm (shardId (snd e)) \<noteq> []" if "e \<in> set (chunkMap cm)" for e
    using that by (auto simp: chunks_on_def filter_empty_conv)
  have "cluster_ok stats d" if "shardChunks d = shardChunks d0" for d
    using assms(1) chunks_on_valid [OF cm(2)] same [OF that] get unfolding cluster_ok_def stats_ok_def by (auto split: if_splits)
  then have of_d: "distribution_of a b stats cm d"
    if "shardChunks d = shardChunks d0" "zones_ok (zoneRanges d)" "zones_within a b (zoneRanges d)" for d
    using that same [OF that(1)] get listed unfolding distribution_of_def by auto
  show ?thesis
  proof (cases "getTagsForCollection tags ?ns")
    case (Inl f)
    then obtain code where "f = Error code"
      using assms(2) by (auto simp: balanceable_def)
    then show ?thesis
      using Inl m(1) by (simp add: createCollectionDistributionStatus_def)
  next
    case (Inr ts)
    then have "tags_proper (cm_keyPattern cm) a b ts"
      using assms(2) by (auto simp: balanceable_def)
    moreover have "zones_ok (zoneRanges d0)" "zones_within a b (zoneRanges d0)"
      by (simp_all add: d0_def DistributionStatus_def zones_within_def)
    ultimately have "addTags (cm_keyPattern cm) ts d0 = Inr (Inl RangeOverlapConflict)
        \<or> (\<exists>d. addTags (cm_keyPattern cm) ts d0 = Inr (Inr d) \<and> distribution_of a b stats cm d)"
      using addTags_ok [of "cm_keyPattern cm" a b ts d0] of_d by blast
    then show ?thesis
      using Inr m(1) by (auto simp: createCollectionDistributionStatus_def d0_def)
  qed
qed

subsection \<open>Split points of zones\<close>

lemma om_find_None:
  assumes "om_sorted woCompare m" "om_find woCompare k m = None"
  shows "\<forall>e\<in>set m. woCompare (fst e) k \<noteq> 0"
proof
  fix e
  assume e: "e \<in> set m"
  let ?i = "om_lower_bound woCompare k m"
  show "woCompare (fst e) k \<noteq> 0"
  proof
    assume eq: "woCompare (fst e) k = 0"
    then have "e \<in> set (drop ?i m)"
      using e by (simp add: bson.drop_om_lower_bound [OF assms(1)] key_simps)
    then have i: "?i < length m"
      by (metis drop_all empty_iff empty_set not_less)
    have "om_sorted woCompare (m ! ?i # drop (Suc ?i) m)"
      using assms(1) i by (metis Cons_nth_drop_Suc om_sorted_drop)
    moreover have "e = m ! ?i \<or> e \<in> set (drop (Suc ?i) m)"
      using \<open>e \<in> set (drop ?i m)\<close> i by (metis Cons_nth_drop_Suc set_ConsD)
    ultimately have "woCompare (fst (m ! ?i)) (fst e) \<le> 0"
      by (auto simp: less_imp_le)
    then have "\<not> woCompare k (fst (m ! ?i)) < 0"
      using eq unfolding key_simps by simp
    then show False
      using assms(2) i by (simp add: om_find_def Let_def)
  qed
qed

lemma om_find_Some:
  assumes "om_sorted woCompare m" "om_find woCompare k m = Some v"
  shows "om_lower_bound woCompare k m < length m" "keyOf (fst (m ! om_lower_bound woCompare k m)) = keyOf k"
    "snd (m ! om_lower_bound woCompare k m) = v"
proof -
  let ?i = "om_lower_bound woCompare k m"
  show i: "?i < length m" and "snd (m ! ?i) = v"
    using assms(2) by (simp_all add: om_find_def Let_def split: if_splits)
  have "m ! ?i \<in> set (drop ?i m)"
    using i by (rule nth_in_drop)
  then have "keyOf k \<le> keyOf (fst (m ! ?i))" "\<not> keyOf k < keyOf (fst (m ! ?i))"
    using assms(2) by (simp_all add: bson.drop_om_lower_bound [OF assms(1)] key_simps om_find_def Let_def split: if_splits)
  then show "keyOf (fst (m ! ?i)) = keyOf k"
    by simp
qed

lemma om_sorted_assign:
  assumes "om_sorted cmp m" "i < length m" "fst x = fst (m ! i)"
  shows "om_sorted cmp (m[i := x])"
proof -
  have "map fst (m[i := x]) = map fst m"
    using assms(2,3) by (simp add: map_update list_update_same_conv)
  moreover have "om_sorted cmp xs \<longleftrightarrow> sorted_wrt (\<lambda>a b. cmp a b < 0) (map fst xs)" for xs :: "('a, 'b) omap"
    by (simp add: om_sorted_def sorted_wrt_map)
  ultimately show ?thesis
    using assms(1) by simp
qed

definition chunk_entry :: "bson_key \<Rightarrow> chunk \<Rightarrow> bson_obj \<times> split_info \<Rightarrow> bool" where
  "chunk_entry bound c e \<longleftrightarrow> fst e = getMin c \<and> si_minKey (snd e) = getMin c \<and> si_maxKey (snd e) = getMax c
     \<and> si_shardId (snd e) = shardId c \<and> si_chunkVersion (snd e) = lastmod c
     \<and> si_splitKeys (snd e) \<noteq> [] \<and> sorted_wrt (\<lambda>x y. keyOf x < keyOf y) (si_splitKeys (snd e))
     \<and> (\<forall>k\<in>set (si_splitKeys (snd e)). keyOf (getMin c) < keyOf k \<and> keyOf k < keyOf (getMax c) \<and> keyOf k \<le> bound)"

definition split_entry_ok :: "chunk_manager \<Rightarrow> bson_key \<Rightarrow> bson_obj \<times> split_info \<Rightarrow> bool" where
  "split_entry_ok cm bound e \<longleftrightarrow> (\<exists>c\<in>snd ` set (chunkMap cm). chunk_entry bound c e)"

definition buffer_ok :: "chunk_manager \<Rightarrow> bson_key \<Rightarrow> split_buffer \<Rightarrow> bool" where
  "buffer_ok cm bound buf \<longleftrightarrow> om_sorted woCompare buf \<and> (\<forall>e\<in>set buf. split_entry_ok cm bound e)"

definition points :: "split_info list \<Rightarrow> bson_key set" where
  "points infos = (\<Union>i\<in>set infos. keyOf ` set (si_splitKeys i))"

lemma buffer_ok_mono: "\<lbrakk>buffer_ok cm bound buf; bound \<le> bound'\<rbrakk> \<Longrightarrow> buffer_ok cm bound' buf"
  unfolding buffer_ok_def split_entry_ok_def chunk_entry_def by (meson order_trans)

lemma same_chunk:
  assumes "chunk_partition a b m" "e \<in> set m" "f \<in> set m" "keyOf (getMin (snd e)) = keyOf (getMin (snd f))"
  shows "e = f"
proof -
  have "Chunk_containsKey (snd e) (getMin (snd e))" "Chunk_containsKey (snd f) (getMin (snd e))"
    using chunk_partition_bounds [OF assms(1,2)] chunk_partition_bounds [OF assms(1,3)] assms(4)
    by (auto simp: Chunk_containsKey_ivl ivl_def)
  then show ?thesis
    using chunk_partition_ex1 [OF assms(1), of "getMin (snd e)"] contains_in_range [OF assms(1,2)] assms(2,3) by metis
qed

lemma entry_append:
  assumes "chunk_entry bound c (k, info)" "keyOf (last (si_splitKeys info)) < keyOf p" "keyOf (getMin c) < keyOf p" "keyOf p < keyOf (getMax c)"
    "bound \<le> keyOf p"
  shows "chunk_entry (keyOf p) c (k, info\<lparr>si_splitKeys := si_splitKeys info @ [p]\<rparr>)"
proof -
  have ne: "si_splitKeys info \<noteq> []" and s: "sorted_wrt (\<lambda>x y. keyOf x < keyOf y) (si_splitKeys info)"
    using assms(1) by (simp_all add: chunk_entry_def)
  then have "sorted_wrt (\<lambda>x y. keyOf x < keyOf y) (butlast (si_splitKeys info) @ [last (si_splitKeys info)])"
    by simp
  then have "\<forall>x\<in>set (butlast (si_splitKeys info) @ [last (si_splitKeys info)]). keyOf x < keyOf p"
    using assms(2) unfolding sorted_wrt_append by (auto intro: less_trans)
  then have "\<forall>x\<in>set (si_splitKeys info). keyOf x < keyOf p"
    using ne by simp
  then show ?thesis
    using assms by (auto simp: chunk_entry_def sorted_wrt_append less_imp_le)
qed

lemma points_update:
  fixes buf :: split_buffer
  assumes "i < length buf" "si_splitKeys (snd e) = si_splitKeys (snd (buf ! i)) @ [p]"
  shows "points (map snd (buf[i := e])) = insert (keyOf p) (points (map snd buf))"
proof -
  have split: "points (map snd (xs @ y # ys)) = points (map snd (xs @ ys)) \<union> keyOf ` set (si_splitKeys (snd y))"
    for xs ys :: split_buffer and y
    by (auto simp: points_def)
  note parts = arg_cong [where f = "\<lambda>b. points (map snd b)"]
  show ?thesis
    unfolding trans [OF parts [OF id_take_nth_drop [OF assms(1)]] split] trans [OF parts [OF upd_conv_take_nth_drop [OF assms(1)]] split]
      assms(2) by simp
qed

lemma addSplitPoint_ok:
  assumes part: "chunk_partition a b (chunkMap cm)" and c: "c \<in> snd ` set (chunkMap cm)" "keyOf (getMin c) < keyOf p" "keyOf p < keyOf (getMax c)"
    and buf: "buffer_ok cm bound buf" "bound \<le> keyOf p"
  shows "\<exists>buf'. addSplitPoint nss v c p buf = Inr buf' \<and> buffer_ok cm (keyOf p) buf'
    \<and> points (map snd buf') = insert (keyOf p) (points (map snd buf))"
proof (cases "om_find woCompare (getMin c) buf")
  case None
  let ?i = "\<lparr>si_shardId = shardId c, si_nss = nss, si_collectionVersion = v, si_chunkVersion = lastmod c,
    si_minKey = getMin c, si_maxKey = getMax c, si_splitKeys = [p]\<rparr>"
  have s: "om_sorted woCompare buf"
    using buf by (simp add: buffer_ok_def)
  note fresh = om_find_None [OF s None]
  have "split_entry_ok cm (keyOf p) (getMin c, ?i)"
    using c unfolding split_entry_ok_def chunk_entry_def by (intro bexI [of _ c]) auto
  then have "buffer_ok cm (keyOf p) (om_insert woCompare (getMin c) ?i buf)"
    using buffer_ok_mono [OF buf] bson.om_sorted_insert [OF s fresh] bson.set_om_insert [OF s fresh] by (simp add: buffer_ok_def)
  then show ?thesis
    using None bson.set_om_insert [OF s fresh, of ?i] by (simp add: addSplitPoint_def points_def)
next
  case (Some info)
  let ?i = "om_lower_bound woCompare (getMin c) buf"
  have s: "om_sorted woCompare buf"
    using buf by (simp add: buffer_ok_def)
  note found = om_find_Some [OF s Some]
  have mem: "buf ! ?i \<in> set buf"
    using found(1) by simp
  then have "split_entry_ok cm bound (buf ! ?i)"
    using buf(1) unfolding buffer_ok_def by blast
  then obtain c' where "c' \<in> snd ` set (chunkMap cm)" "chunk_entry bound c' (buf ! ?i)"
    unfolding split_entry_ok_def by blast
  moreover from this have "c' = c"
    using found(2) c(1) same_chunk [OF part] by (auto simp: chunk_entry_def)
  ultimately have entry: "chunk_entry bound c (getMin c, info)" and key: "buf ! ?i = (getMin c, info)"
    using found(3) by (auto simp: chunk_entry_def prod_eq_iff)
  note ok = buffer_ok_mono [OF buf]
  show ?thesis
  proof (cases "keyOf (last (si_splitKeys info)) < keyOf p")
    case True
    let ?e = "(getMin c, info\<lparr>si_splitKeys := si_splitKeys info @ [p]\<rparr>)"
    have "split_entry_ok cm (keyOf p) ?e"
      using entry_append [OF entry True c(2,3) buf(2)] c(1) unfolding split_entry_ok_def by blast
    then have "buffer_ok cm (keyOf p) (buf[?i := ?e])"
      using ok om_sorted_assign [OF s found(1), of ?e] key set_update_subset_insert [of buf ?i ?e] by (auto simp: buffer_ok_def)
    moreover have "points (map snd (buf[?i := ?e])) = insert (keyOf p) (points (map snd buf))"
      using points_update [OF found(1), of ?e p] key by simp
    ultimately show ?thesis
      using Some True key by (simp add: addSplitPoint_def om_assign_def Let_def key_simps)
  next
    case False
    have "last (si_splitKeys info) \<in> set (si_splitKeys info)"
      using entry by (auto simp: chunk_entry_def)
    moreover from this have "keyOf (last (si_splitKeys info)) \<le> bound"
      using entry by (simp add: chunk_entry_def)
    moreover from this have "keyOf (last (si_splitKeys info)) = keyOf p"
      using False buf(2) by order
    moreover have "info \<in> set (map snd buf)"
      using mem key by force
    ultimately have "keyOf p \<in> points (map snd buf)"
      unfolding points_def by (metis UN_I imageI)
    then show ?thesis
      using Some False ok \<open>keyOf (last (si_splitKeys info)) = keyOf p\<close>
      by (auto simp: addSplitPoint_def invariant_def key_simps)
  qed
qed

text \<open>A key that is no bound of a chunk lies inside one; the zone bounds that do are the split points.\<close>

definition chunk_bound :: "chunk_manager \<Rightarrow> bson_key \<Rightarrow> bson_key \<Rightarrow> bool" where
  "chunk_bound cm b k \<longleftrightarrow> k = b \<or> (\<exists>e\<in>set (chunkMap cm). keyOf (getMin (snd e)) = k)"

definition zone_bounds :: "(bson_obj, zone_range) omap \<Rightarrow> bson_key set" where
  "zone_bounds zs = (\<Union>e\<in>set zs. {keyOf (zone_min (snd e)), keyOf (zone_max (snd e))})"

definition inner_bounds :: "chunk_manager \<Rightarrow> bson_key \<Rightarrow> (bson_obj, zone_range) omap \<Rightarrow> bson_key set" where
  "inner_bounds cm b zs = {k \<in> zone_bounds zs. \<not> chunk_bound cm b k}"

lemma find_bound:
  assumes "chunk_partition a b (chunkMap cm)" "a \<le> keyOf p" "keyOf p < b"
  obtains c where "findIntersectingChunkWithSimpleCollation cm p = Inr c" "c \<in> snd ` set (chunkMap cm)"
    "keyOf (getMin c) \<le> keyOf p" "keyOf p < keyOf (getMax c)" "keyOf (getMin c) = keyOf p \<longleftrightarrow> chunk_bound cm b (keyOf p)"
proof -
  obtain e where e: "e \<in> set (chunkMap cm)" "Chunk_containsKey (snd e) p"
    "\<forall>e'\<in>set (chunkMap cm). Chunk_containsKey (snd e') p \<longrightarrow> e' = e"
    by (rule chunk_partition_ex1 [OF assms]) blast
  have in_e: "keyOf (getMin (snd e)) \<le> keyOf p" "keyOf p < keyOf (getMax (snd e))"
    using e(2) by (simp_all add: Chunk_containsKey_ivl ivl_def)
  have "keyOf (getMin (snd e)) = keyOf p" if f: "f \<in> set (chunkMap cm)" "keyOf (getMin (snd f)) = keyOf p" for f
  proof -
    have "Chunk_containsKey (snd f) p"
      using f chunk_partition_bounds [OF assms(1) f(1)] by (auto simp: Chunk_containsKey_ivl ivl_def)
    then show ?thesis
      using e(3) f by blast
  qed
  then have "keyOf (getMin (snd e)) = keyOf p \<longleftrightarrow> chunk_bound cm b (keyOf p)"
    using assms(3) e(1) unfolding chunk_bound_def by blast
  then show thesis
    by (rule that [OF find_chunk_Inr [OF assms(1) e(1,2)] imageI [OF e(1)] in_e])
qed

lemma inner_Cons:
  "inner_bounds cm b (e # zs) = (if chunk_bound cm b (keyOf (zone_min (snd e))) then {} else {keyOf (zone_min (snd e))})
     \<union> (if chunk_bound cm b (keyOf (zone_max (snd e))) then {} else {keyOf (zone_max (snd e))}) \<union> inner_bounds cm b zs"
  by (auto simp: inner_bounds_def zone_bounds_def)

lemma split_bound:
  assumes "chunk_partition a b (chunkMap cm)" "a \<le> keyOf p" "keyOf p < b" "buffer_ok cm bound buf" "bound \<le> keyOf p"
  obtains c buf' where "findIntersectingChunkWithSimpleCollation cm p = Inr c" "keyOf p < keyOf (getMax c)"
    "(if keyOf (getMin c) \<noteq> keyOf p then addSplitPoint nss v c p buf else Inr buf) = Inr buf'" "buffer_ok cm (keyOf p) buf'"
    "points (map snd buf') = points (map snd buf) \<union> (if chunk_bound cm b (keyOf p) then {} else {keyOf p})"
proof -
  obtain c where c: "findIntersectingChunkWithSimpleCollation cm p = Inr c" "c \<in> snd ` set (chunkMap cm)"
    "keyOf (getMin c) \<le> keyOf p" "keyOf p < keyOf (getMax c)" "keyOf (getMin c) = keyOf p \<longleftrightarrow> chunk_bound cm b (keyOf p)"
    by (rule find_bound [OF assms(1-3)])
  show thesis
  proof (cases "keyOf (getMin c) = keyOf p")
    case True
    show thesis
      by (rule that [OF c(1,4) _ buffer_ok_mono [OF assms(4,5)]]) (use True c(5) in simp_all)
  next
    case False
    then have "keyOf (getMin c) < keyOf p"
      using c(3) by simp
    then obtain buf' where buf': "addSplitPoint nss v c p buf = Inr buf'" "buffer_ok cm (keyOf p) buf'"
      "points (map snd buf') = insert (keyOf p) (points (map snd buf))"
      using addSplitPoint_ok [OF assms(1) c(2) _ c(4) assms(4,5)] by blast
    show thesis
      by (rule that [OF c(1,4) _ buf'(2)]) (use False c(5) buf' in simp_all)
  qed
qed

lemma splitAtZones_ok:
  assumes part: "chunk_partition a b (chunkMap cm)" and gm: "globalMax (cm_keyPattern cm) = Inr gmax" "keyOf gmax = b"
    and zs: "zones_ok zs" "zones_within a b zs" "\<forall>e\<in>set zs. bound \<le> keyOf (zone_min (snd e))"
    and buf: "buffer_ok cm bound buf" "bound \<le> b"
  shows "\<exists>buf'. splitAtZones cm nss zs buf = Inr buf' \<and> buffer_ok cm b buf'
    \<and> points (map snd buf') = points (map snd buf) \<union> inner_bounds cm b zs"
  using zs buf
proof (induction zs arbitrary: bound buf)
  case Nil
  then show ?case
    using buffer_ok_mono [OF Nil(4,5)] by (simp add: inner_bounds_def zone_bounds_def)
next
  case (Cons e zs)
  let ?mn = "zone_min (snd e)" and ?mx = "zone_max (snd e)" and ?v = "collectionVersion cm"
  have lt: "keyOf ?mn < keyOf ?mx" "a \<le> keyOf ?mn" "keyOf ?mx \<le> b" "bound \<le> keyOf ?mn"
    using Cons.prems(1-3) by (auto simp: zones_ok_def zones_within_def)
  have lt': "keyOf ?mn < b" "a \<le> keyOf ?mx"
    using lt by order+
  obtain c buf1 where 1: "findIntersectingChunkWithSimpleCollation cm ?mn = Inr c" "keyOf ?mn < keyOf (getMax c)"
    "(if keyOf (getMin c) \<noteq> keyOf ?mn then addSplitPoint nss ?v c ?mn buf else Inr buf) = Inr buf1" "buffer_ok cm (keyOf ?mn) buf1"
    "points (map snd buf1) = points (map snd buf) \<union> (if chunk_bound cm b (keyOf ?mn) then {} else {keyOf ?mn})"
    by (rule split_bound [OF part lt(2) lt'(1) Cons.prems(4) lt(4)])
  have rest: "zones_ok zs" "zones_within a b zs" "\<forall>f\<in>set zs. keyOf ?mx \<le> keyOf (zone_min (snd f))"
    using Cons.prems(1,2) by (auto simp: zones_ok_def zones_within_def)
  show ?case
  proof (cases "keyOf ?mx = b")
    case True
    then have "chunk_bound cm b (keyOf ?mx)"
      by (simp add: chunk_bound_def)
    moreover obtain buf' where "splitAtZones cm nss zs buf1 = Inr buf'" "buffer_ok cm b buf'"
      "points (map snd buf') = points (map snd buf1) \<union> inner_bounds cm b zs"
      using Cons.IH [OF rest buffer_ok_mono [OF 1(4) less_imp_le [OF lt(1)]] lt(3)] by blast
    moreover from this(1) have "splitAtZones cm nss (e # zs) buf = Inr buf'"
      using 1(1-3) gm True by (simp add: Let_def invariant_def key_simps)
    ultimately show ?thesis
      using 1(5) by (auto simp: inner_Cons)
  next
    case False
    then have less: "keyOf ?mx < b"
      using lt(3) by simp
    obtain c2 buf2 where 2: "findIntersectingChunkWithSimpleCollation cm ?mx = Inr c2" "keyOf ?mx < keyOf (getMax c2)"
      "(if keyOf (getMin c2) \<noteq> keyOf ?mx then addSplitPoint nss ?v c2 ?mx buf1 else Inr buf1) = Inr buf2" "buffer_ok cm (keyOf ?mx) buf2"
      "points (map snd buf2) = points (map snd buf1) \<union> (if chunk_bound cm b (keyOf ?mx) then {} else {keyOf ?mx})"
      by (rule split_bound [OF part lt'(2) less 1(4) less_imp_le [OF lt(1)]])
    obtain buf' where "splitAtZones cm nss zs buf2 = Inr buf'" "buffer_ok cm b buf'"
      "points (map snd buf') = points (map snd buf2) \<union> inner_bounds cm b zs"
      using Cons.IH [OF rest 2(4) lt(3)] by blast
    moreover from this(1) have "splitAtZones cm nss (e # zs) buf = Inr buf'"
      using 1(1-3) 2(1-3) gm False less_imp_neq [OF 2(2)] by (simp add: Let_def invariant_def key_simps)
    ultimately show ?thesis
      using 1(5) 2(5) by (auto simp: inner_Cons)
  qed
qed

lemma checkZonesAligned_iff:
  assumes part: "chunk_partition a b (chunkMap cm)" and gm: "globalMax (cm_keyPattern cm) = Inr gmax" "keyOf gmax = b"
    and zs: "zones_ok zs" "zones_within a b zs"
  shows "checkZonesAligned cm zs = Inr (if inner_bounds cm b zs = {} then Inr () else Inl IllegalOperation)"
  using zs
proof (induction zs)
  case Nil
  then show ?case
    by (simp add: inner_bounds_def zone_bounds_def)
next
  case (Cons e zs)
  let ?mn = "zone_min (snd e)" and ?mx = "zone_max (snd e)"
  have lt: "keyOf ?mn < keyOf ?mx" "a \<le> keyOf ?mn" "keyOf ?mx \<le> b"
    using Cons.prems by (auto simp: zones_ok_def zones_within_def)
  have lt': "keyOf ?mn < b" "a \<le> keyOf ?mx"
    using lt by order+
  have IH: "checkZonesAligned cm zs = Inr (if inner_bounds cm b zs = {} then Inr () else Inl IllegalOperation)"
    using Cons by (simp add: zones_ok_def zones_within_def)
  obtain c where c: "findIntersectingChunkWithSimpleCollation cm ?mn = Inr c" "keyOf (getMin c) = keyOf ?mn \<longleftrightarrow> chunk_bound cm b (keyOf ?mn)"
    by (rule find_bound [OF part lt(2) lt'(1)])
  show ?case
  proof (cases "chunk_bound cm b (keyOf ?mn) \<and> keyOf ?mx \<noteq> b")
    case True
    then have less: "keyOf ?mx < b"
      using lt(3) by (simp add: less_le)
    obtain c2 where "findIntersectingChunkWithSimpleCollation cm ?mx = Inr c2" "keyOf ?mx < keyOf (getMax c2)"
      "keyOf (getMin c2) = keyOf ?mx \<longleftrightarrow> chunk_bound cm b (keyOf ?mx)"
      by (rule find_bound [OF part lt'(2) less])
    then show ?thesis
      using c gm True IH by (auto simp: Let_def key_simps inner_Cons)
  next
    case False
    then show ?thesis
      using c gm IH by (auto simp: Let_def key_simps inner_Cons chunk_bound_def [of cm b b])
  qed
qed

lemma balanceable_parts:
  assumes "balanceable tags a b cm"
  obtains gmax where "chunk_partition a b (chunkMap cm)" "globalMax (cm_keyPattern cm) = Inr gmax" "keyOf gmax = b"
  using assms by (auto simp: balanceable_def)

lemma distribution_parts:
  assumes "stats_ok stats" "balanceable tags a b cm" "createCollectionDistributionStatus tags stats cm = Inr (Inr d)"
  shows "distribution_of a b stats cm d"
  using distribution_ok [OF assms(1,2)] assms(3) by auto

lemma zone_splits:
  assumes "balanceable tags a b cm" "stats_ok stats" "createCollectionDistributionStatus tags stats cm = Inr (Inr d)"
  shows "\<exists>buf. splitAtZones cm nss (zoneRanges d) [] = Inr buf \<and> buffer_ok cm b buf
    \<and> points (map snd buf) = inner_bounds cm b (zoneRanges d)"
proof -
  obtain gmax where cm: "chunk_partition a b (chunkMap cm)" "globalMax (cm_keyPattern cm) = Inr gmax" "keyOf gmax = b"
    by (rule balanceable_parts [OF assms(1)])
  have zs: "zones_ok (zoneRanges d)" "zones_within a b (zoneRanges d)"
    using distribution_parts [OF assms(2,1,3)] by (simp_all add: distribution_of_def)
  then have "\<forall>e\<in>set (zoneRanges d). a \<le> keyOf (zone_min (snd e))"
    unfolding zones_within_def by blast
  moreover have "buffer_ok cm a []" "a \<le> b"
    using cm(1) tiles_le by (auto simp: buffer_ok_def chunk_partition_def)
  ultimately show ?thesis
    using splitAtZones_ok [OF cm zs] by (fastforce simp: points_def)
qed

text \<open>
  C12: the balancer splits chunks exactly where zones require it. On a routing table that partitions the
  key space, the split candidates are computed without failure, and their split points are exactly
  the bounds of zones that are not bounds of chunks. Each candidate names a chunk of the table with
  its shard and version; its split points lie inside the chunk in increasing order, and no two
  candidates name the same chunk.
\<close>

theorem split_candidates_align_zones:
  assumes "balanceable tags a b cm" "stats_ok stats" "routing nss = Inr cm"
    and d: "createCollectionDistributionStatus tags stats cm = Inr (Inr d)"
  shows "\<exists>infos. getSplitCandidatesForCollection tags routing nss stats = Inr (Inr infos)
    \<and> points infos = inner_bounds cm b (zoneRanges d)
    \<and> (\<forall>i\<in>set infos. \<exists>c\<in>snd ` set (chunkMap cm). chunk_entry b c (getMin c, i))
    \<and> sorted_wrt (\<lambda>i j. keyOf (si_minKey i) < keyOf (si_minKey j)) infos"
proof -
  obtain buf where buf: "splitAtZones cm nss (zoneRanges d) [] = Inr buf" "buffer_ok cm b buf"
    "points (map snd buf) = inner_bounds cm b (zoneRanges d)"
    using zone_splits [OF assms(1,2) d] by blast
  have entry: "\<exists>c\<in>snd ` set (chunkMap cm). chunk_entry b c e" if "e \<in> set buf" for e
    using buf(2) that unfolding buffer_ok_def split_entry_ok_def by blast
  then have keys: "\<forall>e\<in>set buf. fst e = si_minKey (snd e)"
    unfolding chunk_entry_def by metis
  have "sorted_wrt (\<lambda>e f. keyOf (fst e) < keyOf (fst f)) buf"
    using buf(2) by (simp add: buffer_ok_def om_sorted_def key_simps)
  then have "sorted_wrt (\<lambda>e f. keyOf (si_minKey (snd e)) < keyOf (si_minKey (snd f))) buf"
    by (rule sorted_wrt_mono_rel [rotated]) (use keys in simp)
  moreover have "\<exists>c\<in>snd ` set (chunkMap cm). chunk_entry b c (getMin c, snd e)" if "e \<in> set buf" for e
    using entry [OF that] unfolding chunk_entry_def fst_conv snd_conv by blast
  ultimately show ?thesis
    using d buf(1,3) assms(3) by (intro exI [of _ "map snd buf"]) (simp add: getSplitCandidatesForCollection_def sorted_wrt_map)
qed

subsection \<open>Migrations of a cluster\<close>

text \<open>A proposed migration of a chunk of the routing table, with its bounds, shard and version.\<close>

definition moves_from_table :: "shard_statistics list \<Rightarrow> chunk_manager \<Rightarrow> migrate_info \<Rightarrow> bool" where
  "moves_from_table stats cm m \<longleftrightarrow> mi_to m \<in> ss_shardId ` set stats \<and> mi_to m \<noteq> mi_from m
     \<and> (\<exists>c\<in>snd ` set (chunkMap cm). \<not> jumbo c \<and> m = \<lparr>mi_ns = cm_nss cm, mi_to = mi_to m, mi_from = shardId c,
          mi_minKey = getMin c, mi_maxKey = getMax c, mi_version = lastmod c\<rparr>)"

lemma proposed_from_table:
  assumes "distribution_of a b stats cm d" "proposed stats d thr m" "mi_to m \<noteq> mi_from m"
  shows "moves_from_table stats cm m"
proof -
  obtain donor to c cs where m: "to \<in> set stats" "donor \<in> set stats" "dist_getChunks d (ss_shardId donor) = Inr cs" "c \<in> set cs" "\<not> getJumbo c"
    "MigrateInfo (ss_shardId to) c = Inr m"
    using assms(2) unfolding proposed_def moves_chunk_def by blast
  then have "c \<in> set (chunks_on cm (ss_shardId donor))"
    using assms(1) unfolding distribution_of_def by blast
  then obtain e where e: "e \<in> set (chunkMap cm)" "c = typed (cm_nss cm) (snd e)"
    by (auto simp: chunks_on_def)
  have "m = \<lparr>mi_ns = cm_nss cm, mi_to = ss_shardId to, mi_from = shardId (snd e),
      mi_minKey = getMin (snd e), mi_maxKey = getMax (snd e), mi_version = lastmod (snd e)\<rparr>" "\<not> jumbo (snd e)"
    using m(5,6) e(2) by (auto simp: MigrateInfo_def rbind_Inr_iff typed_def getJumbo_def)
  then show ?thesis
    using m(1) e(1) assms(3) unfolding moves_from_table_def by (intro conjI bexI [of _ "snd e"]) auto
qed

lemma ends_distinct: "\<lbrakk>distinct (ends ms); m \<in> set ms\<rbrakk> \<Longrightarrow> mi_to m \<noteq> mi_from m"
  by (induction ms) (auto simp: ends_def)

lemma balance_moves:
  assumes "distribution_of a b stats cm d"
  shows "\<exists>ms. balance stats d aggressive used = Inr (ms, used \<union> set (ends ms)) \<and> distinct (ends ms) \<and> set (ends ms) \<inter> used = {}
    \<and> (\<forall>m\<in>set ms. moves_from_table stats cm m)"
proof -
  let ?thr = "imbalanceThreshold d aggressive"
  have "cluster_ok stats d"
    using assms by (simp add: distribution_of_def)
  then obtain st where st: "balance stats d aggressive used = Inr st" "moves_ok stats d ?thr used st"
    using balance_ok by blast
  then have "\<forall>m\<in>set (fst st). moves_from_table stats cm m"
    using proposed_from_table [OF assms] ends_distinct unfolding moves_ok_def by blast
  then show ?thesis
    using st by (intro exI [of _ "fst st"]) (auto simp: moves_ok_def prod_eq_iff)
qed

lemma migrateCandidates:
  assumes "balanceable tags a b cm" "stats_ok stats" "routing nss = Inr cm" "createCollectionDistributionStatus tags stats cm = Inr (Inr d)"
  shows "getMigrateCandidatesForCollection tags routing nss stats aggressive used =
    (if inner_bounds cm b (zoneRanges d) = {} then rbind (balance stats d aggressive used) (\<lambda>st. Inr (Inr st)) else Inr (Inl IllegalOperation))"
proof -
  obtain gmax where cm: "chunk_partition a b (chunkMap cm)" "globalMax (cm_keyPattern cm) = Inr gmax" "keyOf gmax = b"
    by (rule balanceable_parts [OF assms(1)])
  have "zones_ok (zoneRanges d)" "zones_within a b (zoneRanges d)"
    using distribution_parts [OF assms(2,1,4)] by (simp_all add: distribution_of_def)
  from checkZonesAligned_iff [OF cm this] show ?thesis
    using assms(3,4) by (simp add: getMigrateCandidatesForCollection_def)
qed

text \<open>
  C13: a collection is balanced when its zones are aligned with its chunks, and only then. If the balancer
  has chunks of the collection to split, it reports IllegalOperation instead of migrations.
  Otherwise it proposes migrations of chunks of the routing table, with the bounds, the shard and
  the version the table has, without two migrations for one shard and without a used shard.
\<close>

theorem migrations_wait_for_splits:
  assumes "balanceable tags a b cm" "stats_ok stats" "routing nss = Inr cm" "createCollectionDistributionStatus tags stats cm = Inr (Inr d)"
  shows "\<exists>infos. getSplitCandidatesForCollection tags routing nss stats = Inr (Inr infos) \<and>
    (if infos \<noteq> [] then getMigrateCandidatesForCollection tags routing nss stats aggressive used = Inr (Inl IllegalOperation)
     else \<exists>ms. getMigrateCandidatesForCollection tags routing nss stats aggressive used = Inr (Inr (ms, used \<union> set (ends ms)))
       \<and> distinct (ends ms) \<and> set (ends ms) \<inter> used = {} \<and> (\<forall>m\<in>set ms. moves_from_table stats cm m))"
proof -
  obtain buf where buf: "splitAtZones cm nss (zoneRanges d) [] = Inr buf" "buffer_ok cm b buf"
    "points (map snd buf) = inner_bounds cm b (zoneRanges d)"
    using zone_splits [OF assms(1,2,4)] by blast
  have "si_splitKeys (snd e) \<noteq> []" if "e \<in> set buf" for e
    using buf(2) that unfolding buffer_ok_def split_entry_ok_def chunk_entry_def by blast
  then have "buf = [] \<longleftrightarrow> inner_bounds cm b (zoneRanges d) = {}"
    unfolding buf(3) [symmetric] points_def by (cases buf) fastforce+
  moreover obtain ms where "balance stats d aggressive used = Inr (ms, used \<union> set (ends ms))" "distinct (ends ms)" "set (ends ms) \<inter> used = {}"
    "\<forall>m\<in>set ms. moves_from_table stats cm m"
    using balance_moves [OF distribution_parts [OF assms(2,1,4)]] by blast
  ultimately show ?thesis
    unfolding migrateCandidates [where routing = routing and nss = nss, OF assms] using buf(1) assms(3,4)
    by (intro exI [of _ "map snd buf"]) (auto simp: getSplitCandidatesForCollection_def)
qed

lemma migrateCandidates_total:
  assumes "balanceable tags a b cm" "stats_ok stats" "routing nss = Inr cm"
  shows "(\<exists>code. getMigrateCandidatesForCollection tags routing nss stats aggressive used = Inr (Inl code))
    \<or> (\<exists>ms. getMigrateCandidatesForCollection tags routing nss stats aggressive used = Inr (Inr (ms, used \<union> set (ends ms)))
       \<and> distinct (ends ms) \<and> set (ends ms) \<inter> used = {} \<and> (\<forall>m\<in>set ms. moves_from_table stats cm m))"
proof (cases "\<exists>code. createCollectionDistributionStatus tags stats cm = Inr (Inl code)")
  case True
  then show ?thesis
    using assms(3) by (auto simp: getMigrateCandidatesForCollection_def)
next
  case False
  then obtain d where d: "createCollectionDistributionStatus tags stats cm = Inr (Inr d)" "distribution_of a b stats cm d"
    using distribution_ok [OF assms(2,1)] by blast
  obtain ms where "balance stats d aggressive used = Inr (ms, used \<union> set (ends ms))" "distinct (ends ms)" "set (ends ms) \<inter> used = {}"
    "\<forall>m\<in>set ms. moves_from_table stats cm m"
    using balance_moves [OF d(2)] by blast
  then show ?thesis
    unfolding migrateCandidates [where routing = routing and nss = nss, OF assms d(1)] by auto
qed

text \<open>The moves of several collections: each is a migration from the table of one of them.\<close>

definition cluster_moves :: "(string \<Rightarrow> chunk_manager status_with) \<Rightarrow> shard_statistics list \<Rightarrow> moves \<Rightarrow> bool" where
  "cluster_moves routing stats st \<longleftrightarrow> distinct (ends (fst st)) \<and> snd st = set (ends (fst st))
     \<and> (\<forall>m\<in>set (fst st). \<exists>nss cm. routing nss = Inr cm \<and> moves_from_table stats cm m)"

lemma ends_append: "ends (ms @ ns) = ends ms @ ends ns"
  by (simp add: ends_def)

lemma selectMoves_ok:
  assumes "stats_ok stats" "\<forall>nss cm. routing nss = Inr cm \<longrightarrow> (\<exists>a b. balanceable tags a b cm)"
    "cluster_moves routing stats st"
  shows "\<exists>st'. selectMoves tags routing stats aggressive colls st = Inr st' \<and> cluster_moves routing stats st'"
  using assms(3)
proof (induction colls arbitrary: st)
  case (Cons coll colls)
  let ?nss = "the (coll_fullNs coll)"
  let ?r = "getMigrateCandidatesForCollection tags routing ?nss stats aggressive (snd st)"
  consider (skip) code where "?r = Inr (Inl code)"
    | (moves) ms cm where "routing ?nss = Inr cm" "?r = Inr (Inr (ms, snd st \<union> set (ends ms)))" "distinct (ends ms)" "set (ends ms) \<inter> snd st = {}"
      "\<forall>m\<in>set ms. moves_from_table stats cm m"
  proof (cases "routing ?nss")
    case (Inl code)
    then show thesis
      using that(1) by (simp add: getMigrateCandidatesForCollection_def)
  next
    case (Inr cm)
    then obtain a b where "balanceable tags a b cm"
      using assms(2) by blast
    from migrateCandidates_total [where routing = routing and nss = ?nss, OF this assms(1) Inr] show thesis
      using that Inr by blast
  qed
  then show ?case
  proof cases
    case skip
    then show ?thesis
      using Cons by simp
  next
    case moves
    have "cluster_moves routing stats (fst st @ ms, snd st \<union> set (ends ms))"
      using Cons.prems moves(1,3-5) unfolding cluster_moves_def fst_conv snd_conv ends_append distinct_append set_append by blast
    then show ?thesis
      using Cons.IH [of st] Cons.IH [of "(fst st @ ms, snd st \<union> set (ends ms))"] Cons.prems moves(2) by simp
  qed
qed simp


subsection \<open>A sample collection\<close>

definition sample_tags :: store where
  "sample_tags = [[(''ns'', String ''d.c''), (''tag'', String ''Z''), (''min'', Object (int_key 5)), (''max'', Object (int_key 10))]]"

definition sample_shards :: "bool \<Rightarrow> shard_statistics list" where
  "sample_shards draining = [sample_stat ''s0'' [''Z''] draining, sample_stat ''s1'' [''Z''] False]"

lemma sample_shards_ok: "stats_ok (sample_shards draining)"
  by (simp add: stats_ok_def sample_shards_def sample_stat_def)

lemma sample_table:
  "cm_nss sample_manager \<noteq> []" "\<forall>e\<in>set (chunkMap sample_manager). chunk_shape (snd e)"
  "globalMax (cm_keyPattern sample_manager) = Inr max_key"
proof -
  have "isSet (ChunkVersion 1 0 7)" "isSet (ChunkVersion 1 1 7)" "isSet (ChunkVersion 1 2 7)"
    by code_simp+
  then show "\<forall>e\<in>set (chunkMap sample_manager). chunk_shape (snd e)"
    by (simp add: sample_manager_def sample_map_def chunk_at_def chunk_shape_def)
  show "globalMax (cm_keyPattern sample_manager) = Inr max_key"
    by code_simp
qed (simp add: sample_manager_def)

lemma sample_balanceable:
  "balanceable sample_tags (keyOf min_key) (keyOf max_key) sample_manager" "balanceable [] (keyOf min_key) (keyOf max_key) sample_manager"
proof -
  have "getTagsForCollection sample_tags (cm_nss sample_manager) = Inr [\<lparr>tags_ns = Some ''d.c'', tags_tag = Some ''Z'',
      tags_minKey = Some (int_key 5), tags_maxKey = Some (int_key 10)\<rparr>]" "getTagsForCollection [] (cm_nss sample_manager) = Inr []"
    by code_simp+
  moreover have "extendRangeBound (cm_keyPattern sample_manager) (int_key n) False = Inr (int_key n)" for n
    by (simp add: sample_manager_def int_key_def)
  ultimately show "balanceable sample_tags (keyOf min_key) (keyOf max_key) sample_manager"
    "balanceable [] (keyOf min_key) (keyOf max_key) sample_manager"
    using sample_table sample_partition by (auto simp: balanceable_def tags_proper_def)
qed

lemma sample_distribution:
  obtains d where "createCollectionDistributionStatus sample_tags (sample_shards False) sample_manager = Inr (Inr d)"
    "zoneRanges d = [(int_key 10, \<lparr>zone_min = int_key 5, zone_max = int_key 10, zone_name = ''Z''\<rparr>)]"
proof -
  have "case createCollectionDistributionStatus sample_tags (sample_shards False) sample_manager of
      Inr (Inr d) \<Rightarrow> zoneRanges d = [(int_key 10, \<lparr>zone_min = int_key 5, zone_max = int_key 10, zone_name = ''Z''\<rparr>)] | _ \<Rightarrow> False"
    by code_simp
  then show thesis
    using that by (auto split: sum.splits)
qed

lemma sample_inner: "keyOf (int_key 5) \<in> inner_bounds sample_manager (keyOf max_key)
    [(int_key 10, \<lparr>zone_min = int_key 5, zone_max = int_key 10, zone_name = ''Z''\<rparr>)]"
  by (auto simp: inner_bounds_def zone_bounds_def chunk_bound_def sample_manager_def sample_map_def chunk_at_def)

theorem split_candidates_align_zones_witness:
  "\<exists>infos. getSplitCandidatesForCollection sample_tags (\<lambda>_. Inr sample_manager) ''d.c'' (sample_shards False) = Inr (Inr infos)
    \<and> keyOf (int_key 5) \<in> points infos"
proof -
  obtain d where d: "createCollectionDistributionStatus sample_tags (sample_shards False) sample_manager = Inr (Inr d)"
    "zoneRanges d = [(int_key 10, \<lparr>zone_min = int_key 5, zone_max = int_key 10, zone_name = ''Z''\<rparr>)]"
    by (rule sample_distribution)
  show ?thesis
    using split_candidates_align_zones [where routing = "\<lambda>_. Inr sample_manager" and nss = "''d.c''",
        OF sample_balanceable(1) sample_shards_ok refl d(1)] sample_inner unfolding d(2) by blast
qed

theorem migrations_wait_for_splits_witness:
  "getMigrateCandidatesForCollection sample_tags (\<lambda>_. Inr sample_manager) ''d.c'' (sample_shards False) False {} = Inr (Inl IllegalOperation)"
proof -
  obtain d where d: "createCollectionDistributionStatus sample_tags (sample_shards False) sample_manager = Inr (Inr d)"
    "zoneRanges d = [(int_key 10, \<lparr>zone_min = int_key 5, zone_max = int_key 10, zone_name = ''Z''\<rparr>)]"
    by (rule sample_distribution)
  have "\<not> (getSplitCandidatesForCollection sample_tags (\<lambda>_. Inr sample_manager) ''d.c'' (sample_shards False) = Inr (Inr []))"
    by code_simp
  then show ?thesis
    using migrations_wait_for_splits [where routing = "\<lambda>_. Inr sample_manager" and nss = "''d.c''" and used = "{}" and aggressive = False,
        OF sample_balanceable(1) sample_shards_ok refl d(1)] by (auto split: if_splits)
qed

definition sample_coll :: collection_type where
  "sample_coll = \<lparr>coll_fullNs = Some ''d.c'', coll_epoch = Some 7, coll_updatedAt = None, coll_dropped = None, coll_keyPattern = None,
     coll_defaultCollation = [], coll_unique = None, coll_uuid = None, coll_allowBalance = None\<rparr>"


end
