(* ===== verification/Spec2Isabelle.thy ===== *)
theory Spec2Isabelle
  imports Index_Bounds Bson_String Hass_Tuning Router_System Balancer_Selection
begin

text \<open>
  Verification of the sharding core of a MongoDB 3.6.18 derivative whose router splits chunks by the
  hotness of their keys. All paths are below \<open>src/mongo-r3.6.18/src/mongo\<close>.

  \<^bold>\<open>The program.\<close> A sharded collection is cut into chunks, half-open ranges of shard keys, each owned
  by one shard. The config server keeps one document per chunk and is the only place where splits,
  merges and migrations are committed. Routers load these documents into a routing table, send every
  key to the shard the table names, and refresh the table in the background when a shard tells them
  that it is out of date. After a write, the router counts what was written to the chunk and may
  split it; in this derivative it moves the split points towards the average of the key prefixes
  written. The balancer splits chunks at the boundaries of zones and chooses the chunks to migrate.

  \<^bold>\<open>Conventions\<close> (\<open>Shard_Prelude\<close>). A function that returns a status or throws has a value of type
  \<open>'a result\<close>: \<open>Inl (Error code)\<close> is an error status or a \<open>DBException\<close>, \<open>Inl Fatal\<close> a failed
  \<open>invariant\<close>, which aborts the process, \<open>Inl OutOfRange\<close> an exception of the string library, and
  \<open>Inl UndefinedBehaviour\<close> what the language leaves undefined. In \<open>Balancer_Selection\<close>, where returned
  and thrown errors differ, a status is an inner sum. A \<open>std::map\<close> with a comparator is a list sorted
  by it; the locale \<open>cmp_order\<close> states what a comparator promises, the maps are developed in it, and
  \<open>Bson\<close> interprets it on \<open>woCompare\<close>. Mutable state is passed explicitly. Integers have the width
  of the code where it matters: versions (two 32-bit halves of a 64-bit number), sizes in bytes, the
  8-bit loop counter of the split, the 32-bit chunk counts of the balancer. Doubles are their 64 bits
  and are compared by exact value; \<open>Double_Arith\<close> rounds to nearest, ties to even.

  \<^bold>\<open>Values and keys.\<close>
  \<^item> \<open>Bson\<close>: documents, \<open>woCompare\<close> and the extractors (\<open>bson/bsonelement.cpp\<close>, \<open>bson/bsonobj.cpp\<close>,
    \<open>bson/util/bson_extract.cpp\<close>, \<open>base/compare_numbers.h\<close>). The order is a total preorder, and the
    comparison of 64-bit integers with doubles is exact.
  \<^item> \<open>Bson_String\<close>: printing of documents, which identifiers of chunks are made of; \<open>ItoA\<close> prints
    decimal numerals.
  \<^item> \<open>Key_Order\<close>: keys up to the order, a linearly ordered type. \<open>Partition\<close>: tilings of a linear
    order by half-open intervals, the abstract view of every chunk map.
  \<^item> \<open>Shard_Key_Pattern\<close>: \<open>s/shard_key_pattern.cpp\<close>, \<open>db/keypattern.cpp\<close>. Which documents are shard
    key patterns, which keys are extracted from documents, and how bounds are extended.

  \<^bold>\<open>Chunks and routing tables.\<close>
  \<^item> \<open>Chunk_Version\<close>, \<open>Chunk_Type\<close>, \<open>Collection_Type\<close>: versions, ranges and the documents of the config
    collections (\<open>s/chunk_version.cpp\<close>, \<open>s/catalog/type_chunk.cpp\<close>, \<open>type_collection.cpp\<close>,
    \<open>type_database.cpp\<close>). Parsing inverts printing on valid entries; versions grow or fail with the
    overflow error; the operations on ranges are those on sets of keys.
  \<^item> \<open>Chunk\<close>, \<open>Chunk_Manager\<close>: \<open>s/chunk.cpp\<close>, \<open>s/chunk_manager.cpp\<close>. The record \<open>chunk_manager\<close> is the
    class with its chunk map, its map of ranges by shard and its versions by shard.
  \<^item> \<open>Routing\<close>, \<open>Chunk_Views\<close>: a table that partitions the key space routes every key to the chunk
    that holds it and a range to exactly the owners of the chunks it meets, its versions are the
    maxima of those of its chunks, and \<open>makeUpdated\<close> refines the replacement of ranges in a
    partition.
  \<^item> \<open>Index_Bounds\<close>: \<open>db/query/interval.cpp\<close>, \<open>db/query/index_bounds.cpp\<close> and the targeting of a query.
    The targeted shards include the owner of every key within the bounds of the query.

  \<^bold>\<open>The config server.\<close>
  \<^item> \<open>Config_Chunks\<close>: \<open>commitChunkSplit\<close>, \<open>commitChunkMerge\<close> and \<open>commitChunkMigration\<close>
    (\<open>s/catalog/sharding_catalog_manager_chunk_operations.cpp\<close>) through \<open>applyOps\<close>
    (\<open>db/repl/apply_ops.cpp\<close>, \<open>db/repl/oplog.cpp\<close>) on the list of documents of \<open>config.chunks\<close>.
  \<^item> \<open>Config_Invariant\<close>, \<open>Config_Commits\<close>: the documents of a collection cover every key exactly once.
    Every commit does what its name says and keeps this, a failed one changes nothing, a split at
    valid points commits, and the relation \<open>config_step\<close> of all commits keeps the invariant and never
    lowers the collection version.

  \<^bold>\<open>The router.\<close>
  \<^item> \<open>Catalog_Loader\<close>, \<open>Router_Refresh\<close>: the reads of the catalog client
    (\<open>s/catalog/sharding_catalog_client_impl.cpp\<close>, \<open>s/config_server_catalog_cache_loader.cpp\<close>) and
    \<open>refreshCollectionRoutingInfo\<close>. Whatever was committed since a table was loaded, refreshing it
    yields a table that mirrors the config server.
  \<^item> \<open>Catalog_Cache\<close>, \<open>Cache_Invariant\<close>: \<open>s/catalog_cache.cpp\<close>, one definition per critical section, with
    heaps for the shared database entries and the notifications of running refreshes.
  \<^item> \<open>Router_System\<close>: the relation \<open>system_step\<close> interleaves commits with the operations of the cache.
    Every cached table is a snapshot of the metadata, and no operation aborts unless a collection is
    purged while it is refreshed, which does abort.
  \<^item> \<open>Hass_Split\<close>, \<open>Hass_Tuning\<close>: the auto-split of \<open>s/commands/cluster_write.cpp\<close> and
    \<open>s/shard_util.cpp\<close>. When the tuned points are in order, when they cross, when the loops end, what
    the average is, and that errors of a split do not reach the write.

  \<^bold>\<open>The balancer.\<close>
  \<^item> \<open>Zones\<close>: \<open>s/catalog/type_tags.cpp\<close> and the class \<open>DistributionStatus\<close> of
    \<open>db/s/balancer/balancer_policy.cpp\<close>. Zones stay disjoint; the zone of a chunk is the one that
    includes it.
  \<^item> \<open>Balancer_Policy\<close>: the class \<open>BalancerPolicy\<close>. What it proposes is permitted, has a reason and uses
    no shard twice; when it proposes nothing, there is nothing it should have moved, except that it
    looks at one receiver of a zone only.
  \<^item> \<open>Balancer_Selection\<close>: \<open>db/s/balancer/balancer_chunk_selection_policy_impl.cpp\<close>. Chunks are split
    exactly at the zone boundaries inside them, a collection is balanced exactly when there are none,
    and the migrations chosen over all collections can run in parallel.

  \<^bold>\<open>Termination.\<close> All functions are total, without fuel. The loop of the balancer over a zone ends by
  the number of shards not yet used. The loop over the split points above the average
  (\<open>rightLoop\<close>) counts in 8 bits and need not end, so it is a partial function with result \<open>None\<close>
  for divergence: it ends for at most 255 points and never returns points for more.

  \<^bold>\<open>Parameters.\<close> The hash of hashed shard keys, the query planner, the answers of shards to the
  router, the settings of the balancer, the statistics of shards, random numbers, the shuffle of
  collections, the collator factory and the shard registry are arguments of the definitions.

  \<^bold>\<open>Not modelled.\<close> The 128-bit decimal type; logging, timers and reports; the network, write concerns
  and lost connections; the balancer's thread and migration manager; the transfer of documents
  in a migration and the metadata of the shards (\<open>db/s\<close> outside \<open>balancer\<close>), which belong to the storage
  engine; the creation and removal of databases, collections, shards and zones; the dispatch of
  write batches and cursors; the query language, storage and replication of \<open>mongod\<close>.
\<close>

end
